(* ===== verification/Prelude.thy ===== *)
theory Prelude
  imports Complex_Main "HOL-Library.Word" "HOL-Library.Signed_Division" "HOL-Library.AList"
begin

text \<open>
  Shared vocabulary of the development.

  \<^item> C++ integers. An \<open>int\<close> or \<open>std::int64_t\<close> value is a HOL \<^typ>\<open>int\<close>;
    \<open>i32\<close> and \<open>i64\<close> are the two's complement wrap of a result to 32 and 64 bits and
    are written wherever the source adds, multiplies or shifts values that are not bounded
    by constants. A \<open>std::uint8_t\<close> is an \<^typ>\<open>8 word\<close>.
  \<^item> Exceptions. A function that may throw returns \<open>exn + 'a\<close>, \<open>Inl\<close> for the
    exception.
  \<^item> Containers. \<open>std::vector\<close>, \<open>std::list\<close> and \<open>std::deque\<close> are lists.
    \<open>std::unordered_map\<close> is an association list without duplicate keys, whose order
    stands for the (unspecified) iteration order; \<open>find\<close> is \<^const>\<open>map_of\<close>,
    \<open>m[k] = v\<close> is \<^const>\<open>AList.update\<close>, \<open>erase\<close> is \<^const>\<open>AList.delete\<close>.
\<close>

unbundle bit_operations_syntax

named_theorems cxx_const \<open>the constants of the headers, unfolded\<close>
named_theorems wf_intro \<open>introduction rules for the component invariants\<close>

section \<open>Machine integers\<close>

type_synonym byte = "8 word"

definition i32 :: "int \<Rightarrow> int" where
  "i32 x = (x + 2 ^ 31) mod 2 ^ 32 - 2 ^ 31"

definition i64 :: "int \<Rightarrow> int" where
  "i64 x = (x + 2 ^ 63) mod 2 ^ 64 - 2 ^ 63"

definition in_i32 :: "int \<Rightarrow> bool" where
  "in_i32 x \<longleftrightarrow> - (2 ^ 31) \<le> x \<and> x < 2 ^ 31"

definition in_i64 :: "int \<Rightarrow> bool" where
  "in_i64 x \<longleftrightarrow> - (2 ^ 63) \<le> x \<and> x < 2 ^ 63"

text \<open>\<open>static_cast<std::uint8_t>(v)\<close>: the value modulo 256.\<close>

definition u8_of_int :: "int \<Rightarrow> byte" where
  "u8_of_int v = word_of_int v"

text \<open>The four big-endian bytes of a 32-bit value, and the value of four bytes.\<close>

definition be32 :: "int \<Rightarrow> byte list" where
  "be32 v = [u8_of_int (drop_bit 24 v AND 255), u8_of_int (drop_bit 16 v AND 255),
             u8_of_int (drop_bit 8 v AND 255), u8_of_int (v AND 255)]"

definition unbe32 :: "byte \<Rightarrow> byte \<Rightarrow> byte \<Rightarrow> byte \<Rightarrow> int" where
  "unbe32 b0 b1 b2 b3 =
     i32 (push_bit 24 (uint b0) OR push_bit 16 (uint b1) OR push_bit 8 (uint b2) OR uint b3)"

section \<open>Exceptions\<close>

text \<open>The standard exceptions the source throws or catches, and \<open>Fault\<close>: a hardware trap
  (an integer division by zero), which is undefined behaviour in C++ and ends the process.\<close>

datatype exn =
    InvalidArgument string | RuntimeError string | OutOfRange string | LengthError string | Fault string

primrec what :: "exn \<Rightarrow> string" where
  "what (InvalidArgument s) = s"
| "what (RuntimeError s) = s"
| "what (OutOfRange s) = s"
| "what (LengthError s) = s"
| "what (Fault s) = s"

text \<open>Sequencing of computations that may throw.\<close>

definition ebind :: "exn + 'a \<Rightarrow> ('a \<Rightarrow> exn + 'b) \<Rightarrow> exn + 'b" where
  "ebind r f = (case r of Inl e \<Rightarrow> Inl e | Inr x \<Rightarrow> f x)"

section \<open>Facts on machine integers\<close>

lemma i32_id [simp]: "in_i32 x \<Longrightarrow> i32 x = x"
  unfolding in_i32_def i32_def by simp

lemma i64_id [simp]: "in_i64 x \<Longrightarrow> i64 x = x"
  unfolding in_i64_def i64_def by simp

lemma in_i32_i32 [simp]: "in_i32 (i32 x)"
  unfolding in_i32_def i32_def by simp

lemma in_i64_i64 [simp]: "in_i64 (i64 x)"
  unfolding in_i64_def i64_def by simp

lemma in_i32I: "- (2 ^ 31) \<le> x \<Longrightarrow> x < 2 ^ 31 \<Longrightarrow> in_i32 x"
  by (simp add: in_i32_def)

lemma i32_signed_take_bit: "i32 x = signed_take_bit 31 x"
  by (simp add: i32_def signed_take_bit_eq_take_bit_shift take_bit_eq_mod)

lemma uint_u8_of_int: "uint (u8_of_int v) = v mod 256"
  by (simp add: u8_of_int_def uint_word_of_int)

lemma uint_u8_of_int_id [simp]: "0 \<le> v \<Longrightarrow> v \<le> 255 \<Longrightarrow> uint (u8_of_int v) = v"
  by (simp add: uint_u8_of_int)

lemma u8_of_int_uint [simp]: "u8_of_int (uint b) = b"
  by (simp add: u8_of_int_def)

lemma uint_byte_bounds: "0 \<le> uint (b :: byte)" "uint (b :: byte) \<le> 255"
proof -
  have "uint b < 2 ^ LENGTH(8)" by (rule uint_bounded)
  then show "uint b \<le> 255" by simp
qed simp

lemma length_be32 [simp]: "length (be32 v) = 4"
  by (simp add: be32_def)

subsection \<open>Big-endian bytes\<close>

lemma and_255: "x AND 255 = take_bit 8 (x::int)"
  by (simp add: take_bit_eq_mask mask_eq_exp_minus_1)

lemma uint_u8_take_bit: "uint (u8_of_int v) = take_bit 8 v"
  by (simp add: uint_u8_of_int take_bit_eq_mod)

lemma bytes_of_bits:
  "push_bit 24 (take_bit 8 (drop_bit 24 v)) OR push_bit 16 (take_bit 8 (drop_bit 16 v)) OR
    push_bit 8 (take_bit 8 (drop_bit 8 v)) OR take_bit 8 v = take_bit 32 (v :: int)"
proof (rule bit_eqI)
  fix n :: nat
  consider "n < 8" | "8 \<le> n" "n < 16" | "16 \<le> n" "n < 24" | "24 \<le> n" "n < 32" | "32 \<le> n"
    by linarith
  then show "bit (push_bit 24 (take_bit 8 (drop_bit 24 v)) OR push_bit 16 (take_bit 8 (drop_bit 16 v)) OR
    push_bit 8 (take_bit 8 (drop_bit 8 v)) OR take_bit 8 v) n = bit (take_bit 32 v) n"
    by cases (auto simp: bit_simps)
qed

lemma unbe32_be32 [simp]:
  assumes "in_i32 v"
  shows "unbe32 (be32 v ! 0) (be32 v ! 1) (be32 v ! 2) (be32 v ! 3) = v"
proof -
  have "i32 (take_bit 32 v) = i32 v"
    by (simp add: i32_def take_bit_eq_mod mod_add_left_eq)
  with assms show ?thesis
    by (simp add: be32_def unbe32_def uint_u8_take_bit and_255 bytes_of_bits)
qed

lemma low_bytes_signed_take_bit:
  assumes "k \<le> 24"
  shows "take_bit 8 (drop_bit k (signed_take_bit 31 x)) = take_bit 8 (drop_bit k (x :: int))"
proof (rule bit_eqI)
  fix n
  have "n < 8 \<Longrightarrow> min 31 (k + n) = k + n" using assms by simp
  then show "bit (take_bit 8 (drop_bit k (signed_take_bit 31 x))) n = bit (take_bit 8 (drop_bit k x)) n"
    by (auto simp: bit_take_bit_iff bit_drop_bit_eq bit_signed_take_bit_iff)
qed

lemma be32_unbe32 [simp]: "be32 (unbe32 a b c d) = [a, b, c, d]"
proof -
  let ?w = "push_bit 24 (uint a) OR push_bit 16 (uint b) OR push_bit 8 (uint c) OR uint d"
  have bits: "bit x n \<Longrightarrow> n < 8" for x :: byte and n
    using bit_imp_le_length[of x n] by simp
  have "take_bit 8 (drop_bit 24 ?w) = uint a" "take_bit 8 (drop_bit 16 ?w) = uint b"
     "take_bit 8 (drop_bit 8 ?w) = uint c" "take_bit 8 (drop_bit 0 ?w) = uint d"
    by (rule bit_eqI; auto simp: bit_simps dest: bits)+
  then show ?thesis
    using low_bytes_signed_take_bit[of 24 ?w] low_bytes_signed_take_bit[of 16 ?w]
      low_bytes_signed_take_bit[of 8 ?w] low_bytes_signed_take_bit[of 0 ?w]
    by (simp add: be32_def unbe32_def i32_signed_take_bit and_255 del: take_bit_or drop_bit_or)
qed

lemma be32_i32 [simp]: "be32 (i32 v) = be32 v"
  using low_bytes_signed_take_bit[of 24 v] low_bytes_signed_take_bit[of 16 v]
      low_bytes_signed_take_bit[of 8 v] low_bytes_signed_take_bit[of 0 v]
  by (simp add: be32_def i32_signed_take_bit and_255 u8_of_int_def)

lemma in_i32_unbe32 [simp]: "in_i32 (unbe32 a b c d)"
  by (simp add: unbe32_def)

lemma u8_of_int_eqI: "uint b = v \<Longrightarrow> u8_of_int v = b"
  by auto

lemma be32_obtain:
  assumes "in_i32 v"
  obtains a b c d where "be32 v = [a, b, c, d]" "unbe32 a b c d = v"
proof
  show "be32 v = [be32 v ! 0, be32 v ! 1, be32 v ! 2, be32 v ! 3]"
    by (simp add: be32_def)
  show "unbe32 (be32 v ! 0) (be32 v ! 1) (be32 v ! 2) (be32 v ! 3) = v"
    using assms by (rule unbe32_be32)
qed

end
