(* ===== verification/Text.thy ===== *)
theory Text
  imports Prelude
begin

text \<open>
  The text primitives of the repository: the space splitters of
  \<open>commands_parser.cpp\<close>, \<open>trawler_node_arp_commands.cpp\<close> and
  \<open>stack_node.cpp\<close>, and the parts of the C++ library they are used with
  (\<open>std::stoi\<close>, \<open>std::stol\<close>, \<open>std::stoll\<close>, \<open>operator<<\<close> for integers and
  the byte/string conversions of \<open>string_bytes.hpp\<close>).
\<close>

section \<open>Printing integers\<close>

definition char_digit :: "nat \<Rightarrow> char" where
  "char_digit d = char_of (48 + d)"

fun string_of_nat :: "nat \<Rightarrow> string" where
  "string_of_nat n =
     (if n < 10 then [char_digit n] else string_of_nat (n div 10) @ [char_digit (n mod 10)])"

declare string_of_nat.simps [simp del]

definition string_of_int :: "int \<Rightarrow> string" where
  "string_of_int v =
     (if v < 0 then CHR ''-'' # string_of_nat (nat (- v)) else string_of_nat (nat v))"

section \<open>Reading integers\<close>

definition isspace :: "char \<Rightarrow> bool" where
  "isspace c \<longleftrightarrow> c = CHR '' '' \<or> (9 \<le> (of_char c :: nat) \<and> (of_char c :: nat) \<le> 13)"

definition isdigit :: "char \<Rightarrow> bool" where
  "isdigit c \<longleftrightarrow> 48 \<le> (of_char c :: nat) \<and> (of_char c :: nat) \<le> 57"

definition digit_val :: "char \<Rightarrow> int" where
  "digit_val c = int (of_char c) - 48"

definition digits_val :: "string \<Rightarrow> int" where
  "digits_val ds = fold (\<lambda>c acc. 10 * acc + digit_val c) ds 0"

text \<open>\<open>strtol(s, &end, 10)\<close>: white space, a sign, then the longest run of digits;
  \<open>None\<close> when there is no digit.\<close>

definition strtol10 :: "string \<Rightarrow> int option" where
  "strtol10 s =
     (let t = dropWhile isspace s;
          neg = (t \<noteq> [] \<and> hd t = CHR ''-'');
          u = (if t \<noteq> [] \<and> (hd t = CHR ''-'' \<or> hd t = CHR ''+'') then tl t else t);
          ds = takeWhile isdigit u
      in if ds = [] then None else Some (if neg then - digits_val ds else digits_val ds))"

definition stoi :: "string \<Rightarrow> exn + int" where
  "stoi s = (case strtol10 s of None \<Rightarrow> Inl (InvalidArgument ''stoi'')
     | Some v \<Rightarrow> if in_i32 v then Inr v else Inl (OutOfRange ''stoi''))"

definition stol :: "string \<Rightarrow> exn + int" where
  "stol s = (case strtol10 s of None \<Rightarrow> Inl (InvalidArgument ''stol'')
     | Some v \<Rightarrow> if in_i64 v then Inr v else Inl (OutOfRange ''stol''))"

definition stoll :: "string \<Rightarrow> exn + int" where
  "stoll s = (case strtol10 s of None \<Rightarrow> Inl (InvalidArgument ''stoll'')
     | Some v \<Rightarrow> if in_i64 v then Inr v else Inl (OutOfRange ''stoll''))"

section \<open>Splitting at spaces\<close>

text \<open>The loop shared by the three splitters of the source.\<close>

fun split_loop :: "string \<Rightarrow> string list \<Rightarrow> string \<Rightarrow> string list" where
  "split_loop [] tokens cur = tokens @ [cur]"
| "split_loop (c # cs) tokens cur =
     (if c = CHR '' '' then split_loop cs (tokens @ [cur]) []
      else split_loop cs tokens (cur @ [c]))"

definition splitSpaceVec :: "string \<Rightarrow> string list" where
  "splitSpaceVec s = split_loop s [] []"

definition pop_trailing_empty :: "string list \<Rightarrow> string list" where
  "pop_trailing_empty tokens = rev (dropWhile (\<lambda>t. t = []) (rev tokens))"

definition splitSpaces :: "string \<Rightarrow> string list" where
  "splitSpaces line =
     (let tokens = pop_trailing_empty (split_loop line [] [])
      in if tokens = [] then [[]] else tokens)"

text \<open>\<open>msg += s; msg += ' '\<close> over the words, then \<open>msg.pop_back()\<close>.\<close>

definition join_words :: "string list \<Rightarrow> string" where
  "join_words ws = butlast (concat (map (\<lambda>w. w @ '' '') ws))"

section \<open>Bytes and strings\<close>

definition stringToBytes :: "string \<Rightarrow> byte list" where
  "stringToBytes s = map (\<lambda>c. word_of_nat (of_char c)) s"

definition bytesToString :: "byte list \<Rightarrow> string" where
  "bytesToString bs = map (\<lambda>b. char_of (unat b)) bs"

section \<open>Facts\<close>

lemma of_char_digit [simp]: "d < 10 \<Longrightarrow> of_char (char_digit d) = (48 + d :: nat)"
  by (simp add: char_digit_def of_char_of)

text \<open>Printing a literal.\<close>

lemma char_digit_literals:
  "char_digit 0 = CHR ''0''" "char_digit (Suc 0) = CHR ''1''" "char_digit 2 = CHR ''2''" "char_digit 3 = CHR ''3''"
  "char_digit 4 = CHR ''4''" "char_digit 5 = CHR ''5''" "char_digit 6 = CHR ''6''" "char_digit 7 = CHR ''7''"
  "char_digit 8 = CHR ''8''" "char_digit 9 = CHR ''9''"
  by code_simp+

lemmas print_eval = string_of_int_def string_of_nat.simps char_digit_literals

lemma isdigit_char_digit [simp]: "d < 10 \<Longrightarrow> isdigit (char_digit d)"
  by (simp add: isdigit_def)

lemma digit_val_char_digit [simp]: "d < 10 \<Longrightarrow> digit_val (char_digit d) = int d"
  by (simp add: digit_val_def)

lemma string_of_nat_digits: "\<forall>c \<in> set (string_of_nat n). isdigit c"
  by (induction n rule: string_of_nat.induct) (subst string_of_nat.simps, auto)

lemma string_of_nat_nonempty [simp]: "string_of_nat n \<noteq> []"
  by (subst string_of_nat.simps) simp

lemma digits_val_snoc: "digits_val (ds @ [c]) = 10 * digits_val ds + digit_val c"
  by (simp add: digits_val_def)

lemma digits_val_string_of_nat [simp]: "digits_val (string_of_nat n) = int n"
proof (induction n rule: string_of_nat.induct)
  case (1 n)
  show ?case
  proof (cases "n < 10")
    case True
    then show ?thesis by (subst string_of_nat.simps) (simp add: digits_val_def)
  next
    case False
    have "10 * int (n div 10) + int (n mod 10) = int n" by presburger
    with False "1.IH" show ?thesis
      by (subst string_of_nat.simps) (simp add: digits_val_snoc)
  qed
qed

lemma isdigit_not: "isdigit c \<Longrightarrow> \<not> isspace c \<and> c \<noteq> CHR ''-'' \<and> c \<noteq> CHR ''+'' \<and> c \<noteq> CHR '' ''"
  by (auto simp: isdigit_def isspace_def)

lemma string_of_nat_Cons:
  obtains c cs where "string_of_nat n = c # cs" "isdigit c"
  using string_of_nat_digits[of n] by (cases "string_of_nat n") auto

lemma takeWhile_string_of_nat [simp]: "takeWhile isdigit (string_of_nat n) = string_of_nat n"
  using string_of_nat_digits[of n] by simp

lemma strtol10_string_of_int [simp]: "strtol10 (string_of_int v) = Some v"
proof (cases "v < 0")
  case True
  then show ?thesis
    by (simp add: strtol10_def string_of_int_def isspace_def Let_def)
next
  case False
  obtain c cs where c: "string_of_nat (nat v) = c # cs" "isdigit c"
    by (rule string_of_nat_Cons)
  have tw: "takeWhile isdigit cs = cs"
    using c string_of_nat_digits[of "nat v"] by simp
  have "digits_val (c # cs) = v"
    using False by (simp flip: c(1))
  with False c show ?thesis
    by (simp add: strtol10_def string_of_int_def Let_def isdigit_not tw)
qed

lemma stoi_string_of_int: "in_i32 v \<Longrightarrow> stoi (string_of_int v) = Inr v"
  by (simp add: stoi_def)

lemma stoll_string_of_int: "in_i64 v \<Longrightarrow> stoll (string_of_int v) = Inr v"
  by (simp add: stoll_def)

lemma stoi_in_i32: "stoi s = Inr v \<Longrightarrow> in_i32 v"
  by (auto simp: stoi_def split: option.splits if_splits)

text \<open>The characters of printed numbers.\<close>

definition number_char :: "char \<Rightarrow> bool" where
  "number_char c \<longleftrightarrow> isdigit c \<or> c \<in> {CHR ''-'', CHR ''+'', CHR ''.'', CHR ''e''}"

lemma number_char_not:
  "\<not> number_char (CHR '' '')" "\<not> number_char (CHR ''\<newline>'')" "\<not> number_char (CHR 0x0D)"
  by (simp_all add: number_char_def isdigit_def)

lemma string_of_nat_chars: "list_all number_char (string_of_nat k)"
  using string_of_nat_digits[of k] by (auto simp: number_char_def list_all_iff)

lemma string_of_int_chars: "list_all number_char (string_of_int v)"
  using string_of_nat_chars by (auto simp: string_of_int_def list_all_iff number_char_def)

lemma string_of_int_no_space: "CHR '' '' \<notin> set (string_of_int v)"
  using string_of_int_chars[of v] number_char_not by (auto simp: list_all_iff)

lemma string_of_int_nonempty [simp]: "string_of_int v \<noteq> []"
  by (simp add: string_of_int_def)

text \<open>The splitter against its reference: the words between the spaces.\<close>

fun words_of :: "string \<Rightarrow> string list" where
  "words_of [] = [[]]"
| "words_of (c # cs) =
     (if c = CHR '' '' then [] # words_of cs
      else (c # hd (words_of cs)) # tl (words_of cs))"

lemma words_of_nonempty [simp]: "words_of s \<noteq> []"
  by (cases s) auto

lemma split_loop_words_of:
  "split_loop s tokens cur = tokens @ (cur @ hd (words_of s)) # tl (words_of s)"
  by (induction s tokens cur rule: split_loop.induct) auto

lemma splitSpaceVec_words_of: "splitSpaceVec s = words_of s"
  by (simp add: splitSpaceVec_def split_loop_words_of)

fun unwords :: "string list \<Rightarrow> string" where
  "unwords [] = []"
| "unwords [w] = w"
| "unwords (w # ws) = w @ '' '' @ unwords ws"

lemma words_of_append_space:
  "CHR '' '' \<notin> set w \<Longrightarrow> words_of (w @ CHR '' '' # s) = w # words_of s"
  by (induction w) auto

lemma words_of_single: "CHR '' '' \<notin> set w \<Longrightarrow> words_of w = [w]"
  by (induction w) auto

lemma words_of_unwords:
  "ws \<noteq> [] \<Longrightarrow> \<forall>w \<in> set ws. CHR '' '' \<notin> set w \<Longrightarrow> words_of (unwords ws) = ws"
  by (induction ws rule: unwords.induct) (auto simp: words_of_single words_of_append_space)

lemma unwords_words_of: "unwords (words_of s) = s"
proof (induction s)
  case (Cons c s)
  then show ?case by (cases "words_of s"; cases "tl (words_of s)") (auto)
qed simp

lemma words_of_no_space: "w \<in> set (words_of s) \<Longrightarrow> CHR '' '' \<notin> set w"
proof (induction s arbitrary: w)
  case (Cons c s)
  then show ?case
    by (cases "words_of s") (auto split: if_splits)
qed simp

lemma splitSpaces_unwords:
  assumes "ws \<noteq> []" "\<forall>w \<in> set ws. CHR '' '' \<notin> set w" "last ws \<noteq> []"
  shows "splitSpaces (unwords ws) = ws"
proof -
  have "pop_trailing_empty ws = ws"
    using assms by (cases ws rule: rev_cases) (auto simp: pop_trailing_empty_def)
  with assms show ?thesis
    by (simp add: splitSpaces_def split_loop_words_of words_of_unwords)
qed

lemma splitSpaces_nonempty [simp]: "splitSpaces s \<noteq> []"
  by (simp add: splitSpaces_def Let_def)

lemma join_words_unwords: "ws \<noteq> [] \<Longrightarrow> join_words ws = unwords ws"
  unfolding join_words_def
  by (induction ws rule: unwords.induct) (auto simp: butlast_append)

lemma bytesToString_stringToBytes [simp]: "bytesToString (stringToBytes s) = s"
  by (induction s) (auto simp: bytesToString_def stringToBytes_def unat_of_nat)

lemma stringToBytes_bytesToString [simp]: "stringToBytes (bytesToString bs) = bs"
proof -
  have "word_of_nat (unat b mod 256) = b" for b :: byte
    using unsigned_less[where 'a = nat, of b] by simp
  then show ?thesis
    by (induction bs) (auto simp: bytesToString_def stringToBytes_def)
qed

section \<open>Properties\<close>

text \<open>\<open>splitSpaceVec\<close> cuts a line at every space: no word has a space and putting the words
  back with single spaces gives the line.\<close>

theorem splitSpaceVec_inverse:
  "unwords (splitSpaceVec s) = s \<and> list_all (\<lambda>w. CHR '' '' \<notin> set w) (splitSpaceVec s) \<and> splitSpaceVec s \<noteq> []"
  by (simp add: splitSpaceVec_words_of unwords_words_of list_all_iff words_of_no_space)

end
