(* ===== verification/Event_Queue.thy ===== *)
theory Event_Queue
  imports Prelude "HOL-Library.Multiset"
begin

text \<open>
  \<open>OrderedEventQueue\<close> (\<open>core/ordered_event_queue.cpp\<close>): a linked list of
  \<open>ScheduledEvent\<close>s kept sorted by time, an event going behind those of equal time.
  The locale \<open>time_queue\<close> is what the event loops of the simulator and the emulator
  rely on. The type of callbacks is a parameter; an empty \<open>std::function\<close> is
  \<open>None\<close>.
\<close>

record 'c scheduled_event =
  timeToOccur :: int
  callback :: "'c option"

type_synonym 'c event_queue = "'c scheduled_event list"

fun addEvent :: "'c scheduled_event \<Rightarrow> 'c event_queue \<Rightarrow> 'c event_queue" where
  "addEvent event [] = [event]"
| "addEvent event (e # es) =
     (if timeToOccur event < timeToOccur e then event # e # es else e # addEvent event es)"

definition getNextEvent :: "'c event_queue \<Rightarrow> 'c scheduled_event option" where
  "getNextEvent q = (case q of [] \<Rightarrow> None | e # _ \<Rightarrow> Some e)"

text \<open>\<open>removeNextEvent\<close> on an empty list is undefined behaviour: \<open>None\<close>.\<close>

definition removeNextEvent ::
  "'c event_queue \<Rightarrow> ('c scheduled_event \<times> 'c event_queue) option" where
  "removeNextEvent q = (case q of [] \<Rightarrow> None | e # es \<Rightarrow> Some (e, es))"

definition time_sorted :: "'c event_queue \<Rightarrow> bool" where
  "time_sorted q \<longleftrightarrow> sorted (map timeToOccur q)"

section \<open>The contract of a queue ordered by time\<close>

locale time_queue =
  fixes empty :: 'q
    and add :: "'e \<Rightarrow> 'q \<Rightarrow> 'q"
    and peek :: "'q \<Rightarrow> 'e option"
    and pop :: "'q \<Rightarrow> ('e \<times> 'q) option"
    and invar :: "'q \<Rightarrow> bool"
    and items :: "'q \<Rightarrow> 'e list"
    and time :: "'e \<Rightarrow> int"
  assumes items_empty: "items empty = []"
    and items_add: "invar q \<Longrightarrow>
      items (add e q) = filter (\<lambda>x. time x \<le> time e) (items q) @ e #
                        filter (\<lambda>x. time e < time x) (items q)"
    and peek_items: "peek q = (case items q of [] \<Rightarrow> None | x # _ \<Rightarrow> Some x)"
    and pop_items: "items q = x # xs \<Longrightarrow> \<exists>q'. pop q = Some (x, q') \<and> items q' = xs"
    and pop_none: "items q = [] \<Longrightarrow> pop q = None"
    and invar_empty: "invar empty"
    and invar_add: "invar q \<Longrightarrow> invar (add e q)"
    and invar_pop: "invar q \<Longrightarrow> pop q = Some (x, q') \<Longrightarrow> invar q'"
    and invar_sorted: "invar q \<Longrightarrow> sorted (map time (items q))"
begin

lemma mset_items_add: "invar q \<Longrightarrow> mset (items (add e q)) = add_mset e (mset (items q))"
  using multiset_partition[of "mset (items q)" "\<lambda>x. time x \<le> time e"]
  by (simp add: items_add not_le)

lemma peek_pop: "peek q = Some x \<longleftrightarrow> (\<exists>q'. pop q = Some (x, q'))"
  by (cases "items q") (use peek_items[of q] pop_items[of q] pop_none[of q] in auto)

lemma pop_conserves: "pop q = Some (x, q') \<Longrightarrow> items q = x # items q'"
  using pop_items[of q] pop_none[of q] by (cases "items q") auto

lemma pop_min: "invar q \<Longrightarrow> pop q = Some (x, q') \<Longrightarrow> y \<in> set (items q') \<Longrightarrow> time x \<le> time y"
  using invar_sorted[of q] pop_conserves[of q x q'] by auto

text \<open>Filling an empty queue sorts the events by time and keeps the order of insertion
  among equal times.\<close>

lemma sort_key_snoc:
  assumes "invar q" "items q = sort_key time es"
  shows "items (add e q) = sort_key time (es @ [e])"
proof -
  have filt: "filter (\<lambda>x. time k = time x) (items (add e q)) =
      filter (\<lambda>x. time k = time x) (es @ [e])" for k
  proof -
    have "filter (\<lambda>x. time x \<le> time e \<and> time x = time k) xs =
        (if time k \<le> time e then filter (\<lambda>x. time x = time k) xs else [])"
      "filter (\<lambda>x. time e < time x \<and> time x = time k) xs =
        (if time e < time k then filter (\<lambda>x. time x = time k) xs else [])" for xs
      by (auto intro!: filter_cong simp: filter_empty_conv)
    then show ?thesis
      using sort_key_stable[of time "time k" es] assms
      by (auto simp: items_add eq_commute[of "time k"])
  qed
  have "sort_key time (es @ [e]) = items (add e q)"
  proof (rule properties_for_sort_key)
    show "mset (items (add e q)) = mset (es @ [e])"
      using assms by (simp add: mset_items_add)
    show "sorted (map time (items (add e q)))"
      using assms by (intro invar_sorted invar_add)
  qed (rule filt)
  then show ?thesis by simp
qed

lemma fold_add_sort: "invar (fold add es empty) \<and> items (fold add es empty) = sort_key time es"
  by (induction es rule: rev_induct) (auto simp: items_empty invar_empty invar_add sort_key_snoc)

end

section \<open>The list implements it\<close>

lemma addEvent_filter:
  "time_sorted q \<Longrightarrow> addEvent e q =
     filter (\<lambda>x. timeToOccur x \<le> timeToOccur e) q @ e #
     filter (\<lambda>x. timeToOccur e < timeToOccur x) q"
proof (induction q)
  case (Cons a q)
  then have "timeToOccur e < timeToOccur a \<Longrightarrow>
      filter (\<lambda>x. timeToOccur x \<le> timeToOccur e) q = [] \<and>
      filter (\<lambda>x. timeToOccur e < timeToOccur x) q = q"
    by (auto simp: time_sorted_def filter_empty_conv filter_id_conv)
  with Cons show ?case by (auto simp: time_sorted_def)
qed simp

lemma set_addEvent [simp]: "set (addEvent e q) = insert e (set q)"
  by (induction q) auto

lemma time_sorted_addEvent [wf_intro]: "time_sorted q \<Longrightarrow> time_sorted (addEvent e q)"
  unfolding time_sorted_def by (induction q) auto

interpretation eq: time_queue "[]" addEvent getNextEvent removeNextEvent time_sorted "\<lambda>q. q" timeToOccur
proof unfold_locales
  show "time_sorted [] " by (simp add: time_sorted_def)
  show "time_sorted q \<Longrightarrow> time_sorted (addEvent e q)" for q and e :: "'c scheduled_event"
    by (rule time_sorted_addEvent)
  show "time_sorted q \<Longrightarrow> removeNextEvent q = Some (x, q') \<Longrightarrow> time_sorted q'"
    for q q' and x :: "'c scheduled_event"
    by (auto simp: time_sorted_def removeNextEvent_def split: list.splits)
qed (auto simp: addEvent_filter getNextEvent_def removeNextEvent_def time_sorted_def
    split: list.splits)

section \<open>Properties\<close>


end
