(* ===== verification/Wire.thy ===== *)
theory Wire
  imports Prelude
begin

text \<open>
  The wire formats of \<open>src/src/net\<close>: \<open>Packet\<close> (9-byte header), \<open>Transport\<close>
  (12-byte header, carried in a packet), \<open>EmulatorPacket\<close> (3-byte header around a
  packet) and \<open>LinkState\<close> (a list of neighbour bytes). A class is a record, its
  constructor a function into \<open>exn + record\<close> that throws where the source throws, and
  \<open>pack\<close>/\<open>unpack\<close> the byte-list functions of the source. The locale
  \<open>codec\<close> is what the rest of the stack relies on, and \<open>canonical_codec\<close> adds that
  an accepted byte string is the encoding of what it decodes to.
\<close>

section \<open>Protocol numbers\<close>

definition PING_PKT :: int where [cxx_const]: "PING_PKT = 0"
definition PING_REPLY_PKT :: int where [cxx_const]: "PING_REPLY_PKT = 1"
definition LINK_INFO_PKT :: int where [cxx_const]: "LINK_INFO_PKT = 2"
definition NAME_PKT :: int where [cxx_const]: "NAME_PKT = 3"
definition TRANSPORT_PKT :: int where [cxx_const]: "TRANSPORT_PKT = 4"

definition Protocol_isValid :: "int \<Rightarrow> bool" where
  "Protocol_isValid protocol \<longleftrightarrow>
     protocol = PING_PKT \<or> protocol = PING_REPLY_PKT \<or> protocol = LINK_INFO_PKT \<or>
     protocol = NAME_PKT \<or> protocol = TRANSPORT_PKT"

definition Protocol_toString :: "int \<Rightarrow> string" where
  "Protocol_toString protocol =
     (if protocol = PING_PKT then ''Ping Packet''
      else if protocol = PING_REPLY_PKT then ''Ping Reply Packet''
      else if protocol = LINK_INFO_PKT then ''Link State Packet''
      else if protocol = NAME_PKT then ''Name Packet''
      else if protocol = TRANSPORT_PKT then ''Transport Packet''
      else ''Unknown Protocol'')"

section \<open>Packet\<close>

definition BROADCAST_ADDRESS :: int where [cxx_const]: "BROADCAST_ADDRESS = 255"
definition MAX_ADDRESS :: int where [cxx_const]: "MAX_ADDRESS = 255"
definition PKT_HEADER_SIZE :: int where [cxx_const]: "PKT_HEADER_SIZE = 9"
definition MAX_PACKET_SIZE :: int where [cxx_const]: "MAX_PACKET_SIZE = 128"
definition PKT_MAX_PAYLOAD_SIZE :: int where
  [cxx_const]: "PKT_MAX_PAYLOAD_SIZE = MAX_PACKET_SIZE - PKT_HEADER_SIZE"
definition MAX_TTL :: int where [cxx_const]: "MAX_TTL = 15"

record packet =
  pk_dest :: int
  pk_src :: int
  pk_ttl :: int
  pk_protocol :: int
  pk_seq :: int
  pk_payload :: "byte list"

definition validAddress :: "int \<Rightarrow> bool" where
  "validAddress addr \<longleftrightarrow> addr \<le> MAX_ADDRESS \<and> addr \<ge> 0"

definition packet_args_valid :: "int \<Rightarrow> int \<Rightarrow> int \<Rightarrow> int \<Rightarrow> int \<Rightarrow> bool" where
  "packet_args_valid dest src ttl protocol size' \<longleftrightarrow>
     dest \<le> MAX_ADDRESS \<and> dest \<ge> 0 \<and> validAddress src \<and> Protocol_isValid protocol \<and>
     ttl \<le> MAX_TTL \<and> ttl \<ge> 0 \<and> size' \<le> MAX_PACKET_SIZE"

definition packet_isValid :: "packet \<Rightarrow> bool" where
  "packet_isValid p \<longleftrightarrow>
     packet_args_valid (pk_dest p) (pk_src p) (pk_ttl p) (pk_protocol p)
       (int (length (pk_payload p)) + PKT_HEADER_SIZE)"

definition packet_isValidToSend :: "packet \<Rightarrow> bool" where
  "packet_isValidToSend p \<longleftrightarrow> packet_isValid p \<and> pk_ttl p > 0"

definition packet_ctor ::
  "int \<Rightarrow> int \<Rightarrow> int \<Rightarrow> int \<Rightarrow> int \<Rightarrow> byte list \<Rightarrow> exn + packet" where
  "packet_ctor dest src ttl protocol seq payload =
     (if \<not> packet_args_valid dest src ttl protocol (int (length payload) + PKT_HEADER_SIZE)
      then Inl (InvalidArgument ''Arguments passed to constructor of Packet are invalid'')
      else Inr \<lparr>pk_dest = dest, pk_src = src, pk_ttl = ttl, pk_protocol = protocol,
                pk_seq = seq, pk_payload = payload\<rparr>)"

definition packet_pack :: "packet \<Rightarrow> byte list" where
  "packet_pack p =
     [u8_of_int (pk_dest p), u8_of_int (pk_src p), u8_of_int (pk_ttl p),
      u8_of_int (pk_protocol p),
      u8_of_int (int (length (pk_payload p)) + PKT_HEADER_SIZE)] @
     be32 (pk_seq p) @ pk_payload p"

definition packet_unpack :: "byte list \<Rightarrow> packet option" where
  "packet_unpack data =
     (if int (length data) < PKT_HEADER_SIZE then None
      else
        let dest = uint (data ! 0); src = uint (data ! 1); ttl = uint (data ! 2);
            protocol = uint (data ! 3); packetLength = uint (data ! 4);
            seq = unbe32 (data ! 5) (data ! 6) (data ! 7) (data ! 8);
            payload = drop (nat PKT_HEADER_SIZE) data
        in if PKT_HEADER_SIZE + int (length payload) \<noteq> packetLength then None
           else (case packet_ctor dest src ttl protocol seq payload of
                   Inl _ \<Rightarrow> None | Inr p \<Rightarrow> Some p))"

section \<open>Transport\<close>

definition TP_MAX_PACKET_SIZE :: int where
  [cxx_const]: "TP_MAX_PACKET_SIZE = PKT_MAX_PAYLOAD_SIZE"
definition TP_HEADER_SIZE :: int where [cxx_const]: "TP_HEADER_SIZE = 12"
definition TP_MAX_PAYLOAD_SIZE :: int where
  [cxx_const]: "TP_MAX_PAYLOAD_SIZE = TP_MAX_PACKET_SIZE - TP_HEADER_SIZE"
definition MAX_PORT_NUM :: int where [cxx_const]: "MAX_PORT_NUM = 255"
definition SYN :: int where [cxx_const]: "SYN = 0"
definition ACK :: int where [cxx_const]: "ACK = 1"
definition FIN :: int where [cxx_const]: "FIN = 2"
definition DATA :: int where [cxx_const]: "DATA = 3"

record transport =
  tp_srcPort :: int
  tp_destPort :: int
  tp_type :: int
  tp_window :: int
  tp_seqNum :: int
  tp_payload :: "byte list"

definition transport_ctor ::
  "int \<Rightarrow> int \<Rightarrow> int \<Rightarrow> int \<Rightarrow> int \<Rightarrow> byte list \<Rightarrow> exn + transport" where
  "transport_ctor srcPort destPort type window seqNum payload =
     (if srcPort < 0 \<or> srcPort > MAX_PORT_NUM \<or> destPort < 0 \<or> destPort > MAX_PORT_NUM \<or>
         type < SYN \<or> type > DATA \<or> int (length payload) > TP_MAX_PAYLOAD_SIZE
      then Inl (InvalidArgument ''Illegal arguments given to Transport packet'')
      else Inr \<lparr>tp_srcPort = srcPort, tp_destPort = destPort, tp_type = type,
                tp_window = window, tp_seqNum = seqNum, tp_payload = payload\<rparr>)"

definition transport_pack :: "transport \<Rightarrow> byte list" where
  "transport_pack t =
     [u8_of_int (tp_srcPort t), u8_of_int (tp_destPort t), u8_of_int (tp_type t)] @
     be32 (tp_window t) @ be32 (tp_seqNum t) @
     [u8_of_int (TP_HEADER_SIZE + int (length (tp_payload t)))] @ tp_payload t"

definition transport_unpack :: "byte list \<Rightarrow> transport option" where
  "transport_unpack data =
     (if int (length data) < TP_HEADER_SIZE then None
      else
        let srcPort = uint (data ! 0); destPort = uint (data ! 1); type = uint (data ! 2);
            window = unbe32 (data ! 3) (data ! 4) (data ! 5) (data ! 6);
            seqNum = unbe32 (data ! 7) (data ! 8) (data ! 9) (data ! 10);
            packetLength = uint (data ! 11);
            payloadLen = packetLength - TP_HEADER_SIZE
        in if payloadLen < 0 \<or> TP_HEADER_SIZE + payloadLen \<noteq> int (length data) then None
           else let payload = take (nat payloadLen) (drop (nat TP_HEADER_SIZE) data)
                in (case transport_ctor srcPort destPort type window seqNum payload of
                      Inl _ \<Rightarrow> None | Inr t \<Rightarrow> Some t))"

section \<open>EmulatorPacket\<close>

definition EP_HEADER_SIZE :: int where [cxx_const]: "EP_HEADER_SIZE = 3"
definition EP_MAX_PACKET_SIZE :: int where
  [cxx_const]: "EP_MAX_PACKET_SIZE = MAX_PACKET_SIZE + EP_HEADER_SIZE"

record emulator_packet =
  ep_destAddr :: int
  ep_srcAddr :: int
  ep_payload :: "byte list"

definition emulator_packet_ctor :: "int \<Rightarrow> int \<Rightarrow> byte list \<Rightarrow> exn + emulator_packet" where
  "emulator_packet_ctor destAddr srcAddr payload =
     (if EP_HEADER_SIZE + int (length payload) > EP_MAX_PACKET_SIZE
      then Inl (InvalidArgument ''Payload is too big'')
      else Inr \<lparr>ep_destAddr = destAddr, ep_srcAddr = srcAddr, ep_payload = payload\<rparr>)"

definition emulator_packet_pack :: "emulator_packet \<Rightarrow> byte list" where
  "emulator_packet_pack e =
     [u8_of_int (ep_destAddr e), u8_of_int (ep_srcAddr e),
      u8_of_int (EP_HEADER_SIZE + int (length (ep_payload e)))] @ ep_payload e"

definition emulator_packet_unpack :: "byte list \<Rightarrow> emulator_packet option" where
  "emulator_packet_unpack data =
     (if int (length data) < EP_HEADER_SIZE then None
      else
        let destAddr = uint (data ! 0); srcAddr = uint (data ! 1);
            packetLength = uint (data ! 2);
            payloadLen = packetLength - EP_HEADER_SIZE
        in if payloadLen < 0 \<or> EP_HEADER_SIZE + payloadLen > int (length data) then None
           else let payload = take (nat payloadLen) (drop (nat EP_HEADER_SIZE) data)
                in (case emulator_packet_ctor destAddr srcAddr payload of
                      Inl _ \<Rightarrow> None | Inr e \<Rightarrow> Some e))"

section \<open>LinkState\<close>

definition MAX_NEIGHBORS :: int where [cxx_const]: "MAX_NEIGHBORS = PKT_MAX_PAYLOAD_SIZE"

record link_state =
  ls_neighbors :: "byte list"

definition link_state_ctor :: "int list \<Rightarrow> exn + link_state" where
  "link_state_ctor neighbors =
     (if int (length neighbors) > MAX_NEIGHBORS
      then Inl (InvalidArgument ''Number of neighbors is greater than max allowed'')
      else Inr \<lparr>ls_neighbors = map u8_of_int neighbors\<rparr>)"

definition link_state_getNeighbors :: "link_state \<Rightarrow> int list" where
  "link_state_getNeighbors l = map uint (ls_neighbors l)"

definition link_state_pack :: "link_state \<Rightarrow> byte list" where
  "link_state_pack l = ls_neighbors l"

definition link_state_unpack :: "byte list \<Rightarrow> link_state option" where
  "link_state_unpack data =
     (if int (length data) > MAX_NEIGHBORS then None else Some \<lparr>ls_neighbors = data\<rparr>)"

section \<open>Well-formed values\<close>

text \<open>What a value of each class satisfies: the constructor's check, and that its
  \<open>int\<close> fields hold 32-bit values.\<close>

definition packet_ok :: "packet \<Rightarrow> bool" where
  "packet_ok p \<longleftrightarrow> packet_isValid p \<and> in_i32 (pk_seq p)"

definition transport_ok :: "transport \<Rightarrow> bool" where
  "transport_ok t \<longleftrightarrow>
     0 \<le> tp_srcPort t \<and> tp_srcPort t \<le> MAX_PORT_NUM \<and>
     0 \<le> tp_destPort t \<and> tp_destPort t \<le> MAX_PORT_NUM \<and>
     SYN \<le> tp_type t \<and> tp_type t \<le> DATA \<and>
     int (length (tp_payload t)) \<le> TP_MAX_PAYLOAD_SIZE \<and>
     in_i32 (tp_window t) \<and> in_i32 (tp_seqNum t)"

definition emulator_packet_ok :: "emulator_packet \<Rightarrow> bool" where
  "emulator_packet_ok e \<longleftrightarrow>
     validAddress (ep_destAddr e) \<and> validAddress (ep_srcAddr e) \<and>
     EP_HEADER_SIZE + int (length (ep_payload e)) \<le> EP_MAX_PACKET_SIZE"

definition link_state_ok :: "link_state \<Rightarrow> bool" where
  "link_state_ok l \<longleftrightarrow> int (length (ls_neighbors l)) \<le> MAX_NEIGHBORS"

section \<open>The contract of a wire format\<close>

locale codec =
  fixes valid :: "'a \<Rightarrow> bool"
    and pack :: "'a \<Rightarrow> byte list"
    and unpack :: "byte list \<Rightarrow> 'a option"
  assumes unpack_pack: "valid x \<Longrightarrow> unpack (pack x) = Some x"
    and unpack_valid: "unpack bs = Some x \<Longrightarrow> valid x"
begin

lemma pack_inject: "valid x \<Longrightarrow> valid y \<Longrightarrow> pack x = pack y \<longleftrightarrow> x = y"
  by (metis option.inject unpack_pack)

lemma unpack_surj: "valid x \<longleftrightarrow> (\<exists>bs. unpack bs = Some x)"
  by (metis unpack_pack unpack_valid)

lemma unpack_idem: "unpack bs = Some x \<Longrightarrow> unpack (pack x) = Some x"
  by (rule unpack_pack) (rule unpack_valid)

end

locale canonical_codec = codec +
  assumes pack_unpack: "unpack bs = Some x \<Longrightarrow> pack x = bs"
begin

lemma unpack_eq_iff: "unpack bs = Some x \<longleftrightarrow> valid x \<and> pack x = bs"
  by (metis pack_unpack unpack_pack unpack_valid)

lemma unpack_inject: "unpack bs = Some x \<Longrightarrow> unpack bs' = Some x \<Longrightarrow> bs = bs'"
  by (metis pack_unpack)

end

section \<open>The formats meet the contract\<close>

lemmas packet_defs = packet_ok_def packet_isValid_def packet_args_valid_def validAddress_def
  packet_unpack_def packet_pack_def packet_ctor_def Protocol_isValid_def

lemma packet_unpack_pack:
  assumes "packet_ok p" shows "packet_unpack (packet_pack p) = Some p"
proof -
  from assms have "in_i32 (pk_seq p)" by (simp add: packet_ok_def)
  then obtain a b c d where "be32 (pk_seq p) = [a, b, c, d]" "unbe32 a b c d = pk_seq p"
    by (rule be32_obtain)
  with assms show ?thesis
    by (cases p) (auto simp: packet_defs cxx_const)
qed

lemma packet_unpack_valid: "packet_unpack bs = Some p \<Longrightarrow> packet_ok p"
  by (auto simp: packet_ok_def packet_isValid_def packet_unpack_def packet_ctor_def Let_def
      split: if_splits)

lemma packet_pack_unpack:
  assumes "packet_unpack bs = Some p" shows "packet_pack p = bs"
proof -
  from assms have "9 \<le> length bs" by (auto simp: packet_unpack_def cxx_const split: if_splits)
  then obtain b0 b1 b2 b3 b4 b5 b6 b7 b8 rest where
    "bs = b0 # b1 # b2 # b3 # b4 # b5 # b6 # b7 # b8 # rest"
    by (auto simp: Suc_le_length_iff numeral_eq_Suc)
  with assms show ?thesis
    by (auto simp: packet_pack_def packet_unpack_def packet_ctor_def Let_def cxx_const
        add.commute split: if_splits)
qed

lemmas transport_defs = transport_ok_def transport_unpack_def transport_pack_def transport_ctor_def

lemma transport_unpack_pack:
  assumes "transport_ok t" shows "transport_unpack (transport_pack t) = Some t"
proof -
  from assms have "in_i32 (tp_window t)" "in_i32 (tp_seqNum t)" by (simp_all add: transport_ok_def)
  then obtain a b c d e f g h where
    "be32 (tp_window t) = [a, b, c, d]" "unbe32 a b c d = tp_window t"
    "be32 (tp_seqNum t) = [e, f, g, h]" "unbe32 e f g h = tp_seqNum t"
    by (metis be32_obtain)
  with assms show ?thesis
    by (cases t) (auto simp: transport_defs cxx_const Let_def)
qed

lemma transport_unpack_valid: "transport_unpack bs = Some t \<Longrightarrow> transport_ok t"
  by (auto simp: transport_defs Let_def split: if_splits)

lemma transport_pack_unpack:
  assumes "transport_unpack bs = Some t" shows "transport_pack t = bs"
proof -
  from assms have "12 \<le> length bs" by (auto simp: transport_unpack_def cxx_const split: if_splits)
  then obtain b0 b1 b2 b3 b4 b5 b6 b7 b8 b9 b10 b11 rest where
    "bs = b0 # b1 # b2 # b3 # b4 # b5 # b6 # b7 # b8 # b9 # b10 # b11 # rest"
    by (auto simp: Suc_le_length_iff numeral_eq_Suc)
  with assms show ?thesis
    by (auto simp: transport_pack_def transport_unpack_def transport_ctor_def Let_def cxx_const
        split: if_splits intro!: u8_of_int_eqI)
qed

lemma emulator_packet_unpack_pack:
  "emulator_packet_ok e \<Longrightarrow> emulator_packet_unpack (emulator_packet_pack e) = Some e"
  by (cases e) (auto simp: emulator_packet_ok_def emulator_packet_unpack_def
      emulator_packet_pack_def emulator_packet_ctor_def validAddress_def cxx_const Let_def)

lemma emulator_packet_unpack_valid:
  "emulator_packet_unpack bs = Some e \<Longrightarrow> emulator_packet_ok e"
  using uint_byte_bounds
  by (auto simp: emulator_packet_ok_def emulator_packet_unpack_def emulator_packet_ctor_def
      validAddress_def cxx_const Let_def split: if_splits)

interpretation pkt: canonical_codec packet_ok packet_pack packet_unpack
  by unfold_locales
    (fact packet_unpack_pack, fact packet_unpack_valid, fact packet_pack_unpack)

interpretation tp: canonical_codec transport_ok transport_pack transport_unpack
  by unfold_locales
    (fact transport_unpack_pack, fact transport_unpack_valid, fact transport_pack_unpack)

interpretation ep: codec emulator_packet_ok emulator_packet_pack emulator_packet_unpack
  by unfold_locales (fact emulator_packet_unpack_pack, fact emulator_packet_unpack_valid)

interpretation ls: canonical_codec link_state_ok link_state_pack link_state_unpack
  by unfold_locales
    (auto simp: link_state_ok_def link_state_pack_def link_state_unpack_def split: if_splits)

section \<open>Properties\<close>

text \<open>C19. \<open>Packet::unpack\<close> accepts exactly the encodings of valid packets and returns the packet
  encoded: decoding and encoding are inverse to each other.\<close>

theorem packet_codec: "packet_unpack bs = Some p \<longleftrightarrow> packet_ok p \<and> packet_pack p = bs"
  by (rule pkt.unpack_eq_iff)

text \<open>C20. \<open>Transport::unpack\<close> accepts exactly the encodings of valid segments and returns the
  segment encoded.\<close>

theorem transport_codec: "transport_unpack bs = Some t \<longleftrightarrow> transport_ok t \<and> transport_pack t = bs"
  by (rule tp.unpack_eq_iff)

text \<open>Tunnelling: a segment packed into a packet packed into the emulator's datagram is
  recovered by the three decoders, whatever bytes follow it in the datagram.\<close>

theorem tunnel_roundtrip:
  assumes "transport_ok t" "validAddress src" "validAddress dest" "validAddress hop" "validAddress from"
    and "packet_ctor dest src MAX_TTL TRANSPORT_PKT 0 (transport_pack t) = Inr p"
    and "emulator_packet_ctor hop from (packet_pack p) = Inr e"
  shows "emulator_packet_unpack (emulator_packet_pack e @ junk) = Some e \<and>
    packet_unpack (ep_payload e) = Some p \<and> transport_unpack (pk_payload p) = Some t"
proof -
  have p: "packet_ok p" "pk_payload p = transport_pack t"
    using assms(6) by (auto simp: packet_ctor_def packet_ok_def packet_isValid_def in_i32_def split: if_splits)
  have e: "ep_payload e = packet_pack p" "ep_destAddr e = hop" "ep_srcAddr e = from"
    "EP_HEADER_SIZE + int (length (packet_pack p)) \<le> EP_MAX_PACKET_SIZE"
    using assms(7) by (auto simp: emulator_packet_ctor_def split: if_splits)
  have "emulator_packet_unpack (emulator_packet_pack e @ junk) = Some e"
    using e assms(4,5)
    by (cases e) (simp add: emulator_packet_unpack_def emulator_packet_pack_def emulator_packet_ctor_def
        validAddress_def cxx_const Let_def)
  then show ?thesis using p e pkt.unpack_pack tp.unpack_pack[OF assms(1)] by simp
qed

definition tunnel_seg :: transport where
  "tunnel_seg = \<lparr>tp_srcPort = 10, tp_destPort = 20, tp_type = DATA, tp_window = 0, tp_seqNum = 1, tp_payload = [1, 2]\<rparr>"

theorem tunnel_roundtrip_witness:
  "\<exists>p e. packet_ctor 2 1 MAX_TTL TRANSPORT_PKT 0 (transport_pack tunnel_seg) = Inr p \<and>
     emulator_packet_unpack (emulator_packet_pack e @ [9]) = Some e \<and> transport_unpack (pk_payload p) = Some tunnel_seg"
proof -
  let ?p = "\<lparr>pk_dest = 2, pk_src = 1, pk_ttl = MAX_TTL, pk_protocol = TRANSPORT_PKT, pk_seq = 0,
    pk_payload = transport_pack tunnel_seg\<rparr>"
  let ?e = "\<lparr>ep_destAddr = 2, ep_srcAddr = 1, ep_payload = packet_pack ?p\<rparr>"
  have ok: "transport_ok tunnel_seg" "validAddress 1" "validAddress 2"
    by (simp_all add: transport_ok_def tunnel_seg_def validAddress_def in_i32_def cxx_const)
  have p: "packet_ctor 2 1 MAX_TTL TRANSPORT_PKT 0 (transport_pack tunnel_seg) = Inr ?p"
    by (simp add: packet_ctor_def packet_args_valid_def validAddress_def Protocol_isValid_def transport_pack_def
        tunnel_seg_def be32_def cxx_const)
  have e: "emulator_packet_ctor 2 1 (packet_pack ?p) = Inr ?e"
    by (simp add: emulator_packet_ctor_def packet_pack_def transport_pack_def tunnel_seg_def be32_def cxx_const)
  show ?thesis using tunnel_roundtrip[OF ok(1,2,3,3,2) p e, of "[9]"] p by blast
qed

end
