(* ===== verification/Links.thy ===== *)
theory Links
  imports Wire Text
begin

text \<open>
  The link pacers: \<open>EdgeOptions\<close>, \<open>Edge\<close> (\<open>sim/edge.cpp\<close>, one per pair of
  simulated nodes, a send time per direction) and \<open>EmulatedLink\<close>
  (\<open>emu/emulated_link.cpp\<close>), with the packet counters of \<open>RuntimeManager\<close> that
  they bump. A \<open>double\<close> is an exact rational. The draws of a link's random generator
  are a function of the draw's index, fixed when the link is built (the source seeds it
  from \<open>std::random_device\<close>): every theorem holds for all of them. The locale
  \<open>pacer\<close> states the queueing contract both classes meet.
\<close>

record edge_options =
  lossRate :: rat
  delayMs :: int
  bwBytesPerSec :: int
  bufferingMs :: int

definition default_edge_options :: edge_options where
  "default_edge_options =
     \<lparr>lossRate = 0, delayMs = 1, bwBytesPerSec = 10000, bufferingMs = 250\<rparr>"

record pkt_stats =
  pktsSent :: int
  pktsDropped :: int
  pktsLost :: int

definition packetDropped :: "pkt_stats \<Rightarrow> pkt_stats" where
  "packetDropped st = st\<lparr>pktsDropped := i32 (pktsDropped st + 1)\<rparr>"

definition packetLost :: "pkt_stats \<Rightarrow> pkt_stats" where
  "packetLost st = st\<lparr>pktsLost := i32 (pktsLost st + 1)\<rparr>"

section \<open>Edge\<close>

record edge =
  e_a :: int
  e_b :: int
  e_live :: bool
  nextSendTimeA :: int
  nextSendTimeB :: int
  e_options :: edge_options
  e_rng :: "nat \<Rightarrow> rat"
  e_draws :: nat

definition edge_ctor :: "int \<Rightarrow> int \<Rightarrow> edge_options \<Rightarrow> (nat \<Rightarrow> rat) \<Rightarrow> edge" where
  "edge_ctor a b options rng =
     \<lparr>e_a = a, e_b = b, e_live = True, nextSendTimeA = 0, nextSendTimeB = 0,
      e_options = options, e_rng = rng, e_draws = 0\<rparr>"

definition isEdge :: "edge \<Rightarrow> int \<Rightarrow> int \<Rightarrow> bool" where
  "isEdge e a b \<longleftrightarrow> (e_a e = a \<and> e_b e = b) \<or> (e_a e = b \<and> e_b e = a)"

definition edge_sendTime :: "edge \<Rightarrow> int \<Rightarrow> int" where
  "edge_sendTime e src = (if src = e_a e then nextSendTimeA e else nextSendTimeB e)"

definition set_edge_sendTime :: "edge \<Rightarrow> int \<Rightarrow> int \<Rightarrow> edge" where
  "set_edge_sendTime e src t =
     (if src = e_a e then e\<lparr>nextSendTimeA := t\<rparr> else e\<lparr>nextSendTimeB := t\<rparr>)"

text \<open>\<open>Edge::schedulePkt\<close>: the arrival time in microseconds, \<open>-1\<close> for a dropped or
  lost packet, or an exception; with the edge and the counters after the call.\<close>

definition edge_schedulePkt ::
  "edge \<Rightarrow> int \<Rightarrow> int \<Rightarrow> int \<Rightarrow> pkt_stats \<Rightarrow> (exn + int) \<times> edge \<times> pkt_stats" where
  "edge_schedulePkt e src size' nowMicros st =
     (if size' > MAX_PACKET_SIZE
      then (Inl (InvalidArgument (''Packet size must be less than Packet.MAX_PACKET_SIZE. Size = ''
                   @ string_of_int size')), e, st)
      else if src \<noteq> e_a e \<and> src \<noteq> e_b e
      then (Inl (InvalidArgument ''Src specified is not part of this edge''), e, st)
      else if bwBytesPerSec (e_options e) = 0
      then (Inl (Fault ''division by zero''), e, st)
      else
        let currentPktSendTime = max nowMicros (edge_sendTime e src);
            finishTime = i64 (currentPktSendTime +
                              (size' * 1000000) sdiv bwBytesPerSec (e_options e))
        in if i64 (finishTime - nowMicros) > i64 (bufferingMs (e_options e) * 1000)
           then (Inr (- 1), e, packetDropped st)
           else
             let e1 = set_edge_sendTime e src finishTime
             in if \<not> e_live e then (Inr (- 1), e1, packetLost st)
                else
                  let draw = e_rng e (e_draws e); e2 = e1\<lparr>e_draws := Suc (e_draws e)\<rparr>
                  in if draw < lossRate (e_options e) then (Inr (- 1), e2, packetLost st)
                     else (Inr (i64 (finishTime + i64 (delayMs (e_options e) * 1000))), e2, st))"

section \<open>EmulatedLink\<close>

record emulated_link =
  el_options :: edge_options
  el_nextSendTime :: int
  el_rng :: "nat \<Rightarrow> rat"
  el_draws :: nat

definition emulated_link_ctor :: "edge_options \<Rightarrow> (nat \<Rightarrow> rat) \<Rightarrow> emulated_link" where
  "emulated_link_ctor options rng =
     \<lparr>el_options = options, el_nextSendTime = 0, el_rng = rng, el_draws = 0\<rparr>"

definition emulated_link_schedulePkt ::
  "emulated_link \<Rightarrow> int \<Rightarrow> int \<Rightarrow> pkt_stats \<Rightarrow> (exn + int) \<times> emulated_link \<times> pkt_stats" where
  "emulated_link_schedulePkt l size' nowMicros st =
     (if bwBytesPerSec (el_options l) = 0
      then (Inl (Fault ''division by zero''), l, st)
      else
        let currentPktSendTime = max nowMicros (el_nextSendTime l);
            finishTime = i64 (currentPktSendTime +
                              (size' * 1000000) sdiv bwBytesPerSec (el_options l))
        in if i64 (finishTime - nowMicros) > i64 (bufferingMs (el_options l) * 1000)
           then (Inr (- 1), l, packetDropped st)
           else
             let draw = el_rng l (el_draws l);
                 l1 = l\<lparr>el_nextSendTime := finishTime, el_draws := Suc (el_draws l)\<rparr>
             in if draw < lossRate (el_options l) then (Inr (- 1), l1, packetLost st)
                else (Inr (i64 (finishTime + i64 (delayMs (el_options l) * 1000))), l1, st))"

section \<open>The contract of a pacer\<close>

text \<open>The range in which a link's 64-bit arithmetic is exact: a positive rate, delays and
  buffers under \<open>2 ^ 49\<close> ms, times under \<open>2 ^ 60\<close> us.\<close>

definition options_ok :: "edge_options \<Rightarrow> bool" where
  "options_ok opt \<longleftrightarrow> 0 < bwBytesPerSec opt \<and> 0 \<le> delayMs opt \<and> delayMs opt < 2 ^ 49 \<and>
     0 \<le> bufferingMs opt \<and> bufferingMs opt < 2 ^ 49"

definition tx_time :: "int \<Rightarrow> edge_options \<Rightarrow> int" where
  "tx_time size' opt = (size' * 1000000) div bwBytesPerSec opt"

locale pacer =
  fixes sched :: "'l \<Rightarrow> int \<Rightarrow> int \<Rightarrow> int \<times> 'l"
    and busy :: "'l \<Rightarrow> int"
    and opts :: "'l \<Rightarrow> edge_options"
    and ok :: "'l \<Rightarrow> bool"
  assumes sched_opts: "sched l n t = (r, l') \<Longrightarrow> opts l' = opts l"
    and sched_ok: "ok l \<Longrightarrow> 0 \<le> n \<Longrightarrow> n \<le> 128 \<Longrightarrow> 0 \<le> t \<Longrightarrow> t < 2 ^ 60 \<Longrightarrow>
      sched l n t = (r, l') \<Longrightarrow> ok l'"
    and sched_cases: "ok l \<Longrightarrow> 0 \<le> n \<Longrightarrow> n \<le> 128 \<Longrightarrow> 0 \<le> t \<Longrightarrow> t < 2 ^ 60 \<Longrightarrow>
      sched l n t = (r, l') \<Longrightarrow>
      (r = - 1 \<and> busy l' = busy l \<and>
         max t (busy l) + tx_time n (opts l) > t + bufferingMs (opts l) * 1000) \<or>
      (busy l' = max t (busy l) + tx_time n (opts l) \<and>
         busy l' \<le> t + bufferingMs (opts l) * 1000 \<and>
         (r = - 1 \<or> r = busy l' + delayMs (opts l) * 1000))"
    and ok_opts: "ok l \<Longrightarrow> options_ok (opts l)"
    and ok_busy: "ok l \<Longrightarrow> 0 \<le> busy l"
begin

lemma tx_time_nonneg: "ok l \<Longrightarrow> 0 \<le> n \<Longrightarrow> 0 \<le> tx_time n (opts l)"
  using ok_opts[of l] by (simp add: tx_time_def options_ok_def pos_imp_zdiv_nonneg_iff)

lemma busy_mono:
  assumes "ok l" "0 \<le> n" "n \<le> 128" "0 \<le> t" "t < 2 ^ 60" "sched l n t = (r, l')"
  shows "busy l \<le> busy l'"
  using sched_cases[OF assms] tx_time_nonneg[OF assms(1,2)] by auto

lemma arrival_bounds:
  assumes "ok l" "0 \<le> n" "n \<le> 128" "0 \<le> t" "t < 2 ^ 60" "sched l n t = (r, l')" "r \<noteq> - 1"
  shows "t + tx_time n (opts l) + delayMs (opts l) * 1000 \<le> r"
    and "r \<le> t + (bufferingMs (opts l) + delayMs (opts l)) * 1000"
  using sched_cases[OF assms(1-6)] assms(7) by (auto simp: algebra_simps)

text \<open>A link delivers in order: a later packet that gets through never arrives before an
  earlier one, and its transmission time separates them.\<close>

lemma fifo:
  assumes "ok l" "0 \<le> n" "n \<le> 128" "0 \<le> t" "t < 2 ^ 60" "sched l n t = (r, l')" "r \<noteq> - 1"
    and "0 \<le> n'" "n' \<le> 128" "0 \<le> t'" "t' < 2 ^ 60" "sched l' n' t' = (r', l'')" "r' \<noteq> - 1"
  shows "r + tx_time n' (opts l) \<le> r'"
proof -
  have "ok l'" using assms(1-6) by (rule sched_ok)
  with assms show ?thesis
    using sched_cases[OF assms(1-6)] sched_cases[OF \<open>ok l'\<close> assms(8-12)] sched_opts[OF assms(6)]
    by auto
qed

end

fun pacer_run :: "('l \<Rightarrow> int \<Rightarrow> int \<Rightarrow> int \<times> 'l) \<Rightarrow> 'l \<Rightarrow> (int \<times> int) list \<Rightarrow> int list" where
  "pacer_run sched l [] = []"
| "pacer_run sched l ((n, t) # sends) =
     (let (r, l') = sched l n t in r # pacer_run sched l' sends)"

context pacer
begin
lemma run_ge:
  assumes "ok l" "\<forall>(n, t) \<in> set sends. 0 \<le> n \<and> n \<le> 128 \<and> 0 \<le> t \<and> t < 2 ^ 60"
    and "r \<in> set (pacer_run sched l sends)" "r \<noteq> - 1"
  shows "busy l + delayMs (opts l) * 1000 \<le> r"
  using assms
proof (induction sends arbitrary: l)
  case (Cons s sends)
  obtain n t r1 l1 where s: "s = (n, t)" "sched l n t = (r1, l1)"
    by (cases s) (metis surj_pair)
  have rng: "0 \<le> n" "n \<le> 128" "0 \<le> t" "t < 2 ^ 60" using Cons.prems s by auto
  note hyps = Cons.prems(1) rng s(2)
  have "ok l1" by (rule sched_ok[OF hyps])
  show ?case
  proof (cases "r = r1")
    case True
    with sched_cases[OF hyps] Cons.prems(4) tx_time_nonneg[OF Cons.prems(1) rng(1)]
    show ?thesis by auto
  next
    case False
    then have "busy l1 + delayMs (opts l1) * 1000 \<le> r"
      using Cons.prems s by (intro Cons.IH[OF \<open>ok l1\<close>]) auto
    with busy_mono[OF hyps] sched_opts[OF s(2)] show ?thesis by simp
  qed
qed simp

text \<open>Over any sequence of sends the deliveries leave in the order of the sends.\<close>

lemma run_sorted:
  assumes "ok l" "\<forall>(n, t) \<in> set sends. 0 \<le> n \<and> n \<le> 128 \<and> 0 \<le> t \<and> t < 2 ^ 60"
  shows "sorted (filter (\<lambda>r. r \<noteq> - 1) (pacer_run sched l sends))"
  using assms
proof (induction sends arbitrary: l)
  case (Cons s sends)
  obtain n t r1 l1 where s: "s = (n, t)" "sched l n t = (r1, l1)"
    by (cases s) (metis surj_pair)
  have rng: "0 \<le> n" "n \<le> 128" "0 \<le> t" "t < 2 ^ 60" using Cons.prems s by auto
  note hyps = Cons.prems(1) rng s(2)
  have l1: "ok l1" by (rule sched_ok[OF hyps])
  have later: "r1 \<le> r" if "r \<in> set (pacer_run sched l1 sends)" "r \<noteq> - 1" "r1 \<noteq> - 1" for r
    using run_ge[OF l1 _ that(1,2)] sched_cases[OF hyps] that(3) Cons.prems(2) sched_opts[OF s(2)]
    by auto
  have "sorted (filter (\<lambda>r. r \<noteq> - 1) (pacer_run sched l1 sends))"
    using Cons.prems by (intro Cons.IH[OF l1]) simp
  with later s show ?case by auto
qed simp
end

section \<open>Edge and EmulatedLink meet it\<close>

definition edge_sched_from :: "int \<Rightarrow> edge \<Rightarrow> int \<Rightarrow> int \<Rightarrow> int \<times> edge" where
  "edge_sched_from src e size' t =
     (case edge_schedulePkt e src size' t \<lparr>pktsSent = 0, pktsDropped = 0, pktsLost = 0\<rparr> of
        (Inr r, e', _) \<Rightarrow> (r, e') | (Inl _, e', _) \<Rightarrow> (- 1, e'))"

definition edge_ok :: "int \<Rightarrow> edge \<Rightarrow> bool" where
  "edge_ok src e \<longleftrightarrow> (src = e_a e \<or> src = e_b e) \<and> options_ok (e_options e) \<and>
     0 \<le> edge_sendTime e src \<and> edge_sendTime e src < 2 ^ 61"

definition link_sched :: "emulated_link \<Rightarrow> int \<Rightarrow> int \<Rightarrow> int \<times> emulated_link" where
  "link_sched l size' t =
     (case emulated_link_schedulePkt l size' t \<lparr>pktsSent = 0, pktsDropped = 0, pktsLost = 0\<rparr> of
        (Inr r, l', _) \<Rightarrow> (r, l') | (Inl _, l', _) \<Rightarrow> (- 1, l'))"

definition link_ok :: "emulated_link \<Rightarrow> bool" where
  "link_ok l \<longleftrightarrow> options_ok (el_options l) \<and> 0 \<le> el_nextSendTime l \<and> el_nextSendTime l < 2 ^ 61"

lemma sdiv_nonneg: "0 \<le> a \<Longrightarrow> 0 < b \<Longrightarrow> a sdiv b = a div (b :: int)"
  by (cases "a = 0") (simp_all add: signed_divide_int_def)

lemma tx_time_sdiv:
  assumes "options_ok opt" "0 \<le> n"
  shows "(n * 1000000) sdiv bwBytesPerSec opt = tx_time n opt"
  using assms by (simp add: tx_time_def options_ok_def sdiv_nonneg)

lemma tx_time_le:
  assumes "options_ok opt" "0 \<le> n" "n \<le> 128"
  shows "0 \<le> tx_time n opt" "tx_time n opt \<le> 128000000"
proof -
  from assms have "0 < bwBytesPerSec opt" by (simp add: options_ok_def)
  with assms show "0 \<le> tx_time n opt" 
    by (simp add: tx_time_def pos_imp_zdiv_nonneg_iff)
  have "n * 1000000 div bwBytesPerSec opt \<le> n * 1000000 div 1"
    using \<open>0 < bwBytesPerSec opt\<close> assms(2) by (intro zdiv_mono2) auto
  then have "tx_time n opt \<le> n * 1000000" by (simp add: tx_time_def)
  with assms(3) show "tx_time n opt \<le> 128000000" by simp
qed

text \<open>Inside the range the 64-bit results are exact.\<close>

lemma pacer_exact:
  assumes "options_ok opt" "0 \<le> n" "n \<le> 128" "0 \<le> t" "t < 2 ^ 60" "0 \<le> b" "b < 2 ^ 61"
  shows "i64 (max t b + tx_time n opt) = max t b + tx_time n opt"
    and "i64 (max t b + tx_time n opt - t) = max t b + tx_time n opt - t"
    and "i64 (bufferingMs opt * 1000) = bufferingMs opt * 1000"
    and "i64 (delayMs opt * 1000) = delayMs opt * 1000"
    and "max t b + tx_time n opt - t \<le> bufferingMs opt * 1000 \<Longrightarrow>
      i64 (max t b + tx_time n opt + delayMs opt * 1000) =
      max t b + tx_time n opt + delayMs opt * 1000"
  using assms tx_time_le[OF assms(1-3)]
  by (auto intro!: i64_id simp: in_i64_def options_ok_def max_def)

lemma edge_sendTime_set [simp]:
  "edge_sendTime (set_edge_sendTime e src t) src = t"
  "e_a (set_edge_sendTime e src t) = e_a e" "e_b (set_edge_sendTime e src t) = e_b e"
  "e_options (set_edge_sendTime e src t) = e_options e"
  by (auto simp: edge_sendTime_def set_edge_sendTime_def)

lemma edge_sendTime_draws [simp]: "edge_sendTime (e\<lparr>e_draws := d\<rparr>) src = edge_sendTime e src"
  by (simp add: edge_sendTime_def)

lemma edge_schedulePkt_exact:
  assumes "edge_ok src e" "0 \<le> n" "n \<le> 128" "0 \<le> t" "t < 2 ^ 60"
  defines "f \<equiv> max t (edge_sendTime e src) + tx_time n (e_options e)"
  shows "edge_schedulePkt e src n t st =
    (if f > t + bufferingMs (e_options e) * 1000 then (Inr (- 1), e, packetDropped st)
     else if \<not> e_live e then (Inr (- 1), set_edge_sendTime e src f, packetLost st)
     else if e_rng e (e_draws e) < lossRate (e_options e)
     then (Inr (- 1), (set_edge_sendTime e src f)\<lparr>e_draws := Suc (e_draws e)\<rparr>, packetLost st)
     else (Inr (f + delayMs (e_options e) * 1000), (set_edge_sendTime e src f)\<lparr>e_draws := Suc (e_draws e)\<rparr>, st))"
proof -
  have ok: "options_ok (e_options e)" "0 \<le> edge_sendTime e src" "edge_sendTime e src < 2 ^ 61"
    using assms(1) by (simp_all add: edge_ok_def)
  note ex = pacer_exact[OF ok(1) assms(2-5) ok(2,3)]
  have bw: "bwBytesPerSec (e_options e) \<noteq> 0" using ok(1) by (simp add: options_ok_def)
  have src: "src = e_a e \<or> src = e_b e" using assms(1) by (simp add: edge_ok_def)
  show ?thesis
    using assms(3) bw src ex tx_time_sdiv[OF ok(1) assms(2)]
    by (simp add: edge_schedulePkt_def f_def Let_def cxx_const)
qed


lemma edge_sched_result:
  assumes "edge_ok src e" "0 \<le> n" "n \<le> 128" "0 \<le> t" "t < 2 ^ 60"
  defines "f \<equiv> max t (edge_sendTime e src) + tx_time n (e_options e)"
  shows "edge_sched_from src e n t =
    (if f > t + bufferingMs (e_options e) * 1000 then (- 1, e)
     else if \<not> e_live e then (- 1, set_edge_sendTime e src f)
     else (if e_rng e (e_draws e) < lossRate (e_options e) then - 1
           else f + delayMs (e_options e) * 1000,
           (set_edge_sendTime e src f)\<lparr>e_draws := Suc (e_draws e)\<rparr>))"
  using assms by (simp add: edge_sched_from_def edge_schedulePkt_exact)

lemma edge_sched_ok:
  assumes ok: "edge_ok src l" "0 \<le> n" "n \<le> 128" "0 \<le> t" "t < 2 ^ 60"
    and s: "edge_sched_from src l n t = (r, l')"
  shows "edge_ok src l'"
proof -
  from ok have opt: "options_ok (e_options l)" by (simp add: edge_ok_def)
  note tx = tx_time_le[OF opt ok(2,3)]
  show ?thesis
    using s ok opt tx unfolding edge_sched_result[OF ok]
    by (auto simp: edge_ok_def options_ok_def split: if_splits)
qed

lemma edge_sched_cases:
  assumes ok: "edge_ok src l" "0 \<le> n" "n \<le> 128" "0 \<le> t" "t < 2 ^ 60"
    and s: "edge_sched_from src l n t = (r, l')"
  shows "(r = - 1 \<and> edge_sendTime l' src = edge_sendTime l src \<and>
      max t (edge_sendTime l src) + tx_time n (e_options l) > t + bufferingMs (e_options l) * 1000) \<or>
    (edge_sendTime l' src = max t (edge_sendTime l src) + tx_time n (e_options l) \<and>
      edge_sendTime l' src \<le> t + bufferingMs (e_options l) * 1000 \<and>
      (r = - 1 \<or> r = edge_sendTime l' src + delayMs (e_options l) * 1000))"
  using s unfolding edge_sched_result[OF ok] by (auto split: if_splits)

lemma edge_sched_opts: "edge_sched_from src l n t = (r, l') \<Longrightarrow> e_options l' = e_options l"
  by (auto simp: edge_sched_from_def edge_schedulePkt_def Let_def split: if_splits)

interpretation edge: pacer "edge_sched_from src" "\<lambda>e. edge_sendTime e src" e_options "edge_ok src"
  for src
  by unfold_locales
    (fact edge_sched_opts, fact edge_sched_ok, fact edge_sched_cases, simp_all add: edge_ok_def)

text \<open>An emulated link paces as a live edge does.\<close>

definition edge_of_link :: "emulated_link \<Rightarrow> edge" where
  "edge_of_link l = \<lparr>e_a = 0, e_b = 1, e_live = True, nextSendTimeA = el_nextSendTime l,
     nextSendTimeB = 0, e_options = el_options l, e_rng = el_rng l, e_draws = el_draws l\<rparr>"

lemma link_is_edge:
  assumes "size' \<le> MAX_PACKET_SIZE"
  shows "edge_schedulePkt (edge_of_link l) 0 size' t st =
    (case emulated_link_schedulePkt l size' t st of (r, l', st') \<Rightarrow> (r, edge_of_link l', st'))"
  using assms
  by (simp add: edge_schedulePkt_def emulated_link_schedulePkt_def edge_of_link_def
      edge_sendTime_def set_edge_sendTime_def Let_def)

lemma edge_of_link_sel [simp]:
  "edge_sendTime (edge_of_link l) 0 = el_nextSendTime l" "e_options (edge_of_link l) = el_options l"
  "edge_ok 0 (edge_of_link l) = link_ok l"
  by (simp_all add: edge_of_link_def edge_sendTime_def edge_ok_def link_ok_def)

lemma link_sched_edge:
  assumes "n \<le> 128" "link_sched l n t = (r, l')"
  shows "edge_sched_from 0 (edge_of_link l) n t = (r, edge_of_link l')"
  using assms link_is_edge[of n l t "\<lparr>pktsSent = 0, pktsDropped = 0, pktsLost = 0\<rparr>"]
  by (auto simp: edge_sched_from_def link_sched_def cxx_const split: prod.splits sum.splits)

lemma link_sched_opts: "link_sched l n t = (r, l') \<Longrightarrow> el_options l' = el_options l"
  by (auto simp: link_sched_def emulated_link_schedulePkt_def Let_def split: if_splits)

interpretation link: pacer link_sched el_nextSendTime el_options link_ok
proof unfold_locales
  fix l n t r l'
  assume ok: "link_ok l" "0 \<le> n" "n \<le> 128" "0 \<le> t" "t < 2 ^ 60" and s: "link_sched l n t = (r, l')"
  have e: "edge_ok 0 (edge_of_link l)" "edge_sched_from 0 (edge_of_link l) n t = (r, edge_of_link l')"
    using ok s link_sched_edge by auto
  from edge_sched_ok[OF e(1) ok(2-5) e(2)] show "link_ok l'" by simp
  from edge_sched_cases[OF e(1) ok(2-5) e(2)]
  show "(r = - 1 \<and> el_nextSendTime l' = el_nextSendTime l \<and>
      max t (el_nextSendTime l) + tx_time n (el_options l) > t + bufferingMs (el_options l) * 1000) \<or>
    (el_nextSendTime l' = max t (el_nextSendTime l) + tx_time n (el_options l) \<and>
      el_nextSendTime l' \<le> t + bufferingMs (el_options l) * 1000 \<and>
      (r = - 1 \<or> r = el_nextSendTime l' + delayMs (el_options l) * 1000))"
    by simp
qed (simp_all add: link_ok_def link_sched_opts)

section \<open>Properties\<close>

text \<open>C21. An edge never reorders: over any sequence of packets from one end, with sizes and times
  in range, the packets that get through arrive in the order they were sent.\<close>

theorem edge_never_reorders:
  assumes "edge_ok src e" "list_all (\<lambda>(n, t). 0 \<le> n \<and> n \<le> 128 \<and> 0 \<le> t \<and> t < 2 ^ 60) sends"
  shows "sorted (filter (\<lambda>r. r \<noteq> - 1) (pacer_run (edge_sched_from src) e sends))"
  using assms by (intro edge.run_sorted) (auto simp: list_all_iff)

definition demo_edge :: edge where
  "demo_edge = edge_ctor 1 2 default_edge_options (\<lambda>_. 1)"

theorem edge_never_reorders_witness:
  "sorted (filter (\<lambda>r. r \<noteq> - 1) (pacer_run (edge_sched_from 1) demo_edge [(100, 0), (100, 5), (20, 30000)]))"
  by (rule edge_never_reorders)
     (simp_all add: edge_ok_def demo_edge_def edge_ctor_def options_ok_def default_edge_options_def edge_sendTime_def)



text \<open>C23. The emulator's link and the simulator's live edge are the same pacer: \<open>EmulatedLink\<close> gives
  the arrival time, the random draws, the counters and the busy time that \<open>Edge\<close> gives.\<close>

theorem emulated_link_is_edge:
  assumes "size' \<le> MAX_PACKET_SIZE"
  shows "edge_schedulePkt (edge_of_link l) 0 size' t st =
    (case emulated_link_schedulePkt l size' t st of (r, l', st') \<Rightarrow> (r, edge_of_link l', st'))"
  using assms by (rule link_is_edge)

theorem emulated_link_is_edge_witness:
  "\<exists>l. edge_schedulePkt (edge_of_link l) 0 128 0 \<lparr>pktsSent = 0, pktsDropped = 0, pktsLost = 0\<rparr> =
    (case emulated_link_schedulePkt l 128 0 \<lparr>pktsSent = 0, pktsDropped = 0, pktsLost = 0\<rparr> of
       (r, l', st') \<Rightarrow> (r, edge_of_link l', st'))"
  using emulated_link_is_edge[of 128 "emulated_link_ctor default_edge_options (\<lambda>_. 0)" 0] by (auto simp: cxx_const)

end
