(* ===== verification/Runtime.thy ===== *)
theory Runtime
  imports Event_Queue Links
begin

text \<open>
  \<open>RuntimeManager\<close> (\<open>core/runtime_manager.cpp\<close>): the abstract base of the simulator
  and the emulator. Every lambda the source schedules is a constructor of \<open>callback\<close>.
  The virtual methods the protocol stack calls are the record \<open>runtime\<close>, a table of
  functions over the state \<open>'m\<close> of the concrete manager, so that the stack is modelled
  once for both. \<open>io\<close> is that state with what the process has printed.
\<close>

datatype callback =
    CbPingTimedOut int                    \<comment> \<open>\<open>StackNode::pingTimedOut\<close> of a node\<close>
  | CbRetransmissionTick int              \<comment> \<open>\<open>TcpManager::retransmissionTick\<close> of a node\<close>
  | CbTaskTick int nat                    \<comment> \<open>\<open>TimerTask::tick\<close> of a task of a node\<close>
  | CbDeliverPkt int int "byte list"      \<comment> \<open>\<open>Simulator::deliverPkt(from, to, pkt)\<close>\<close>
  | CbParseRestOfTopoFile                 \<comment> \<open>\<open>Simulator::parseRestOfTopoFile\<close>\<close>
  | CbPhysicalSend "byte list" string int \<comment> \<open>\<open>Emulator::physicalSend(pkt, ip, port)\<close>\<close>

datatype console_out = Cout string | Cerr string

record 'm runtime =
  rt_sendPkt :: "int \<Rightarrow> int \<Rightarrow> byte list \<Rightarrow> 'm \<Rightarrow> (exn + bool) \<times> 'm"
  rt_now :: "'m \<Rightarrow> int"
  rt_addTimer :: "int \<Rightarrow> int \<Rightarrow> callback option \<Rightarrow> 'm \<Rightarrow> 'm"

record 'm io =
  io_rt :: 'm
  io_out :: "console_out list"

definition cout :: "string \<Rightarrow> 'm io \<Rightarrow> 'm io" where
  "cout s w = w\<lparr>io_out := io_out w @ [Cout s]\<rparr>"

definition cerr :: "string \<Rightarrow> 'm io \<Rightarrow> 'm io" where
  "cerr s w = w\<lparr>io_out := io_out w @ [Cerr s]\<rparr>"

definition logOutput :: "int \<Rightarrow> string \<Rightarrow> 'm io \<Rightarrow> 'm io" where
  "logOutput addr s w = cout (''Node '' @ string_of_int addr @ '': '' @ s) w"

definition logError :: "int \<Rightarrow> string \<Rightarrow> 'm io \<Rightarrow> 'm io" where
  "logError addr s w = cerr (''Node '' @ string_of_int addr @ '': '' @ s) w"

definition addTimer_io :: "'m runtime \<Rightarrow> int \<Rightarrow> int \<Rightarrow> callback option \<Rightarrow> 'm io \<Rightarrow> 'm io" where
  "addTimer_io rt addr deltaMs cb w = w\<lparr>io_rt := rt_addTimer rt addr deltaMs cb (io_rt w)\<rparr>"

text \<open>\<open>Packet::toString\<close>.\<close>

definition packet_toString :: "packet \<Rightarrow> string" where
  "packet_toString p =
     ''Packet: '' @ string_of_int (pk_src p) @ ''->'' @ string_of_int (pk_dest p) @
     '' protocol: '' @ string_of_int (pk_protocol p) @ '' TTL: '' @ string_of_int (pk_ttl p) @
     '' seq: '' @ string_of_int (pk_seq p) @ '' contents: '' @ bytesToString (pk_payload p)"

section \<open>The clock\<close>

text \<open>\<open>clockMicros\<close> of \<open>clock.hpp\<close>, for a reading of the system's clock in nanoseconds since the
  epoch: cut down to milliseconds, counted in microseconds.\<close>

definition clock_reading :: "int \<Rightarrow> int" where
  "clock_reading ns = i64 ((ns sdiv 1000000) * 1000)"

lemma clock_reading_eq:
  assumes "0 \<le> ns" "ns < 2 ^ 63"
  shows "clock_reading ns = (ns div 1000000) * 1000"
proof -
  have "0 \<le> ns div 1000000" "(ns div 1000000) * 1000 \<le> ns" using assms(1) by (auto simp: pos_imp_zdiv_nonneg_iff)
  then show ?thesis using assms by (auto simp: clock_reading_def sdiv_nonneg in_i64_def intro!: i64_id)
qed

lemma clock_reading_granularity:
  assumes "0 \<le> ns" "ns < 2 ^ 63"
  shows "clock_reading ns mod 1000 = 0" "clock_reading ns \<le> ns div 1000" "ns div 1000 < clock_reading ns + 1000"
proof -
  have e: "clock_reading ns = (ns div 1000 div 1000) * 1000"
    using clock_reading_eq[OF assms] zdiv_zmult2_eq[of 1000 ns 1000] by simp
  show "clock_reading ns mod 1000 = 0" by (simp add: e)
  show "clock_reading ns \<le> ns div 1000" "ns div 1000 < clock_reading ns + 1000" unfolding e by linarith+
qed

lemma clock_reading_mono:
  assumes "0 \<le> ns" "ns \<le> ns'" "ns' < 2 ^ 63"
  shows "clock_reading ns \<le> clock_reading ns'"
  using assms zdiv_mono1[of ns ns' 1000000] by (simp add: clock_reading_eq)

section \<open>The base class\<close>

record rt_base =
  rb_events :: "callback event_queue"
  rb_stats :: pkt_stats
  rb_startMs :: int
  rb_commandFile :: "string list option"

definition rt_base_ctor :: "int \<Rightarrow> rt_base" where
  "rt_base_ctor startMicros =
     \<lparr>rb_events = [], rb_stats = \<lparr>pktsSent = 0, pktsDropped = 0, pktsLost = 0\<rparr>,
      rb_startMs = startMicros sdiv 1000, rb_commandFile = None\<rparr>"

text \<open>\<open>setCommandFile\<close>: the argument is the file's lines, \<open>None\<close> if it cannot be opened.\<close>

definition setCommandFile :: "string list option \<Rightarrow> rt_base \<Rightarrow> int \<times> rt_base" where
  "setCommandFile f b =
     (case f of None \<Rightarrow> (- 1, b) | Some ls \<Rightarrow> (0, b\<lparr>rb_commandFile := Some ls\<rparr>))"

definition base_sendPkt :: "int \<Rightarrow> int \<Rightarrow> byte list \<Rightarrow> rt_base \<Rightarrow> (exn + bool) \<times> rt_base" where
  "base_sendPkt from to pkt b =
     (if int (length pkt) > MAX_PACKET_SIZE \<or> \<not> validAddress to \<or> \<not> validAddress from
      then (Inl (InvalidArgument ''Invalid pkt or address in sendPkt''), b)
      else
        (case packet_unpack pkt of
           None \<Rightarrow> (Inl (InvalidArgument ''Invalid pkt content or TTL in sendPkt''), b)
         | Some p \<Rightarrow>
             if \<not> packet_isValidToSend p
             then (Inl (InvalidArgument ''Invalid pkt content or TTL in sendPkt''), b)
             else (Inr True,
                   b\<lparr>rb_stats := (rb_stats b)\<lparr>pktsSent := i32 (pktsSent (rb_stats b) + 1)\<rparr>\<rparr>)))"

definition addTimerAt :: "int \<Rightarrow> callback option \<Rightarrow> rt_base \<Rightarrow> rt_base" where
  "addTimerAt tMs cb b =
     (if cb = None then b
      else b\<lparr>rb_events := addEvent \<lparr>timeToOccur = i64 (tMs * 1000), callback = cb\<rparr> (rb_events b)\<rparr>)"

text \<open>\<open>addTimer\<close>: \<open>now\<close> is the value of the virtual \<open>now()\<close>.\<close>

definition addTimer :: "int \<Rightarrow> int \<Rightarrow> callback option \<Rightarrow> rt_base \<Rightarrow> rt_base" where
  "addTimer now deltaMs cb b = addTimerAt (i64 (now + deltaMs)) cb b"

definition addEventAtMicros :: "int \<Rightarrow> callback option \<Rightarrow> rt_base \<Rightarrow> rt_base" where
  "addEventAtMicros timeMicros cb b =
     (if timeMicros < 0 \<or> cb = None then b
      else b\<lparr>rb_events := addEvent \<lparr>timeToOccur = timeMicros, callback = cb\<rparr> (rb_events b)\<rparr>)"

text \<open>What \<open>stop()\<close> prints before it ends the process.\<close>

definition stop_report :: "int \<Rightarrow> rt_base \<Rightarrow> string list" where
  "stop_report now b =
     [''NetBridge exiting after time: '' @ string_of_int (i64 (now - rb_startMs b)) @ '' msec.'' @
        ''\<newline>Number of packets sent: '' @ string_of_int (pktsSent (rb_stats b)),
      ''Number of packets dropped: '' @ string_of_int (pktsDropped (rb_stats b)),
      ''Number of packets lost: '' @ string_of_int (pktsLost (rb_stats b))]"

definition base_wf :: "rt_base \<Rightarrow> bool" where
  "base_wf b \<longleftrightarrow> time_sorted (rb_events b) \<and> (\<forall>e \<in> set (rb_events b). callback e \<noteq> None)"

section \<open>Facts\<close>

lemma io_sel [simp]:
  "io_rt (cout s w) = io_rt w" "io_rt (cerr s w) = io_rt w"
  "io_rt (logOutput a s w) = io_rt w" "io_rt (logError a s w) = io_rt w"
  by (simp_all add: cout_def cerr_def logOutput_def logError_def)

lemma base_wf_ops [wf_intro]:
  "base_wf b \<Longrightarrow> base_wf (addTimer now d cb b)"
  "base_wf b \<Longrightarrow> base_wf (addTimerAt t cb b)"
  "base_wf b \<Longrightarrow> base_wf (addEventAtMicros t cb b)"
  "base_wf b \<Longrightarrow> base_wf (snd (base_sendPkt from to pkt b))"
  "base_wf (rt_base_ctor t0)"
  by (auto simp: base_wf_def addTimer_def addTimerAt_def addEventAtMicros_def base_sendPkt_def
      rt_base_ctor_def time_sorted_def[of "[]"] time_sorted_addEvent split: option.splits)

text \<open>The base class accepts exactly the encodings of packets that may be sent.\<close>

lemma length_packet_pack:
  "length (packet_pack p) = length (pk_payload p) + 9"
  by (simp add: packet_pack_def)

lemma length_packet_pack_ok: "packet_ok p \<Longrightarrow> int (length (packet_pack p)) \<le> MAX_PACKET_SIZE"
  by (simp add: length_packet_pack packet_ok_def packet_isValid_def packet_args_valid_def cxx_const)

lemma base_sendPkt_packed:
  assumes "packet_ok p" "pk_ttl p > 0" "validAddress from" "validAddress to"
  shows "base_sendPkt from to (packet_pack p) b =
    (Inr True, b\<lparr>rb_stats := (rb_stats b)\<lparr>pktsSent := i32 (pktsSent (rb_stats b) + 1)\<rparr>\<rparr>)"
proof -
  have "packet_isValidToSend p" using assms(1,2) by (simp add: packet_isValidToSend_def packet_ok_def)
  then show ?thesis
    using assms length_packet_pack_ok[OF assms(1)] pkt.unpack_pack[OF assms(1)]
    by (simp add: base_sendPkt_def)
qed

lemma base_sendPkt_accepts:
  "fst (base_sendPkt from to pkt b) = Inr True \<longleftrightarrow>
     validAddress from \<and> validAddress to \<and>
     (\<exists>p. packet_ok p \<and> pk_ttl p > 0 \<and> pkt = packet_pack p)" (is "?L \<longleftrightarrow> ?R")
proof
  assume ?R
  then show ?L by (auto simp: base_sendPkt_packed)
next
  assume L: ?L
  then obtain p where p: "packet_unpack pkt = Some p" "packet_isValidToSend p"
      "validAddress to" "validAddress from"
    by (auto simp: base_sendPkt_def split: if_splits option.splits)
  then have "packet_ok p" "pkt = packet_pack p"
    using pkt.unpack_eq_iff by auto
  with p show ?R by (auto simp: packet_isValidToSend_def)
qed

section \<open>Properties\<close>

text \<open>\<open>RuntimeManager::sendPkt\<close> accepts a packet exactly when both addresses are valid and the
  bytes are the encoding of a valid packet with a positive TTL; everything else throws.\<close>

theorem sendPkt_accepts_valid_packets:
  "fst (base_sendPkt from to pkt b) = Inr True \<longleftrightarrow>
     validAddress from \<and> validAddress to \<and> (\<exists>p. packet_ok p \<and> pk_ttl p > 0 \<and> pkt = packet_pack p)"
  by (rule base_sendPkt_accepts)

end
