(* ===== verification/Tcp_Socket.thy ===== *)
theory Tcp_Socket
  imports Runtime
begin

text \<open>
  \<open>TcpSocket\<close> (\<open>node/tcp_socket.cpp\<close>, \<open>tcp_socket.hpp\<close>): the state of one socket
  and the operations that touch nothing else. A \<open>TcpSocket*\<close> is the index of the socket
  in its manager's \<open>allSockets_\<close>. The operations that also call the manager
  (\<open>listen\<close>, \<open>connect\<close>, \<open>close\<close>, \<open>release\<close>, \<open>accept\<close>,
  \<open>maybeSendFinOnDrain\<close>) are in \<open>Tcp_Manager\<close>. The \<open>double\<close>s of the RTT estimator
  are exact rationals.
\<close>

definition RECV_BUF_CAP :: int where [cxx_const]: "RECV_BUF_CAP = 32 * 1024"
definition ALPHA :: rat where [cxx_const]: "ALPHA = 1 / 8"
definition BETA :: rat where [cxx_const]: "BETA = 1 / 4"
definition RTO_INITIAL_MS :: int where [cxx_const]: "RTO_INITIAL_MS = 1000"
definition RTO_MAX_MS :: int where [cxx_const]: "RTO_MAX_MS = 64000"
definition INITIAL_CWND_BYTES :: int where [cxx_const]: "INITIAL_CWND_BYTES = TP_MAX_PAYLOAD_SIZE"
definition CWND_MIN_BYTES :: int where [cxx_const]: "CWND_MIN_BYTES = TP_MAX_PAYLOAD_SIZE"

datatype sock_state = CLOSED | LISTEN | SYN_SENT | ESTABLISHED | SHUTDOWN

record outstanding_seg =
  seqStart :: int
  seg_len :: int
  seg_data :: "byte list"
  firstSentAtMs :: int
  retransmitted :: bool

record tcp_socket =
  sk_state :: sock_state
  localPort :: int
  remoteAddr :: int
  remotePort :: int
  sk_backlog :: int
  pendingConnQueue :: "nat list"
  sndUna :: int
  sndNxt :: int
  rcvNxt :: int
  recvBuf :: "byte list"
  recvBufUsed :: int
  synSeq :: int
  finSeq :: int
  estRTTms :: rat
  devRTTms :: rat
  hasEstRTT :: bool
  peerFinReceived :: bool
  outstanding :: "outstanding_seg list"
  nextRtoDeadlineMs :: int
  rtoMs :: int
  rwnd :: int
  cwnd :: int
  timeoutCount :: int

definition tcp_socket_ctor :: tcp_socket where
  "tcp_socket_ctor =
     \<lparr>sk_state = CLOSED, localPort = - 1, remoteAddr = - 1, remotePort = - 1, sk_backlog = 0,
      pendingConnQueue = [], sndUna = 0, sndNxt = 0, rcvNxt = 0, recvBuf = [], recvBufUsed = 0,
      synSeq = - 1, finSeq = - 1, estRTTms = of_int RTO_INITIAL_MS, devRTTms = 0,
      hasEstRTT = False, peerFinReceived = False, outstanding = [], nextRtoDeadlineMs = 0,
      rtoMs = RTO_INITIAL_MS, rwnd = RECV_BUF_CAP, cwnd = INITIAL_CWND_BYTES, timeoutCount = 0\<rparr>"

section \<open>Predicates and accessors\<close>

definition isConnectionPending :: "tcp_socket \<Rightarrow> bool" where
  "isConnectionPending s \<longleftrightarrow> sk_state s = SYN_SENT"

definition isClosed :: "tcp_socket \<Rightarrow> bool" where
  "isClosed s \<longleftrightarrow> sk_state s = CLOSED"

definition isConnected :: "tcp_socket \<Rightarrow> bool" where
  "isConnected s \<longleftrightarrow> sk_state s = ESTABLISHED"

definition isClosurePending :: "tcp_socket \<Rightarrow> bool" where
  "isClosurePending s \<longleftrightarrow> sk_state s = SHUTDOWN"

definition getRecvBufAvailable :: "tcp_socket \<Rightarrow> int" where
  "getRecvBufAvailable s = RECV_BUF_CAP - recvBufUsed s"

definition getBytesInFlight :: "tcp_socket \<Rightarrow> int" where
  "getBytesInFlight s = i32 (sndNxt s - sndUna s)"

definition effectiveWindow :: "tcp_socket \<Rightarrow> int" where
  "effectiveWindow s = min (rwnd s) (cwnd s)"

definition senderWindowHasCapacity :: "tcp_socket \<Rightarrow> bool" where
  "senderWindowHasCapacity s \<longleftrightarrow> getBytesInFlight s < effectiveWindow s"

definition setRwnd :: "int \<Rightarrow> tcp_socket \<Rightarrow> tcp_socket" where
  "setRwnd v s = s\<lparr>rwnd := max 0 v\<rparr>"

definition hasOutstanding :: "tcp_socket \<Rightarrow> bool" where
  "hasOutstanding s \<longleftrightarrow> outstanding s \<noteq> []"

section \<open>Lifecycle\<close>

definition sk_bind :: "int \<Rightarrow> tcp_socket \<Rightarrow> int \<times> tcp_socket" where
  "sk_bind port s = (0, s\<lparr>localPort := port\<rparr>)"

definition initAccepted :: "int \<Rightarrow> int \<Rightarrow> int \<Rightarrow> tcp_socket \<Rightarrow> tcp_socket" where
  "initAccepted lport raddr rport s =
     s\<lparr>localPort := lport, remoteAddr := raddr, remotePort := rport, sndUna := 1, sndNxt := 1,
       rcvNxt := 1, cwnd := INITIAL_CWND_BYTES, sk_state := ESTABLISHED\<rparr>"

definition enqueueAccepted :: "nat \<Rightarrow> tcp_socket \<Rightarrow> tcp_socket" where
  "enqueueAccepted child s =
     (if int (length (pendingConnQueue s)) < sk_backlog s
      then s\<lparr>pendingConnQueue := pendingConnQueue s @ [child]\<rparr> else s)"

definition markEstablished :: "tcp_socket \<Rightarrow> tcp_socket" where
  "markEstablished s =
     (if sk_state s \<noteq> CLOSED
      then s\<lparr>sndUna := 1, sndNxt := 1, rcvNxt := 1, cwnd := INITIAL_CWND_BYTES,
             peerFinReceived := False, sk_state := ESTABLISHED\<rparr>
      else s)"

definition markClosed :: "tcp_socket \<Rightarrow> tcp_socket" where
  "markClosed s = s\<lparr>sk_state := CLOSED\<rparr>"

definition markPeerFinReceived :: "tcp_socket \<Rightarrow> tcp_socket" where
  "markPeerFinReceived s =
     (let s1 = s\<lparr>peerFinReceived := True\<rparr>
      in if sk_state s1 = ESTABLISHED then s1\<lparr>sk_state := SHUTDOWN\<rparr> else s1)"

section \<open>Receive buffer\<close>

text \<open>\<open>payload\<close> is \<open>None\<close> for a null pointer.\<close>

definition appendToRecvBuf :: "byte list option \<Rightarrow> int \<Rightarrow> int \<Rightarrow> tcp_socket \<Rightarrow> int \<times> tcp_socket" where
  "appendToRecvBuf payload pos len s =
     (case payload of
        None \<Rightarrow> (0, s)
      | Some bs \<Rightarrow>
          if len \<le> 0 then (0, s)
          else
            let space = RECV_BUF_CAP - recvBufUsed s; n = min len space
            in (n, s\<lparr>recvBuf := recvBuf s @ take (nat n) (drop (nat pos) bs),
                     recvBufUsed := recvBufUsed s + n\<rparr>))"

text \<open>\<open>read(buf, pos, len)\<close>: the result, the bytes stored from \<open>buf[pos]\<close> on, and the
  socket. \<open>nonnull\<close> says that \<open>buf\<close> is not a null pointer.\<close>

definition sk_read :: "bool \<Rightarrow> int \<Rightarrow> int \<Rightarrow> tcp_socket \<Rightarrow> (int \<times> byte list) \<times> tcp_socket" where
  "sk_read nonnull pos len s =
     (if (sk_state s \<noteq> ESTABLISHED \<and> sk_state s \<noteq> SHUTDOWN) \<or> \<not> nonnull \<or> pos < 0 \<or> len < 0
      then ((- 1, []), s)
      else if len = 0 \<or> recvBufUsed s = 0
      then ((0, []), if peerFinReceived s \<and> recvBufUsed s = 0 then s\<lparr>sk_state := CLOSED\<rparr> else s)
      else
        let n = min len (recvBufUsed s);
            bs = take (nat n) (recvBuf s);
            s1 = s\<lparr>recvBuf := drop (nat n) (recvBuf s), recvBufUsed := recvBufUsed s - n\<rparr>
        in ((n, bs),
            if peerFinReceived s1 \<and> recvBufUsed s1 = 0 then s1\<lparr>sk_state := CLOSED\<rparr> else s1))"

section \<open>Congestion control and retransmission\<close>

definition additiveIncreaseCwnd :: "tcp_socket \<Rightarrow> tcp_socket" where
  "additiveIncreaseCwnd s =
     (let base = max (cwnd s) CWND_MIN_BYTES;
          inc = max 1 ((TP_MAX_PAYLOAD_SIZE * TP_MAX_PAYLOAD_SIZE) sdiv base)
      in s\<lparr>cwnd := i32 (cwnd s + inc)\<rparr>)"

definition multiplicativeDecreaseCwnd :: "tcp_socket \<Rightarrow> tcp_socket" where
  "multiplicativeDecreaseCwnd s =
     s\<lparr>cwnd := max CWND_MIN_BYTES (floor (of_int (cwnd s) * (1 / 2 :: rat)))\<rparr>"

fun pop_acked :: "int \<Rightarrow> outstanding_seg list \<Rightarrow> outstanding_seg option
    \<Rightarrow> outstanding_seg option \<times> outstanding_seg list" where
  "pop_acked ackNum [] lastPopped = (lastPopped, [])"
| "pop_acked ackNum (g # gs) lastPopped =
     (if i32 (seqStart g + seg_len g) \<le> ackNum then pop_acked ackNum gs (Some g)
      else (lastPopped, g # gs))"

definition popAckedThrough :: "int \<Rightarrow> int \<Rightarrow> tcp_socket \<Rightarrow> outstanding_seg option \<times> tcp_socket" where
  "popAckedThrough now ackNum s =
     (let (lastPopped, rest) = pop_acked ackNum (outstanding s) None;
          s1 = s\<lparr>outstanding := rest, sndUna := ackNum\<rparr>
      in (lastPopped,
          if rest = [] then s1\<lparr>nextRtoDeadlineMs := 0\<rparr>
          else s1\<lparr>nextRtoDeadlineMs := i64 (now + rtoMs s1)\<rparr>))"

definition onSampleRTT :: "int \<Rightarrow> tcp_socket \<Rightarrow> tcp_socket" where
  "onSampleRTT sampleMs s =
     (if \<not> hasEstRTT s
      then s\<lparr>estRTTms := of_int sampleMs, devRTTms := of_int sampleMs / 2, hasEstRTT := True\<rparr>
      else
        let sample = of_int sampleMs; oldEstRTT = estRTTms s
        in s\<lparr>estRTTms := (1 - ALPHA) * estRTTms s + ALPHA * sample,
             devRTTms := (1 - BETA) * devRTTms s + BETA * \<bar>sample - oldEstRTT\<bar>\<rparr>)"

definition doubleRto :: "tcp_socket \<Rightarrow> tcp_socket" where
  "doubleRto s = s\<lparr>rtoMs := min (i64 (rtoMs s * 2)) RTO_MAX_MS\<rparr>"

section \<open>Sending segments\<close>

text \<open>The body shared by the \<open>send*\<close> methods of \<open>TcpManager\<close>: build the segment and the
  packet, hand it to the runtime, print \<open>mark\<close>; an exception is logged and gives
  \<open>false\<close>.\<close>

definition send_segment ::
  "'m runtime \<Rightarrow> int \<Rightarrow> int \<Rightarrow> int \<Rightarrow> int \<Rightarrow> int \<Rightarrow> int \<Rightarrow> int \<Rightarrow> byte list
     \<Rightarrow> string \<Rightarrow> string \<Rightarrow> 'm io \<Rightarrow> bool \<times> 'm io" where
  "send_segment rt addr srcPort destAddr destPort type window seqNum payload mark failed w =
     (case transport_ctor srcPort destPort type window seqNum payload of
        Inl e \<Rightarrow> (False, logError addr (failed @ what e) w)
      | Inr t \<Rightarrow>
          (case packet_ctor destAddr addr MAX_TTL TRANSPORT_PKT 0 (transport_pack t) of
             Inl e \<Rightarrow> (False, logError addr (failed @ what e) w)
           | Inr p \<Rightarrow>
               (case rt_sendPkt rt addr destAddr (packet_pack p) (io_rt w) of
                  (Inl e, m) \<Rightarrow> (False, logError addr (failed @ what e) (w\<lparr>io_rt := m\<rparr>))
                | (Inr _, m) \<Rightarrow> (True, cout mark (w\<lparr>io_rt := m\<rparr>)))))"

definition sendSyn :: "'m runtime \<Rightarrow> int \<Rightarrow> tcp_socket \<Rightarrow> int \<Rightarrow> int \<Rightarrow> 'm io \<Rightarrow> bool \<times> 'm io" where
  "sendSyn rt addr s destAddr destPort w =
     send_segment rt addr (localPort s) destAddr destPort SYN 0 (synSeq s) [] ''S''
       ''Failed to send SYN: '' w"

definition sendFin :: "'m runtime \<Rightarrow> int \<Rightarrow> tcp_socket \<Rightarrow> int \<Rightarrow> int \<Rightarrow> 'm io \<Rightarrow> bool \<times> 'm io" where
  "sendFin rt addr s destAddr destPort w =
     send_segment rt addr (localPort s) destAddr destPort FIN 0 (finSeq s) [] ''F''
       ''Failed to send FIN: '' w"

definition sendData ::
  "'m runtime \<Rightarrow> int \<Rightarrow> tcp_socket \<Rightarrow> int \<Rightarrow> int \<Rightarrow> int \<Rightarrow> byte list \<Rightarrow> bool \<Rightarrow> 'm io \<Rightarrow> bool \<times> 'm io" where
  "sendData rt addr s destAddr destPort seqNum payload retrans w =
     send_segment rt addr (localPort s) destAddr destPort DATA 0 seqNum payload
       (if retrans then ''!'' else ''.'') ''Failed to send DATA: '' w"

definition sendAck ::
  "'m runtime \<Rightarrow> int \<Rightarrow> int \<Rightarrow> int \<Rightarrow> int \<Rightarrow> int \<Rightarrow> bool \<Rightarrow> int \<Rightarrow> 'm io \<Rightarrow> bool \<times> 'm io" where
  "sendAck rt addr srcPort destAddr destPort ackNum advances window w =
     send_segment rt addr srcPort destAddr destPort ACK window ackNum []
       (if advances then '':'' else ''?'') ''Failed to send ACK: '' w"

definition sendFinFromPorts :: "'m runtime \<Rightarrow> int \<Rightarrow> int \<Rightarrow> int \<Rightarrow> int \<Rightarrow> 'm io \<Rightarrow> bool \<times> 'm io" where
  "sendFinFromPorts rt addr srcPort destAddr destPort w =
     send_segment rt addr srcPort destAddr destPort FIN 0 0 [] ''F'' ''Failed to send FIN: '' w"

section \<open>write\<close>

text \<open>The loop of \<open>write\<close>: \<open>None\<close> where it returns \<open>-1\<close> because a send failed.\<close>

function write_loop ::
  "'m runtime \<Rightarrow> int \<Rightarrow> byte list \<Rightarrow> int \<Rightarrow> int \<Rightarrow> int \<Rightarrow> tcp_socket \<Rightarrow> 'm io
     \<Rightarrow> int option \<times> tcp_socket \<times> 'm io" where
  "write_loop rt addr buf pos len totalWritten s w =
     (if len > 0 then
        let flight = i32 (sndNxt s - sndUna s); eff = effectiveWindow s
        in if flight \<ge> eff then (Some totalWritten, s, w)
           else
             let space = i32 (eff - flight); chunk = min len (min space TP_MAX_PAYLOAD_SIZE)
             in if chunk \<le> 0 then (Some totalWritten, s, w)
                else
                  let payload = take (nat chunk) (drop (nat pos) buf); start = sndNxt s
                  in (case sendData rt addr s (remoteAddr s) (remotePort s) start payload False w of
                        (False, w1) \<Rightarrow> (None, s, w1)
                      | (True, w1) \<Rightarrow>
                          write_loop rt addr buf (pos + chunk) (len - chunk) (totalWritten + chunk)
                            (s\<lparr>outstanding := outstanding s @
                                 [\<lparr>seqStart = start, seg_len = chunk, seg_data = payload,
                                   firstSentAtMs = rt_now rt (io_rt w1), retransmitted = False\<rparr>],
                               sndNxt := i32 (sndNxt s + chunk)\<rparr>) w1)
      else (Some totalWritten, s, w))"
  by pat_completeness auto
termination
  by (relation "measure (\<lambda>(rt, addr, buf, pos, len, tot, s, w). nat len)") auto

declare write_loop.simps [simp del]

definition sk_write ::
  "'m runtime \<Rightarrow> int \<Rightarrow> byte list option \<Rightarrow> int \<Rightarrow> int \<Rightarrow> tcp_socket \<Rightarrow> 'm io
     \<Rightarrow> int \<times> tcp_socket \<times> 'm io" where
  "sk_write rt addr buf pos len s w =
     (if sk_state s \<noteq> ESTABLISHED \<or> buf = None \<or> pos < 0 \<or> len < 0 then (- 1, s, w)
      else if len = 0 then (0, s, w)
      else
        let wasIdle = \<not> hasOutstanding s
        in (case write_loop rt addr (the buf) pos len 0 s w of
              (None, s1, w1) \<Rightarrow> (- 1, s1, w1)
            | (Some written, s1, w1) \<Rightarrow>
                (written,
                 if wasIdle \<and> written > 0
                 then s1\<lparr>nextRtoDeadlineMs := i64 (rt_now rt (io_rt w1) + rtoMs s1)\<rparr> else s1,
                 w1)))"

section \<open>The socket invariant\<close>

text \<open>Consecutive segments that cover the sequence numbers from \<open>a\<close> up to \<open>b\<close>.\<close>

fun seg_chain :: "int \<Rightarrow> outstanding_seg list \<Rightarrow> int \<Rightarrow> bool" where
  "seg_chain a [] b \<longleftrightarrow> a = b"
| "seg_chain a (g # gs) b \<longleftrightarrow>
     seqStart g = a \<and> 0 < seg_len g \<and> seg_len g \<le> TP_MAX_PAYLOAD_SIZE \<and>
     int (length (seg_data g)) = seg_len g \<and> seg_chain (a + seg_len g) gs b"

text \<open>The unacknowledged segments run up to \<open>nxt\<close>, and \<open>una\<close> is inside the first one.\<close>

fun unacked_wf :: "outstanding_seg list \<Rightarrow> int \<Rightarrow> int \<Rightarrow> bool" where
  "unacked_wf [] una nxt \<longleftrightarrow> una = nxt"
| "unacked_wf (g # gs) una nxt \<longleftrightarrow>
     0 \<le> seqStart g \<and> seqStart g \<le> una \<and> una < seqStart g + seg_len g \<and>
     seg_chain (seqStart g) (g # gs) nxt"

definition send_wf :: "tcp_socket \<Rightarrow> bool" where
  "send_wf s \<longleftrightarrow> 0 \<le> sndUna s \<and> sndUna s \<le> sndNxt s \<and> in_i32 (sndNxt s) \<and>
     unacked_wf (outstanding s) (sndUna s) (sndNxt s)"

definition recv_wf :: "tcp_socket \<Rightarrow> bool" where
  "recv_wf s \<longleftrightarrow> recvBufUsed s = int (length (recvBuf s)) \<and> recvBufUsed s \<le> RECV_BUF_CAP"

definition cc_wf :: "tcp_socket \<Rightarrow> bool" where
  "cc_wf s \<longleftrightarrow> CWND_MIN_BYTES \<le> cwnd s \<and> in_i32 (cwnd s) \<and> 0 \<le> rwnd s \<and> in_i32 (rwnd s) \<and>
     RTO_INITIAL_MS \<le> rtoMs s \<and> rtoMs s \<le> RTO_MAX_MS"

definition sock_wf :: "tcp_socket \<Rightarrow> bool" where
  "sock_wf s \<longleftrightarrow> send_wf s \<and> recv_wf s \<and> cc_wf s"

text \<open>Where the 32-bit sequence and window arithmetic of the next operation is exact: fewer
  than \<open>2 ^ 30\<close> bytes sent, a congestion window below \<open>2 ^ 30\<close>.\<close>

definition room :: "tcp_socket \<Rightarrow> bool" where
  "room s \<longleftrightarrow> sndNxt s < 2 ^ 30 \<and> cwnd s < 2 ^ 30"

lemma seg_chain_append:
  "seg_chain a (xs @ ys) c \<longleftrightarrow> (\<exists>b. seg_chain a xs b \<and> seg_chain b ys c)"
  by (induction xs arbitrary: a) auto

lemma seg_chain_le: "seg_chain a gs b \<Longrightarrow> a \<le> b"
  by (induction gs arbitrary: a) force+

lemma seg_chain_strict: "seg_chain a gs b \<Longrightarrow> gs \<noteq> [] \<Longrightarrow> a < b"
  by (cases gs) (auto dest: seg_chain_le)

lemma seg_chain_mem:
  "seg_chain a gs b \<Longrightarrow> g \<in> set gs \<Longrightarrow> a \<le> seqStart g \<and> seqStart g + seg_len g \<le> b \<and>
     0 < seg_len g \<and> seg_len g \<le> TP_MAX_PAYLOAD_SIZE \<and> int (length (seg_data g)) = seg_len g"
proof (induction gs arbitrary: a)
  case (Cons h gs)
  have "a + seg_len h \<le> b" using Cons.prems(1) seg_chain_le by auto
  then show ?case using Cons by fastforce
qed simp

lemma seg_chain_bytes: "seg_chain a gs b \<Longrightarrow> int (length (concat (map seg_data gs))) = b - a"
  by (induction gs arbitrary: a) auto

lemma tcp_socket_ctor_sel [simp]:
  "sk_state tcp_socket_ctor = CLOSED" "pendingConnQueue tcp_socket_ctor = []"
  "outstanding tcp_socket_ctor = []" "recvBuf tcp_socket_ctor = []"
  by (simp_all add: tcp_socket_ctor_def)

lemma sock_wf_ctor [wf_intro]: "sock_wf tcp_socket_ctor"
  by (simp add: sock_wf_def send_wf_def recv_wf_def cc_wf_def tcp_socket_ctor_def in_i32_def cxx_const)

subsection \<open>write\<close>

lemma take_drop_split:
  "0 \<le> pos \<Longrightarrow> 0 \<le> a \<Longrightarrow> 0 \<le> b \<Longrightarrow>
     take (nat (a + b)) (drop (nat pos) buf) =
     take (nat a) (drop (nat pos) buf) @ take (nat b) (drop (nat (pos + a)) buf)"
  by (simp add: nat_add_distrib take_add add.commute)

text \<open>The segment \<open>write\<close> makes of \<open>c\<close> bytes from \<open>pos\<close>, and the socket with it sent.\<close>

definition fresh_seg :: "tcp_socket \<Rightarrow> byte list \<Rightarrow> int \<Rightarrow> int \<Rightarrow> int \<Rightarrow> outstanding_seg" where
  "fresh_seg s buf pos c t =
     \<lparr>seqStart = sndNxt s, seg_len = c, seg_data = take (nat c) (drop (nat pos) buf),
      firstSentAtMs = t, retransmitted = False\<rparr>"

definition push_seg :: "byte list \<Rightarrow> int \<Rightarrow> int \<Rightarrow> int \<Rightarrow> tcp_socket \<Rightarrow> tcp_socket" where
  "push_seg buf pos c t s =
     s\<lparr>outstanding := outstanding s @ [fresh_seg s buf pos c t], sndNxt := sndNxt s + c\<rparr>"

text \<open>The arithmetic of \<open>write\<close> does not wrap.\<close>

definition write_safe :: "tcp_socket \<Rightarrow> bool" where
  "write_safe s \<longleftrightarrow> 0 \<le> sndUna s \<and> sndUna s \<le> sndNxt s \<and> sndUna s < 2 ^ 30 \<and> sndNxt s < 2 ^ 31 \<and>
     0 \<le> cwnd s \<and> cwnd s < 2 ^ 30 \<and> 0 \<le> rwnd s"

lemma write_loop_step [consumes 1, case_names stop failed sent]:
  assumes safe: "write_safe s"
  obtains (stop) "write_loop rt addr buf pos len tot s w = (Some tot, s, w)"
    "len \<le> 0 \<or> effectiveWindow s \<le> sndNxt s - sndUna s"
  | (failed) c w1 where "write_loop rt addr buf pos len tot s w = (None, s, w1)"
      "0 < c" "c \<le> len" "c \<le> TP_MAX_PAYLOAD_SIZE" "sndNxt s + c - sndUna s \<le> effectiveWindow s"
      "sendData rt addr s (remoteAddr s) (remotePort s) (sndNxt s)
         (take (nat c) (drop (nat pos) buf)) False w = (False, w1)"
  | (sent) c w1 where "write_loop rt addr buf pos len tot s w =
        write_loop rt addr buf (pos + c) (len - c) (tot + c)
          (push_seg buf pos c (rt_now rt (io_rt w1)) s) w1"
      "0 < c" "c \<le> len" "c \<le> TP_MAX_PAYLOAD_SIZE" "sndNxt s + c - sndUna s \<le> effectiveWindow s"
      "sendData rt addr s (remoteAddr s) (remotePort s) (sndNxt s)
         (take (nat c) (drop (nat pos) buf)) False w = (True, w1)"
proof -
  have fl: "i32 (sndNxt s - sndUna s) = sndNxt s - sndUna s"
    using safe by (intro i32_id) (auto simp: in_i32_def write_safe_def)
  have eff: "effectiveWindow s < 2 ^ 30" "0 \<le> effectiveWindow s"
    using safe by (auto simp: effectiveWindow_def write_safe_def)
  have sp: "i32 (effectiveWindow s - (sndNxt s - sndUna s)) = effectiveWindow s - (sndNxt s - sndUna s)"
    using safe eff by (intro i32_id) (auto simp: in_i32_def write_safe_def)
  define c where "c = min len (min (effectiveWindow s - (sndNxt s - sndUna s)) TP_MAX_PAYLOAD_SIZE)"
  show thesis
  proof (cases "len \<le> 0 \<or> effectiveWindow s \<le> sndNxt s - sndUna s")
    case True
    then have "write_loop rt addr buf pos len tot s w = (Some tot, s, w)"
      by (subst write_loop.simps) (auto simp: Let_def fl)
    with True stop show thesis by blast
  next
    case False
    then have c: "0 < c" "c \<le> len" "c \<le> TP_MAX_PAYLOAD_SIZE" "sndNxt s + c - sndUna s \<le> effectiveWindow s"
      by (auto simp: c_def cxx_const)
    have nx: "i32 (sndNxt s + c) = sndNxt s + c"
      using c(1,4) eff safe by (intro i32_id) (auto simp: in_i32_def write_safe_def)
    obtain ok w1 where send: "sendData rt addr s (remoteAddr s) (remotePort s) (sndNxt s)
         (take (nat c) (drop (nat pos) buf)) False w = (ok, w1)" by fastforce
    have unf: "write_loop rt addr buf pos len tot s w =
      (if ok then write_loop rt addr buf (pos + c) (len - c) (tot + c)
          (push_seg buf pos c (rt_now rt (io_rt w1)) s) w1 else (None, s, w1))"
      using False c(1) send nx
      by (subst write_loop.simps)
         (simp add: Let_def fl sp c_def[symmetric] push_seg_def fresh_seg_def not_le)
    show thesis using unf send c failed sent by (cases ok) auto
  qed
qed

lemma write_safe_push:
  "write_safe s \<Longrightarrow> 0 < c \<Longrightarrow> sndNxt s + c - sndUna s \<le> effectiveWindow s \<Longrightarrow>
     write_safe (push_seg buf pos c t s)"
  by (auto simp: write_safe_def push_seg_def effectiveWindow_def)

lemma push_seg_sel [simp]:
  "sndNxt (push_seg buf pos c t s) = sndNxt s + c"
  "sndUna (push_seg buf pos c t s) = sndUna s"
  "effectiveWindow (push_seg buf pos c t s) = effectiveWindow s"
  "outstanding (push_seg buf pos c t s) = outstanding s @ [fresh_seg s buf pos c t]"
  "localPort (push_seg buf pos c t s) = localPort s"
  by (simp_all add: push_seg_def effectiveWindow_def)

text \<open>What \<open>write\<close> does: it appends fresh segments that carry the first \<open>n\<close> bytes of the
  caller's buffer, one after the other from \<open>sndNxt\<close>, and stays within the window.\<close>

definition written_by :: "byte list \<Rightarrow> int \<Rightarrow> tcp_socket \<Rightarrow> int \<Rightarrow> outstanding_seg list \<Rightarrow> tcp_socket \<Rightarrow> bool" where
  "written_by buf pos s n segs s' \<longleftrightarrow>
     s' = s\<lparr>outstanding := outstanding s @ segs, sndNxt := sndNxt s + n\<rparr> \<and>
     seg_chain (sndNxt s) segs (sndNxt s + n) \<and>
     concat (map seg_data segs) = take (nat n) (drop (nat pos) buf) \<and>
     (n > 0 \<longrightarrow> sndNxt s + n - sndUna s \<le> effectiveWindow s) \<and>
     (\<forall>g \<in> set segs. \<not> retransmitted g)"

lemma written_by_none: "written_by buf pos s 0 [] s"
  by (simp add: written_by_def)

lemma written_by_sel:
  assumes "written_by buf pos s n segs (s'\<lparr>nextRtoDeadlineMs := d\<rparr>)"
  shows "outstanding s' = outstanding s @ segs \<and> sndNxt s' = sndNxt s + n"
proof -
  have e: "s'\<lparr>nextRtoDeadlineMs := d\<rparr> = s\<lparr>outstanding := outstanding s @ segs, sndNxt := sndNxt s + n\<rparr>"
    using assms by (simp add: written_by_def)
  show ?thesis using arg_cong[OF e, of outstanding] arg_cong[OF e, of sndNxt] by simp
qed

lemma written_by_push:
  assumes "written_by buf (pos + c) (push_seg buf pos c t s) n segs s'"
    and "0 < c" "0 \<le> n" "c \<le> TP_MAX_PAYLOAD_SIZE" "0 \<le> pos" "pos + c \<le> int (length buf)"
    and "sndNxt s + c - sndUna s \<le> effectiveWindow s"
  shows "written_by buf pos s (c + n) (fresh_seg s buf pos c t # segs) s'"
  using assms take_drop_split[of pos c n buf]
  by (cases "n = 0") (auto simp: written_by_def push_seg_def fresh_seg_def add.assoc effectiveWindow_def)

lemma write_loop_spec:
  assumes "write_loop rt addr buf pos len tot s w = (r, s', w')"
    and "0 \<le> pos" "pos + len \<le> int (length buf)" "write_safe s"
  shows "\<exists>n segs. 0 \<le> n \<and> n \<le> max 0 len \<and> (r = None \<or> r = Some (tot + n)) \<and>
    written_by buf pos s n segs s' \<and> (r = Some (tot + n) \<longrightarrow> n = max 0 len \<or> effectiveWindow s \<le> sndNxt s' - sndUna s')"
  using assms
proof (induction "nat len" arbitrary: pos len tot s w rule: less_induct)
  case less
  from less.prems(4) show ?case
  proof (cases rule: write_loop_step[of s rt addr buf pos len tot w])
    case stop
    with less.prems(1) show ?thesis
      by (intro exI[of _ 0] exI[of _ "[]"]) (auto simp: written_by_none)
  next
    case (failed c w1)
    with less.prems(1) show ?thesis
      by (intro exI[of _ 0] exI[of _ "[]"]) (auto simp: written_by_none)
  next
    case (sent c w1)
    let ?s1 = "push_seg buf pos c (rt_now rt (io_rt w1)) s"
    obtain n segs where n: "0 \<le> n" "n \<le> max 0 (len - c)" "r = None \<or> r = Some (tot + c + n)"
      and wb: "written_by buf (pos + c) ?s1 n segs s'"
      and full: "r = Some (tot + c + n) \<longrightarrow> n = max 0 (len - c) \<or> effectiveWindow ?s1 \<le> sndNxt s' - sndUna s'"
      using less.hyps[of "len - c" "pos + c" "tot + c" ?s1 w1] less.prems sent
        write_safe_push[OF less.prems(4) sent(2,5)] by auto
    have "written_by buf pos s (c + n) (fresh_seg s buf pos c (rt_now rt (io_rt w1)) # segs) s'"
      using written_by_push[OF wb sent(2) n(1) sent(4) less.prems(2) _ sent(5)] sent(3) less.prems(3) by simp
    with n sent full show ?thesis
      by (intro exI[of _ "c + n"] exI[of _ "fresh_seg s buf pos c (rt_now rt (io_rt w1)) # segs"])
         (auto simp: add.assoc)
  qed
qed

section \<open>Every operation keeps the invariant\<close>

lemmas sock_wf_defs = sock_wf_def send_wf_def recv_wf_def cc_wf_def

lemma sock_wf_write_safe: "sock_wf s \<Longrightarrow> room s \<Longrightarrow> write_safe s"
  by (auto simp: sock_wf_defs room_def write_safe_def cxx_const)

text \<open>Fields the invariant does not mention.\<close>

lemma sock_wf_irrelevant [simp]:
  "sock_wf (s\<lparr>sk_state := st\<rparr>) = sock_wf s"
  "sock_wf (s\<lparr>localPort := p\<rparr>) = sock_wf s"
  "sock_wf (s\<lparr>remoteAddr := p\<rparr>) = sock_wf s"
  "sock_wf (s\<lparr>remotePort := p\<rparr>) = sock_wf s"
  "sock_wf (s\<lparr>sk_backlog := p\<rparr>) = sock_wf s"
  "sock_wf (s\<lparr>pendingConnQueue := q\<rparr>) = sock_wf s"
  "sock_wf (s\<lparr>rcvNxt := p\<rparr>) = sock_wf s"
  "sock_wf (s\<lparr>synSeq := p\<rparr>) = sock_wf s"
  "sock_wf (s\<lparr>finSeq := p\<rparr>) = sock_wf s"
  "sock_wf (s\<lparr>peerFinReceived := b\<rparr>) = sock_wf s"
  "sock_wf (s\<lparr>nextRtoDeadlineMs := p\<rparr>) = sock_wf s"
  "sock_wf (s\<lparr>timeoutCount := p\<rparr>) = sock_wf s"
  "sock_wf (s\<lparr>hasEstRTT := b\<rparr>) = sock_wf s"
  "sock_wf (s\<lparr>estRTTms := x\<rparr>) = sock_wf s"
  "sock_wf (s\<lparr>devRTTms := x\<rparr>) = sock_wf s"
  by (simp_all add: sock_wf_defs)

lemma send_wf_fresh: "outstanding s = [] \<Longrightarrow> send_wf (s\<lparr>sndUna := 1, sndNxt := 1\<rparr>)"
  by (simp add: send_wf_def in_i32_def)

lemma sock_wf_initAccepted [wf_intro]:
  "sock_wf s \<Longrightarrow> outstanding s = [] \<Longrightarrow> sock_wf (initAccepted lport raddr rport s)"
  by (simp add: initAccepted_def sock_wf_defs in_i32_def cxx_const)

lemma sock_wf_markEstablished [wf_intro]:
  "sock_wf s \<Longrightarrow> outstanding s = [] \<Longrightarrow> sock_wf (markEstablished s)"
  by (simp add: markEstablished_def sock_wf_defs in_i32_def cxx_const)

lemma sock_wf_setRwnd [wf_intro]: "sock_wf s \<Longrightarrow> in_i32 v \<Longrightarrow> sock_wf (setRwnd v s)"
  by (auto simp: setRwnd_def sock_wf_defs in_i32_def max_def)

lemma sock_wf_small [wf_intro]:
  "sock_wf s \<Longrightarrow> sock_wf (snd (sk_bind port s))"
  "sock_wf s \<Longrightarrow> sock_wf (enqueueAccepted child s)"
  "sock_wf s \<Longrightarrow> sock_wf (markClosed s)"
  "sock_wf s \<Longrightarrow> sock_wf (markPeerFinReceived s)"
  "sock_wf s \<Longrightarrow> sock_wf (onSampleRTT x s)"
  by (auto simp: sk_bind_def enqueueAccepted_def markClosed_def markPeerFinReceived_def
      onSampleRTT_def Let_def)

lemma sock_wf_doubleRto [wf_intro]: "sock_wf s \<Longrightarrow> sock_wf (doubleRto s)"
proof -
  assume wf: "sock_wf s"
  then have "i64 (rtoMs s * 2) = rtoMs s * 2"
    by (intro i64_id) (auto simp: sock_wf_defs in_i64_def cxx_const)
  with wf show ?thesis by (auto simp: doubleRto_def sock_wf_defs cxx_const)
qed

lemma sock_wf_multiplicativeDecreaseCwnd [wf_intro]:
  "sock_wf s \<Longrightarrow> sock_wf (multiplicativeDecreaseCwnd s)"
proof -
  assume wf: "sock_wf s"
  have "floor (of_int (cwnd s) * (1 / 2 :: rat)) = cwnd s div 2"
    using floor_divide_of_int_eq[of "cwnd s" 2, where ?'a = rat] by simp
  with wf show ?thesis
    by (auto simp: multiplicativeDecreaseCwnd_def sock_wf_defs in_i32_def cxx_const max_def)
qed

lemma additiveIncrease_bounds:
  assumes "CWND_MIN_BYTES \<le> cwnd s" "cwnd s < 2 ^ 30"
  shows "cwnd s < cwnd (additiveIncreaseCwnd s) \<and>
         cwnd (additiveIncreaseCwnd s) \<le> cwnd s + TP_MAX_PAYLOAD_SIZE"
proof -
  define inc where "inc = max 1 ((TP_MAX_PAYLOAD_SIZE * TP_MAX_PAYLOAD_SIZE) sdiv max (cwnd s) CWND_MIN_BYTES)"
  have "(TP_MAX_PAYLOAD_SIZE * TP_MAX_PAYLOAD_SIZE) sdiv max (cwnd s) CWND_MIN_BYTES
      = (TP_MAX_PAYLOAD_SIZE * TP_MAX_PAYLOAD_SIZE) div cwnd s"
    using assms by (simp add: signed_divide_int_def cxx_const sgn_if max_def)
  moreover have "(TP_MAX_PAYLOAD_SIZE * TP_MAX_PAYLOAD_SIZE) div cwnd s
      \<le> (TP_MAX_PAYLOAD_SIZE * TP_MAX_PAYLOAD_SIZE) div CWND_MIN_BYTES"
    using assms by (intro zdiv_mono2) (auto simp: cxx_const)
  ultimately have inc: "1 \<le> inc" "inc \<le> TP_MAX_PAYLOAD_SIZE"
    by (auto simp: inc_def cxx_const)
  then have "i32 (cwnd s + inc) = cwnd s + inc"
    using assms by (intro i32_id) (auto simp: in_i32_def cxx_const)
  with inc show ?thesis
    by (simp add: additiveIncreaseCwnd_def Let_def inc_def[symmetric])
qed

lemma sock_wf_additiveIncreaseCwnd [wf_intro]:
  assumes wf: "sock_wf s" and r: "room s"
  shows "sock_wf (additiveIncreaseCwnd s)"
proof -
  have eq: "additiveIncreaseCwnd s = s\<lparr>cwnd := cwnd (additiveIncreaseCwnd s)\<rparr>"
    by (simp add: additiveIncreaseCwnd_def Let_def)
  have "cwnd s < cwnd (additiveIncreaseCwnd s)" "cwnd (additiveIncreaseCwnd s) \<le> cwnd s + TP_MAX_PAYLOAD_SIZE"
    using additiveIncrease_bounds wf r by (auto simp: sock_wf_defs room_def)
  with wf r show ?thesis
    by (subst eq) (auto simp: sock_wf_defs room_def in_i32_def cxx_const)
qed

subsection \<open>Acknowledgements\<close>

lemma pop_acked_chain:
  assumes "seg_chain a gs b" "0 \<le> a" "a \<le> ack" "ack \<le> b" "in_i32 b"
    and "pop_acked ack gs l = (l', rest)"
  shows "\<exists>dn. gs = dn @ rest \<and> l' = (if dn = [] then l else Some (last dn)) \<and>
    (case rest of [] \<Rightarrow> ack = b
     | g # _ \<Rightarrow> a \<le> seqStart g \<and> seqStart g \<le> ack \<and> ack < seqStart g + seg_len g \<and>
                seg_chain (seqStart g) rest b)"
  using assms
proof (induction ack gs l arbitrary: a rule: pop_acked.induct)
  case (2 ack g gs l)
  have le: "a + seg_len g \<le> b" using "2.prems"(1) seg_chain_le by auto
  have i: "i32 (seqStart g + seg_len g) = a + seg_len g"
    using "2.prems" le by (intro trans[OF i32_id]) (auto simp: in_i32_def)
  show ?case
  proof (cases "a + seg_len g \<le> ack")
    case True
    then have "pop_acked ack gs (Some g) = (l', rest)" using "2.prems"(6) i by simp
    then obtain dn where dn: "gs = dn @ rest" "l' = (if dn = [] then Some g else Some (last dn))"
      "case rest of [] \<Rightarrow> ack = b
       | h # _ \<Rightarrow> a + seg_len g \<le> seqStart h \<and> seqStart h \<le> ack \<and> ack < seqStart h + seg_len h \<and>
                  seg_chain (seqStart h) rest b"
      using "2.IH"[of "a + seg_len g"] True i "2.prems" by auto
    moreover have "0 < seg_len g" using "2.prems"(1) by simp
    ultimately show ?thesis
      by (intro exI[of _ "g # dn"]) (auto split: list.splits)
  next
    case False
    with "2.prems" i show ?thesis by (intro exI[of _ "[]"]) auto
  qed
qed simp

lemma sock_wf_chain:
  assumes "sock_wf s"
  obtains a where "seg_chain a (outstanding s) (sndNxt s)" "0 \<le> a" "a \<le> sndUna s"
    "sndUna s \<le> sndNxt s" "in_i32 (sndNxt s)"
  using assms that by (cases "outstanding s") (auto simp: sock_wf_defs)

lemma sock_wf_popAckedThrough:
  assumes wf: "sock_wf s" and ack: "sndUna s < ack" "ack \<le> sndNxt s"
    and pop: "popAckedThrough now ack s = (l, s')"
  shows "sock_wf s' \<and> sndUna s' = ack \<and> (\<exists>dn. outstanding s = dn @ outstanding s' \<and>
    l = (if dn = [] then None else Some (last dn)) \<and>
    (\<forall>g \<in> set dn. seqStart g + seg_len g \<le> ack)) \<and>
    (nextRtoDeadlineMs s' = (if outstanding s' = [] then 0 else i64 (now + rtoMs s)))"
proof -
  obtain a where a: "seg_chain a (outstanding s) (sndNxt s)" "0 \<le> a" "a \<le> sndUna s"
    "in_i32 (sndNxt s)" using sock_wf_chain[OF wf] by metis
  obtain rest where r: "pop_acked ack (outstanding s) None = (l, rest)"
    using pop by (auto simp: popAckedThrough_def Let_def split: prod.splits)
  then have s': "s' = s\<lparr>outstanding := rest, sndUna := ack,
      nextRtoDeadlineMs := if rest = [] then 0 else i64 (now + rtoMs s)\<rparr>"
    using pop by (auto simp: popAckedThrough_def Let_def split: if_splits)
  obtain dn where dn: "outstanding s = dn @ rest" "l = (if dn = [] then None else Some (last dn))"
    and rest: "case rest of [] \<Rightarrow> ack = sndNxt s
     | g # _ \<Rightarrow> a \<le> seqStart g \<and> seqStart g \<le> ack \<and> ack < seqStart g + seg_len g \<and>
                seg_chain (seqStart g) rest (sndNxt s)"
    using pop_acked_chain[OF a(1,2) _ ack(2) a(4) r] ack(1) a(3) by auto
  have wf': "sock_wf s'"
    using rest wf ack a(2) by (auto simp: s' sock_wf_defs split: list.splits)
  have "\<forall>g \<in> set dn. seqStart g + seg_len g \<le> ack"
  proof (cases rest)
    case Nil
    with rest dn seg_chain_mem[OF a(1)] show ?thesis by auto
  next
    case (Cons h t)
    obtain b where b: "seg_chain a dn b" "seg_chain b rest (sndNxt s)"
      using a(1) dn(1) seg_chain_append by auto
    then have "b \<le> ack" using Cons rest by auto
    then show ?thesis using seg_chain_mem[OF b(1)] by fastforce
  qed
  with wf' dn show ?thesis by (auto simp: s')
qed

subsection \<open>Receive buffer and write\<close>

lemma sock_wf_appendToRecvBuf [wf_intro]:
  assumes "sock_wf s" "len \<le> int (length (drop (nat pos) bs))" 
  shows "sock_wf (snd (appendToRecvBuf (Some bs) pos len s))"
  using assms by (auto simp: appendToRecvBuf_def sock_wf_defs Let_def min_def)

lemma sock_wf_sk_read [wf_intro]: "sock_wf s \<Longrightarrow> sock_wf (snd (sk_read nn pos len s))"
  by (auto simp: sk_read_def sock_wf_defs Let_def min_def)

lemma sock_wf_written_by:
  assumes wf: "sock_wf s" and wb: "written_by buf pos s n segs s'" and n: "0 \<le> n" and r: "room s"
  shows "sock_wf s'"
proof -
  have i: "in_i32 (sndNxt s + n)"
    using wb wf r n by (cases "n = 0") (auto simp: written_by_def sock_wf_defs in_i32_def room_def effectiveWindow_def)
  have ch: "seg_chain (sndNxt s) segs (sndNxt s + n)" using wb by (simp add: written_by_def)
  have s': "s' = s\<lparr>outstanding := outstanding s @ segs, sndNxt := sndNxt s + n\<rparr>"
    using wb by (simp add: written_by_def)
  show ?thesis
  proof (cases "outstanding s")
    case Nil
    with wf i ch n show ?thesis
      by (cases segs) (auto simp: s' sock_wf_defs)
  next
    case (Cons g gs)
    with wf have "seg_chain (seqStart g) (outstanding s) (sndNxt s)" by (simp add: sock_wf_defs)
    then have "seg_chain (seqStart g) (outstanding s @ segs) (sndNxt s + n)"
      using ch seg_chain_append by blast
    with wf i n Cons show ?thesis by (auto simp: s' sock_wf_defs)
  qed
qed

lemma sk_write_spec:
  assumes w: "sk_write rt addr (Some buf) pos len s w = (r, s', w')"
    and wf: "sock_wf s" "room s" and buf: "pos + len \<le> int (length buf)"
  shows "\<exists>n segs. 0 \<le> n \<and> n \<le> max 0 len \<and> (r = -1 \<or> r = n) \<and>
    written_by buf pos s n segs (s'\<lparr>nextRtoDeadlineMs := nextRtoDeadlineMs s\<rparr>) \<and> sock_wf s'"
proof -
  consider (early) "s' = s" "r = -1 \<or> r = 0"
    | (loop) r0 s1 where "0 \<le> pos" "write_loop rt addr buf pos len 0 s w = (r0, s1, w')"
        "r = (case r0 of None \<Rightarrow> -1 | Some n \<Rightarrow> n)"
        "s'\<lparr>nextRtoDeadlineMs := nextRtoDeadlineMs s1\<rparr> = s1"
    using w by (auto simp: sk_write_def Let_def split: if_splits option.splits prod.splits)
  then show ?thesis
  proof cases
    case early
    with wf show ?thesis
      by (intro exI[of _ 0] exI[of _ "[]"]) (auto simp: written_by_none)
  next
    case loop
    then obtain n segs where n: "0 \<le> n" "n \<le> max 0 len" "r0 = None \<or> r0 = Some n"
      and wb: "written_by buf pos s n segs s1"
      using write_loop_spec[OF loop(2,1) buf sock_wf_write_safe[OF wf]] by auto
    have "sock_wf s1" using sock_wf_written_by[OF wf(1) wb n(1) wf(2)] .
    then have "sock_wf s'" using loop(4) sock_wf_irrelevant(11) by metis
    moreover have "nextRtoDeadlineMs s1 = nextRtoDeadlineMs s" using wb by (simp add: written_by_def)
    ultimately show ?thesis using n wb loop(3,4)
      by (intro exI[of _ n] exI[of _ segs]) auto
  qed
qed

lemma sk_write_full:
  assumes w: "sk_write rt addr (Some buf) pos len s w = (r, s', w')"
    and wf: "sock_wf s" "room s" and buf: "pos + len \<le> int (length buf)" and r: "0 \<le> r"
  shows "r = len \<or> effectiveWindow s \<le> sndNxt s' - sndUna s'"
proof -
  consider "r = 0" "len = 0"
    | (loop) s1 where "0 \<le> pos" "0 \<le> len" "write_loop rt addr buf pos len 0 s w = (Some r, s1, w')"
        "sndNxt s' = sndNxt s1" "sndUna s' = sndUna s1"
    using w r by (auto simp: sk_write_def Let_def split: if_splits option.splits prod.splits)
  then show ?thesis
  proof cases
    case loop
    then show ?thesis using write_loop_spec[OF loop(3,1) buf sock_wf_write_safe[OF wf]] by auto
  qed simp
qed

section \<open>Properties\<close>

text \<open>C9. \<open>write\<close>: it takes a prefix of the caller's bytes, cuts it into consecutive segments of at
  most a payload each, never lets the bytes in flight exceed the smaller of the two windows,
  and stops before the last byte only when the window is full; the socket stays well formed.\<close>

theorem write_respects_window:
  assumes "sk_write rt addr (Some buf) pos len s w = (r, s', w')"
    and "sock_wf s" "room s" "pos + len \<le> int (length buf)" "0 \<le> r"
  shows "r \<le> max 0 len \<and> sock_wf s' \<and> sndNxt s' = sndNxt s + r \<and>
    (r = 0 \<or> sndNxt s' - sndUna s \<le> effectiveWindow s) \<and>
    (r = len \<or> effectiveWindow s \<le> sndNxt s' - sndUna s') \<and>
    (\<exists>segs. outstanding s' = outstanding s @ segs \<and> seg_chain (sndNxt s) segs (sndNxt s') \<and>
       concat (map seg_data segs) = take (nat r) (drop (nat pos) buf))"
proof -
  obtain n segs where n: "0 \<le> n" "n \<le> max 0 len" "r = -1 \<or> r = n"
    and wb: "written_by buf pos s n segs (s'\<lparr>nextRtoDeadlineMs := nextRtoDeadlineMs s\<rparr>)" and wf: "sock_wf s'"
    using sk_write_spec[OF assms(1-4)] by blast
  have "r = n" using n(3) assms(5) by auto
  with n wf wb written_by_sel[OF wb] sk_write_full[OF assms] show ?thesis by (auto simp: written_by_def)
qed

definition demo_sock :: tcp_socket where
  "demo_sock = initAccepted 20 1 10 tcp_socket_ctor"

definition null_rt :: "unit runtime" where
  "null_rt = \<lparr>rt_sendPkt = (\<lambda>_ _ _ m. (Inr True, m)), rt_now = (\<lambda>_. 0), rt_addTimer = (\<lambda>_ _ _ m. m)\<rparr>"

theorem write_respects_window_witness:
  "let r = sk_write null_rt 2 (Some (replicate 300 7)) 0 300 demo_sock \<lparr>io_rt = (), io_out = []\<rparr>; s' = fst (snd r)
   in fst r = 107 \<and> sndNxt s' = 108 \<and> sndNxt s' - sndUna demo_sock \<le> effectiveWindow demo_sock"
proof -
  let ?r = "sk_write null_rt 2 (Some (replicate 300 7)) 0 300 demo_sock \<lparr>io_rt = (), io_out = []\<rparr>"
  have r: "fst ?r = 107" by code_simp
  have wf: "sock_wf demo_sock"
    unfolding demo_sock_def by (intro sock_wf_initAccepted sock_wf_ctor) simp
  have rm: "room demo_sock" by code_simp
  have nx: "sndNxt demo_sock = 1" by code_simp
  have len: "0 + 300 \<le> int (length (replicate 300 (7::byte)))" by simp
  have "?r = (107, fst (snd ?r), snd (snd ?r))" using r by (metis prod.collapse)
  from write_respects_window[OF this wf rm len] have "sndNxt (fst (snd ?r)) = 108"
    "sndNxt (fst (snd ?r)) - sndUna demo_sock \<le> effectiveWindow demo_sock" by (simp_all add: nx)
  with r show ?thesis unfolding Let_def by blast
qed

text \<open>A full or closed window stops the sender: with as many bytes in flight as the smaller of
  the two windows allows, \<open>write\<close> sends nothing and returns 0. In particular a peer that
  advertised a window of 0 while nothing is outstanding is never probed again.\<close>

theorem closed_window_stalls:
  assumes "sk_state s = ESTABLISHED" "write_safe s" "effectiveWindow s \<le> sndNxt s - sndUna s"
    and "0 \<le> pos" "0 \<le> len"
  shows "sk_write rt addr (Some buf) pos len s w = (0, s, w)"
proof -
  have "write_loop rt addr buf pos len 0 s w = (Some 0, s, w)"
    using assms(2)
    by (cases rule: write_loop_step[of s rt addr buf pos len 0 w]) (use assms(3) in auto)
  with assms show ?thesis by (simp add: sk_write_def Let_def)
qed

theorem closed_window_stalls_witness:
  "sk_write null_rt 2 (Some [1, 2, 3]) 0 3 (setRwnd 0 demo_sock) \<lparr>io_rt = (), io_out = []\<rparr> =
     (0, setRwnd 0 demo_sock, \<lparr>io_rt = (), io_out = []\<rparr>)"
  by (rule closed_window_stalls)
     (simp_all add: setRwnd_def demo_sock_def initAccepted_def write_safe_def effectiveWindow_def tcp_socket_ctor_def cxx_const)

text \<open>C15. An acknowledgement of new data removes exactly the segments it covers from the front of
  the queue, keeps the rest in order, and rearms the timer only while data is outstanding.\<close>

theorem ack_pops_prefix:
  assumes "sock_wf s" "sndUna s < ack" "ack \<le> sndNxt s" "popAckedThrough now ack s = (l, s')"
  shows "sock_wf s' \<and> sndUna s' = ack \<and> sndNxt s' = sndNxt s \<and>
    outstanding s' = filter (\<lambda>g. ack < seqStart g + seg_len g) (outstanding s) \<and>
    nextRtoDeadlineMs s' = (if outstanding s' = [] then 0 else i64 (now + rtoMs s))"
proof -
  obtain dn where dn: "outstanding s = dn @ outstanding s'" "\<forall>g \<in> set dn. seqStart g + seg_len g \<le> ack"
    and wf: "sock_wf s'" "sndUna s' = ack" "nextRtoDeadlineMs s' = (if outstanding s' = [] then 0 else i64 (now + rtoMs s))"
    using sock_wf_popAckedThrough[OF assms] by blast
  have "ack < seqStart g + seg_len g" if "g \<in> set (outstanding s')" for g
  proof (cases "outstanding s'")
    case (Cons h t)
    with wf have h: "ack < seqStart h + seg_len h" "seg_chain (seqStart h + seg_len h) t (sndNxt s')"
      by (auto simp: sock_wf_defs)
    then show ?thesis using that Cons seg_chain_mem[OF h(2), of g] by auto
  qed (use that in simp)
  then have "outstanding s' = filter (\<lambda>g. ack < seqStart g + seg_len g) (outstanding s)"
    using dn by (auto simp: filter_empty_conv not_less)
  moreover have "sndNxt s' = sndNxt s"
    using assms(4) by (auto simp: popAckedThrough_def Let_def split: prod.splits if_splits)
  ultimately show ?thesis using wf by simp
qed

definition demo_sent :: tcp_socket where
  "demo_sent = push_seg [1, 2, 3, 4] 2 2 0 (push_seg [1, 2, 3, 4] 0 2 0 demo_sock)"

theorem ack_pops_prefix_witness:
  "map seg_data (outstanding (snd (popAckedThrough 5 3 demo_sent))) = [[3, 4]] \<and>
     nextRtoDeadlineMs (snd (popAckedThrough 5 3 demo_sent)) = 1005"
proof -
  have wf: "sock_wf demo_sent"
    by (simp add: demo_sent_def push_seg_def fresh_seg_def demo_sock_def initAccepted_def tcp_socket_ctor_def
        sock_wf_defs in_i32_def cxx_const)
  have "sndUna demo_sent < 3" "3 \<le> sndNxt demo_sent" "rtoMs demo_sent = 1000"
    "map seg_data (filter (\<lambda>g. 3 < seqStart g + seg_len g) (outstanding demo_sent)) = [[3, 4]]"
    by code_simp+
  with ack_pops_prefix[OF wf, of 3 5, OF _ _ prod.collapse[symmetric]] show ?thesis by (auto simp: i64_def)
qed



end
