(* ===== verification/Tcp_Manager.thy ===== *)
theory Tcp_Manager
  imports Tcp_Socket
begin

text \<open>
  \<open>TcpManager\<close> (\<open>node/tcp_manager.cpp\<close>): the sockets of a node, the three tables that
  demultiplex segments to them, the handlers of the four segment types and the
  retransmission tick; with the \<open>TcpSocket\<close> operations that call back into the manager.
  Sockets are never removed from \<open>allSockets_\<close>, so an index is a pointer that stays
  valid. Each operation takes and returns the manager and the \<open>io\<close> world.
\<close>

definition RETRANS_TICK_MS :: int where [cxx_const]: "RETRANS_TICK_MS = 10"

record conn_key =
  ck_remoteAddr :: int
  ck_remotePort :: int
  ck_localPort :: int

record tcp_manager =
  tm_addr :: int
  allSockets :: "tcp_socket list"
  listenersByPort :: "(int \<times> nat) list"
  synPendingByKey :: "(conn_key \<times> nat) list"
  establishedByKey :: "(conn_key \<times> nat) list"

definition tcp_manager_ctor :: "int \<Rightarrow> tcp_manager" where
  "tcp_manager_ctor addr =
     \<lparr>tm_addr = addr, allSockets = [], listenersByPort = [], synPendingByKey = [],
      establishedByKey = []\<rparr>"

definition mk_key :: "int \<Rightarrow> int \<Rightarrow> int \<Rightarrow> conn_key" where
  "mk_key raddr rport lport =
     \<lparr>ck_remoteAddr = raddr, ck_remotePort = rport, ck_localPort = lport\<rparr>"

definition get_sock :: "nat \<Rightarrow> tcp_manager \<Rightarrow> tcp_socket" where
  "get_sock i m = allSockets m ! i"

definition upd_sock :: "nat \<Rightarrow> (tcp_socket \<Rightarrow> tcp_socket) \<Rightarrow> tcp_manager \<Rightarrow> tcp_manager" where
  "upd_sock i f m = m\<lparr>allSockets := (allSockets m)[i := f (get_sock i m)]\<rparr>"

definition tm_socket :: "tcp_manager \<Rightarrow> nat \<times> tcp_manager" where
  "tm_socket m = (length (allSockets m), m\<lparr>allSockets := allSockets m @ [tcp_socket_ctor]\<rparr>)"

section \<open>Tables\<close>

definition registerListener :: "nat \<Rightarrow> int \<Rightarrow> tcp_manager \<Rightarrow> tcp_manager" where
  "registerListener i port m = m\<lparr>listenersByPort := AList.update port i (listenersByPort m)\<rparr>"

definition registerSynPending :: "nat \<Rightarrow> int \<Rightarrow> int \<Rightarrow> tcp_manager \<Rightarrow> tcp_manager" where
  "registerSynPending i raddr rport m =
     m\<lparr>synPendingByKey :=
         AList.update (mk_key raddr rport (localPort (get_sock i m))) i (synPendingByKey m)\<rparr>"

definition registerEstablished :: "nat \<Rightarrow> int \<Rightarrow> int \<Rightarrow> tcp_manager \<Rightarrow> tcp_manager" where
  "registerEstablished i raddr rport m =
     m\<lparr>establishedByKey :=
         AList.update (mk_key raddr rport (localPort (get_sock i m))) i (establishedByKey m)\<rparr>"

definition unregisterSocket :: "nat \<Rightarrow> tcp_manager \<Rightarrow> tcp_manager" where
  "unregisterSocket i m =
     m\<lparr>listenersByPort := filter (\<lambda>kv. snd kv \<noteq> i) (listenersByPort m),
       synPendingByKey := filter (\<lambda>kv. snd kv \<noteq> i) (synPendingByKey m),
       establishedByKey := filter (\<lambda>kv. snd kv \<noteq> i) (establishedByKey m)\<rparr>"

section \<open>Socket operations that use the manager\<close>

definition tm_bind :: "nat \<Rightarrow> int \<Rightarrow> tcp_manager \<Rightarrow> int \<times> tcp_manager" where
  "tm_bind i port m = (fst (sk_bind port (get_sock i m)), upd_sock i (snd \<circ> sk_bind port) m)"

definition tm_listen :: "nat \<Rightarrow> int \<Rightarrow> tcp_manager \<Rightarrow> int \<times> tcp_manager" where
  "tm_listen i backlog m =
     (if sk_state (get_sock i m) \<noteq> CLOSED then (- 1, m)
      else
        let m1 = upd_sock i (\<lambda>s. s\<lparr>sk_state := LISTEN, sk_backlog := backlog\<rparr>) m
        in (0, registerListener i (localPort (get_sock i m1)) m1))"

definition tm_accept :: "nat \<Rightarrow> tcp_manager \<Rightarrow> nat option \<times> tcp_manager" where
  "tm_accept i m =
     (if sk_state (get_sock i m) \<noteq> LISTEN then (None, m)
      else
        (case pendingConnQueue (get_sock i m) of
           [] \<Rightarrow> (None, m)
         | conn # rest \<Rightarrow>
             let m1 = upd_sock i (\<lambda>s. s\<lparr>pendingConnQueue := rest\<rparr>) m
             in (Some conn,
                 if sk_state (get_sock conn m1) \<noteq> CLOSED
                 then upd_sock conn (\<lambda>s. s\<lparr>sk_state := ESTABLISHED\<rparr>) m1 else m1)))"

definition tm_connect ::
  "'m runtime \<Rightarrow> nat \<Rightarrow> int \<Rightarrow> int \<Rightarrow> tcp_manager \<Rightarrow> 'm io \<Rightarrow> int \<times> tcp_manager \<times> 'm io" where
  "tm_connect rt i destAddr destPort m w =
     (if localPort (get_sock i m) < 0 \<or> destPort < 0 \<or> destPort > MAX_PORT_NUM then (- 1, m, w)
      else
        let m1 = upd_sock i (\<lambda>s. s\<lparr>remoteAddr := destAddr, remotePort := destPort,
                                    synSeq := sndNxt s\<rparr>) m
        in (case sendSyn rt (tm_addr m1) (get_sock i m1) destAddr destPort w of
              (False, w1) \<Rightarrow> (- 1, m1, w1)
            | (True, w1) \<Rightarrow>
                (0, upd_sock i (\<lambda>s. s\<lparr>sk_state := SYN_SENT\<rparr>)
                      (registerSynPending i destAddr destPort m1), w1)))"

definition tm_release :: "nat \<Rightarrow> tcp_manager \<Rightarrow> tcp_manager" where
  "tm_release i m =
     (if sk_state (get_sock i m) = CLOSED then m
      else upd_sock i (\<lambda>s. s\<lparr>pendingConnQueue := [], sk_backlog := 0, remoteAddr := - 1,
                             remotePort := - 1, localPort := - 1, sk_state := CLOSED\<rparr>)
             (unregisterSocket i m))"

definition maybeSendFinOnDrain ::
  "'m runtime \<Rightarrow> nat \<Rightarrow> tcp_manager \<Rightarrow> 'm io \<Rightarrow> tcp_manager \<times> 'm io" where
  "maybeSendFinOnDrain rt i m w =
     (let s = get_sock i m
      in if sk_state s \<noteq> SHUTDOWN \<or> finSeq s \<ge> 0 \<or> hasOutstanding s then (m, w)
         else
           let m1 = upd_sock i (\<lambda>s. s\<lparr>finSeq := sndNxt s\<rparr>) m; s1 = get_sock i m1
           in (case sendFin rt (tm_addr m1) s1 (remoteAddr s1) (remotePort s1) w of
                 (True, w1) \<Rightarrow> (m1, w1)
               | (False, w1) \<Rightarrow> (tm_release i m1, w1)))"

definition tm_close :: "'m runtime \<Rightarrow> nat \<Rightarrow> tcp_manager \<Rightarrow> 'm io \<Rightarrow> tcp_manager \<times> 'm io" where
  "tm_close rt i m w =
     (let st = sk_state (get_sock i m)
      in if st = CLOSED then (m, w)
         else if st = LISTEN \<or> st = SYN_SENT
         then (upd_sock i (\<lambda>s. s\<lparr>sk_state := CLOSED\<rparr>) m, w)
         else if st = ESTABLISHED
         then maybeSendFinOnDrain rt i (upd_sock i (\<lambda>s. s\<lparr>sk_state := SHUTDOWN\<rparr>) m) w
         else (m, w))"

definition tm_write ::
  "'m runtime \<Rightarrow> nat \<Rightarrow> byte list option \<Rightarrow> int \<Rightarrow> int \<Rightarrow> tcp_manager \<Rightarrow> 'm io
     \<Rightarrow> int \<times> tcp_manager \<times> 'm io" where
  "tm_write rt i buf pos len m w =
     (case sk_write rt (tm_addr m) buf pos len (get_sock i m) w of
        (r, s, w1) \<Rightarrow> (r, upd_sock i (\<lambda>_. s) m, w1))"

definition tm_read ::
  "nat \<Rightarrow> bool \<Rightarrow> int \<Rightarrow> int \<Rightarrow> tcp_manager \<Rightarrow> (int \<times> byte list) \<times> tcp_manager" where
  "tm_read i nonnull pos len m =
     (case sk_read nonnull pos len (get_sock i m) of (r, s) \<Rightarrow> (r, upd_sock i (\<lambda>_. s) m))"

section \<open>Segment handlers\<close>

definition onSyn ::
  "'m runtime \<Rightarrow> int \<Rightarrow> transport \<Rightarrow> tcp_manager \<Rightarrow> 'm io \<Rightarrow> tcp_manager \<times> 'm io" where
  "onSyn rt srcAddr syn m w =
     (let lport = tp_destPort syn; rport = tp_srcPort syn
      in (case map_of (listenersByPort m) lport of
            None \<Rightarrow> (m, snd (sendFinFromPorts rt (tm_addr m) lport srcAddr rport w))
          | Some listener \<Rightarrow>
              let (child, m1) = tm_socket m;
                  m2 = upd_sock child (initAccepted lport srcAddr rport) m1;
                  m3 = upd_sock listener (enqueueAccepted child) m2;
                  m4 = registerEstablished child srcAddr rport m3;
                  ackNum = i32 (tp_seqNum syn + 1)
              in (m4, snd (sendAck rt (tm_addr m4) lport srcAddr rport ackNum True
                             (getRecvBufAvailable (get_sock child m4)) w))))"

text \<open>The part of \<open>onAck\<close> for a socket that is connected or shutting down.\<close>

definition onAck_established ::
  "'m runtime \<Rightarrow> nat \<Rightarrow> transport \<Rightarrow> tcp_manager \<Rightarrow> 'm io \<Rightarrow> tcp_manager \<times> 'm io" where
  "onAck_established rt i ack m w =
     (let ackNum = tp_seqNum ack; una = sndUna (get_sock i m); nxt = sndNxt (get_sock i m)
      in if ackNum > nxt then (m, cout ''?'' w)
         else
           let m1 = upd_sock i (setRwnd (tp_window ack)) m
           in if ackNum \<le> una then (m1, cout ''?'' w)
              else
                let now = rt_now rt (io_rt w);
                    (popped, s2) = popAckedThrough now ackNum (get_sock i m1);
                    s3 = additiveIncreaseCwnd s2;
                    s4 = (case popped of
                            Some g \<Rightarrow> if \<not> retransmitted g
                                      then onSampleRTT (i64 (now - firstSentAtMs g)) s3 else s3
                          | None \<Rightarrow> s3);
                    (m2, w2) = maybeSendFinOnDrain rt i (upd_sock i (\<lambda>_. s4) m1) w
                in (m2, cout '':'' w2))"

definition onAck ::
  "'m runtime \<Rightarrow> int \<Rightarrow> transport \<Rightarrow> tcp_manager \<Rightarrow> 'm io \<Rightarrow> tcp_manager \<times> 'm io" where
  "onAck rt srcAddr ack m w =
     (let key = mk_key srcAddr (tp_srcPort ack) (tp_destPort ack)
      in (case map_of (synPendingByKey m) key of
            Some pending \<Rightarrow>
              if tp_seqNum ack = i32 (synSeq (get_sock pending m) + 1)
              then
                let m1 = upd_sock pending (markEstablished \<circ> setRwnd (tp_window ack)) m;
                    m2 = m1\<lparr>synPendingByKey := AList.delete key (synPendingByKey m1)\<rparr>
                in (registerEstablished pending srcAddr (tp_srcPort ack) m2, cout '':'' w)
              else (m, cout ''?'' w)
          | None \<Rightarrow>
              (case map_of (establishedByKey m) key of
                 None \<Rightarrow> (m, cout ''?'' w)
               | Some i \<Rightarrow>
                   if isClosurePending (get_sock i m) \<and> finSeq (get_sock i m) \<ge> 0 \<and>
                      tp_seqNum ack = i32 (finSeq (get_sock i m) + 1)
                   then
                     let m1 = upd_sock i markClosed m
                     in (m1\<lparr>establishedByKey := AList.delete key (establishedByKey m1)\<rparr>,
                         cout '':'' w)
                   else if isConnected (get_sock i m) \<or> isClosurePending (get_sock i m)
                   then onAck_established rt i ack m w
                   else (m, cout ''?'' w))))"

definition onFin ::
  "'m runtime \<Rightarrow> int \<Rightarrow> transport \<Rightarrow> tcp_manager \<Rightarrow> 'm io \<Rightarrow> tcp_manager \<times> 'm io" where
  "onFin rt srcAddr fin m w =
     (let key = mk_key srcAddr (tp_srcPort fin) (tp_destPort fin)
      in (case map_of (establishedByKey m) key of
            Some i \<Rightarrow>
              let m1 = upd_sock i markPeerFinReceived m
              in (m1, snd (sendAck rt (tm_addr m1) (tp_destPort fin) srcAddr (tp_srcPort fin)
                             (i32 (tp_seqNum fin + 1)) True
                             (getRecvBufAvailable (get_sock i m1)) w))
          | None \<Rightarrow>
              (case map_of (synPendingByKey m) key of
                 Some pending \<Rightarrow>
                   (upd_sock pending markClosed
                      (m\<lparr>synPendingByKey := AList.delete key (synPendingByKey m)\<rparr>), w)
               | None \<Rightarrow> (m, w))))"

definition onData ::
  "'m runtime \<Rightarrow> int \<Rightarrow> transport \<Rightarrow> tcp_manager \<Rightarrow> 'm io \<Rightarrow> tcp_manager \<times> 'm io" where
  "onData rt srcAddr data m w =
     (let key = mk_key srcAddr (tp_srcPort data) (tp_destPort data)
      in (case map_of (establishedByKey m) key of
            None \<Rightarrow> (m, w)
          | Some i \<Rightarrow>
              let s = get_sock i m;
                  segLen = int (length (tp_payload data));
                  ack = (\<lambda>s' advances. sendAck rt (tm_addr m) (localPort s') srcAddr (tp_srcPort data)
                           (rcvNxt s') advances (getRecvBufAvailable s'))
              in if \<not> (isConnected s \<or> isClosurePending s) then (m, w)
                 else if segLen = 0 then (m, snd (ack s False w))
                 else if tp_seqNum data = rcvNxt s then
                   (if getRecvBufAvailable s < segLen
                    then (m, snd (ack s False (cout ''!'' w)))
                    else
                      let (accepted, s1) = appendToRecvBuf (Some (tp_payload data)) 0 segLen s;
                          s2 = s1\<lparr>rcvNxt := i32 (rcvNxt s1 + accepted)\<rparr>
                      in (upd_sock i (\<lambda>_. s2) m, snd (ack s2 True (cout ''.'' w))))
                 else (m, snd (ack s False (cout ''!'' w)))))"

definition tm_receiveTransport ::
  "'m runtime \<Rightarrow> int \<Rightarrow> transport \<Rightarrow> tcp_manager \<Rightarrow> 'm io \<Rightarrow> tcp_manager \<times> 'm io" where
  "tm_receiveTransport rt srcAddr t m w =
     (if tp_type t = SYN then onSyn rt srcAddr t m (cout ''S'' w)
      else if tp_type t = ACK then onAck rt srcAddr t m w
      else if tp_type t = FIN then onFin rt srcAddr t m (cout ''F'' w)
      else if tp_type t = DATA then onData rt srcAddr t m w
      else (m, w))"

section \<open>Retransmission\<close>

text \<open>Send every outstanding segment again and mark it.\<close>

fun resend_all ::
  "'m runtime \<Rightarrow> int \<Rightarrow> tcp_socket \<Rightarrow> outstanding_seg list \<Rightarrow> 'm io
     \<Rightarrow> outstanding_seg list \<times> 'm io" where
  "resend_all rt addr s [] w = ([], w)"
| "resend_all rt addr s (g # gs) w =
     (let w1 = snd (sendData rt addr s (remoteAddr s) (remotePort s) (seqStart g) (seg_data g) True w);
          (gs', w2) = resend_all rt addr s gs w1
      in (g\<lparr>retransmitted := True\<rparr> # gs', w2))"

definition retransmit_socket ::
  "'m runtime \<Rightarrow> int \<Rightarrow> int \<Rightarrow> tcp_socket \<Rightarrow> 'm io \<Rightarrow> tcp_socket \<times> 'm io" where
  "retransmit_socket rt addr now s w =
     (if \<not> hasOutstanding s \<or> nextRtoDeadlineMs s = 0 \<or> now < nextRtoDeadlineMs s then (s, w)
      else
        let s1 = multiplicativeDecreaseCwnd (doubleRto (s\<lparr>timeoutCount := i32 (timeoutCount s + 1)\<rparr>));
            (segs, w1) = resend_all rt addr s1 (outstanding s1) w
        in (s1\<lparr>outstanding := segs, nextRtoDeadlineMs := i64 (now + rtoMs s1)\<rparr>, w1))"

fun retransmit_each ::
  "'m runtime \<Rightarrow> int \<Rightarrow> (conn_key \<times> nat) list \<Rightarrow> tcp_manager \<Rightarrow> 'm io \<Rightarrow> tcp_manager \<times> 'm io" where
  "retransmit_each rt now [] m w = (m, w)"
| "retransmit_each rt now ((k, i) # es) m w =
     (let (s, w1) = retransmit_socket rt (tm_addr m) now (get_sock i m) w
      in retransmit_each rt now es (upd_sock i (\<lambda>_. s) m) w1)"

definition retransmissionTick ::
  "'m runtime \<Rightarrow> tcp_manager \<Rightarrow> 'm io \<Rightarrow> tcp_manager \<times> 'm io" where
  "retransmissionTick rt m w =
     (let now = rt_now rt (io_rt w);
          (m1, w1) = retransmit_each rt now (establishedByKey m) m w
      in (m1, addTimer_io rt (tm_addr m1) RETRANS_TICK_MS
                (Some (CbRetransmissionTick (tm_addr m1))) w1))"

definition tm_start :: "'m runtime \<Rightarrow> tcp_manager \<Rightarrow> 'm io \<Rightarrow> 'm io" where
  "tm_start rt m w =
     addTimer_io rt (tm_addr m) RETRANS_TICK_MS (Some (CbRetransmissionTick (tm_addr m))) w"

end
