(* ===== verification/Tcp_Invariant.thy ===== *)
theory Tcp_Invariant
  imports Tcp_Manager
begin

text \<open>
  The invariant of \<open>TcpManager\<close>: the tables name sockets that exist and agree with them, every
  socket is well formed. Every operation keeps it, so it holds of every manager that the
  node's calls, the network and the timer can reach.
\<close>

section \<open>The manager's invariant\<close>

definition sock_key :: "tcp_socket \<Rightarrow> conn_key" where
  "sock_key s = mk_key (remoteAddr s) (remotePort s) (localPort s)"

text \<open>What the tables of \<open>m\<close> require of the socket \<open>s\<close> at index \<open>i\<close>: it is well formed, its
  queue names sockets that exist and are not still connecting, every table entry for it has
  its own ports and peer, and while it is connecting it has sent and received no data.\<close>

definition sock_ok :: "tcp_manager \<Rightarrow> nat \<Rightarrow> tcp_socket \<Rightarrow> bool" where
  "sock_ok m i s \<longleftrightarrow> sock_wf s \<and>
     (\<forall>c \<in> set (pendingConnQueue s). c < length (allSockets m) \<and> c \<notin> snd ` set (synPendingByKey m)) \<and>
     (\<forall>p. (p, i) \<in> set (listenersByPort m) \<longrightarrow> localPort s = p) \<and>
     (\<forall>k. (k, i) \<in> set (synPendingByKey m) \<longrightarrow>
        sock_key s = k \<and> outstanding s = [] \<and> rcvNxt s = 0 \<and>
        (sk_state s = SYN_SENT \<or> sk_state s = CLOSED)) \<and>
     (\<forall>k. (k, i) \<in> set (establishedByKey m) \<longrightarrow> sock_key s = k)"

definition table_ok :: "nat \<Rightarrow> ('k \<times> nat) list \<Rightarrow> bool" where
  "table_ok n t \<longleftrightarrow> distinct (map fst t) \<and> (\<forall>(k, i) \<in> set t. i < n)"

definition man_wf :: "tcp_manager \<Rightarrow> bool" where
  "man_wf m \<longleftrightarrow> table_ok (length (allSockets m)) (listenersByPort m) \<and>
     table_ok (length (allSockets m)) (synPendingByKey m) \<and>
     table_ok (length (allSockets m)) (establishedByKey m) \<and>
     (\<forall>i < length (allSockets m). sock_ok m i (get_sock i m))"

definition man_room :: "tcp_manager \<Rightarrow> bool" where
  "man_room m \<longleftrightarrow> (\<forall>s \<in> set (allSockets m). room s)"

lemma upd_sock_sel [simp]:
  "length (allSockets (upd_sock i f m)) = length (allSockets m)"
  "listenersByPort (upd_sock i f m) = listenersByPort m"
  "synPendingByKey (upd_sock i f m) = synPendingByKey m"
  "establishedByKey (upd_sock i f m) = establishedByKey m"
  "tm_addr (upd_sock i f m) = tm_addr m"
  by (simp_all add: upd_sock_def)

lemma get_upd_same [simp]: "i < length (allSockets m) \<Longrightarrow> get_sock i (upd_sock i f m) = f (get_sock i m)"
  by (simp add: get_sock_def upd_sock_def)

lemma get_upd_other [simp]: "i \<noteq> j \<Longrightarrow> get_sock j (upd_sock i f m) = get_sock j m"
  by (simp add: get_sock_def upd_sock_def)

lemma get_sock_tables [simp]:
  "get_sock i (m\<lparr>listenersByPort := l\<rparr>) = get_sock i m"
  "get_sock i (m\<lparr>synPendingByKey := p\<rparr>) = get_sock i m"
  "get_sock i (m\<lparr>establishedByKey := e\<rparr>) = get_sock i m"
  by (simp_all add: get_sock_def)

lemma sock_ok_upd [simp]: "sock_ok (upd_sock j f m) i s = sock_ok m i s"
  by (simp add: sock_ok_def)

lemma set_update_subset: "set (AList.update k v t) \<subseteq> insert (k, v) (set t)"
  by (induction t) auto

lemma table_ok_intros [wf_intro]:
  "table_ok n []"
  "table_ok n t \<Longrightarrow> i < n \<Longrightarrow> table_ok n (AList.update k i t)"
  "table_ok n t \<Longrightarrow> table_ok n (AList.delete k t)"
  "table_ok n t \<Longrightarrow> table_ok n (filter P t)"
  "table_ok n t \<Longrightarrow> n \<le> n' \<Longrightarrow> table_ok n' t"
  unfolding table_ok_def
  by (auto simp: AList.distinct_update distinct_map_filter AList.delete_eq
      dest!: set_mp[OF set_update_subset])

lemma table_ok_lookup: "table_ok n t \<Longrightarrow> map_of t k = Some i \<Longrightarrow> (k, i) \<in> set t \<and> i < n"
  by (auto simp: table_ok_def dest: map_of_SomeD)

lemma man_wfD:
  assumes "man_wf m"
  shows "i < length (allSockets m) \<Longrightarrow> sock_ok m i (get_sock i m)"
    and "map_of (listenersByPort m) p = Some i \<Longrightarrow> (p, i) \<in> set (listenersByPort m) \<and> i < length (allSockets m)"
    and "map_of (synPendingByKey m) k = Some i \<Longrightarrow> (k, i) \<in> set (synPendingByKey m) \<and> i < length (allSockets m)"
    and "map_of (establishedByKey m) k = Some i \<Longrightarrow> (k, i) \<in> set (establishedByKey m) \<and> i < length (allSockets m)"
  using assms by (auto simp: man_wf_def dest: table_ok_lookup)

lemma sock_okD:
  assumes "sock_ok m i s"
  shows "sock_wf s"
    and "(k, i) \<in> set (synPendingByKey m) \<Longrightarrow> sock_key s = k \<and> outstanding s = [] \<and> rcvNxt s = 0"
    and "(k, i) \<in> set (establishedByKey m) \<Longrightarrow> sock_key s = k"
  using assms by (auto simp: sock_ok_def)

text \<open>Updating one socket.\<close>

lemma man_wf_upd:
  assumes wf: "man_wf m"
    and ok: "i < length (allSockets m) \<Longrightarrow> sock_ok m i (get_sock i m) \<Longrightarrow> sock_ok m i (f (get_sock i m))"
  shows "man_wf (upd_sock i f m)"
proof -
  have "sock_ok (upd_sock i f m) j (get_sock j (upd_sock i f m))" if "j < length (allSockets m)" for j
    using that ok man_wfD(1)[OF wf] by (cases "i = j") auto
  with wf show ?thesis by (simp add: man_wf_def)
qed

text \<open>Shrinking the tables and adding sockets keeps what they require.\<close>

lemma sock_ok_mono:
  assumes "sock_ok m i s"
    and "length (allSockets m) \<le> length (allSockets m')"
    and "set (listenersByPort m') \<subseteq> set (listenersByPort m)"
    and "set (synPendingByKey m') \<subseteq> set (synPendingByKey m)"
    and "set (establishedByKey m') \<subseteq> set (establishedByKey m)"
  shows "sock_ok m' i s"
proof -
  have "c < length (allSockets m') \<and> c \<notin> snd ` set (synPendingByKey m')"
    if "c \<in> set (pendingConnQueue s)" for c
    using assms(1) that assms(2,4) unfolding sock_ok_def by (meson image_mono less_le_trans subsetD)
  with assms(1,3,4,5) show ?thesis
    unfolding sock_ok_def by (meson subsetD)
qed

text \<open>A change of a socket that keeps its ports, peer and queue.\<close>

lemma sock_ok_same:
  assumes "sock_ok m i s" "sock_wf s'"
    and "localPort s' = localPort s" "remoteAddr s' = remoteAddr s" "remotePort s' = remotePort s"
    and "set (pendingConnQueue s') \<subseteq> set (pendingConnQueue s)"
    and "\<And>k. (k, i) \<in> set (synPendingByKey m) \<Longrightarrow>
       outstanding s' = outstanding s \<and> rcvNxt s' = rcvNxt s \<and>
       (sk_state s' = sk_state s \<or> sk_state s' = CLOSED)"
  shows "sock_ok m i s'"
  using assms unfolding sock_ok_def sock_key_def by (auto 4 3)

lemma man_wf_ctor [wf_intro]: "man_wf (tcp_manager_ctor a)"
  by (simp add: man_wf_def tcp_manager_ctor_def table_ok_intros)

lemma get_sock_socket:
  "tm_socket m = (c, m') \<Longrightarrow> c = length (allSockets m) \<and> get_sock c m' = tcp_socket_ctor \<and>
     (\<forall>i < length (allSockets m). get_sock i m' = get_sock i m) \<and>
     length (allSockets m') = Suc (length (allSockets m)) \<and>
     listenersByPort m' = listenersByPort m \<and> synPendingByKey m' = synPendingByKey m \<and>
     establishedByKey m' = establishedByKey m \<and> tm_addr m' = tm_addr m"
  by (auto simp: tm_socket_def get_sock_def nth_append)

lemma man_wf_socket:
  assumes wf: "man_wf m" and s: "tm_socket m = (c, m')"
  shows "man_wf m' \<and> (\<forall>s. sock_wf s \<and> set (pendingConnQueue s) = {} \<longrightarrow> sock_ok m' c s)"
proof -
  note g = get_sock_socket[OF s]
  have fresh: "c \<notin> snd ` set (listenersByPort m)" "c \<notin> snd ` set (synPendingByKey m)"
    "c \<notin> snd ` set (establishedByKey m)"
    using wf g by (auto simp: man_wf_def table_ok_def)
  have new: "sock_ok m' c s" if "sock_wf s" "set (pendingConnQueue s) = {}" for s
    using that fresh g by (force simp: sock_ok_def image_iff)
  moreover have "sock_ok m' i (get_sock i m')" if "i < length (allSockets m')" for i
  proof (cases "i = c")
    case True
    have "sock_ok m' c tcp_socket_ctor"
      by (intro new sock_wf_ctor) (simp add: tcp_socket_ctor_def)
    with True g show ?thesis by auto
  next
    case False
    with that g have "i < length (allSockets m)" by auto
    with g man_wfD(1)[OF wf] show ?thesis by (auto intro: sock_ok_mono[of m])
  qed
  ultimately show ?thesis using wf g by (auto simp: man_wf_def intro: table_ok_intros)
qed

section \<open>Every operation keeps the invariant\<close>

lemma table_ok_subset:
  "table_ok n t \<Longrightarrow> set t' \<subseteq> set t \<Longrightarrow> distinct (map fst t') \<Longrightarrow> table_ok n t'"
  unfolding table_ok_def by blast

lemma man_wf_tables:
  assumes wf: "man_wf m"
    and "set l \<subseteq> set (listenersByPort m)" "set p \<subseteq> set (synPendingByKey m)"
      "set e \<subseteq> set (establishedByKey m)" "distinct (map fst l)" "distinct (map fst p)" "distinct (map fst e)"
  shows "man_wf (m\<lparr>listenersByPort := l, synPendingByKey := p, establishedByKey := e\<rparr>)"
proof -
  let ?m = "m\<lparr>listenersByPort := l, synPendingByKey := p, establishedByKey := e\<rparr>"
  have "sock_ok ?m i (get_sock i m)" if "i < length (allSockets m)" for i
    using man_wfD(1)[OF wf that] assms(2-4) by (rule_tac sock_ok_mono) auto
  moreover have "table_ok (length (allSockets m)) l" "table_ok (length (allSockets m)) p"
    "table_ok (length (allSockets m)) e"
    using wf table_ok_subset[OF _ assms(2,5)] table_ok_subset[OF _ assms(3,6)]
      table_ok_subset[OF _ assms(4,7)] by (auto simp: man_wf_def)
  ultimately show ?thesis by (simp add: man_wf_def)
qed

lemma distinct_tables:
  "man_wf m \<Longrightarrow> distinct (map fst (listenersByPort m)) \<and> distinct (map fst (synPendingByKey m)) \<and>
     distinct (map fst (establishedByKey m))"
  by (simp add: man_wf_def table_ok_def)

lemma delete_facts:
  "set (AList.delete k t) \<subseteq> set t" "distinct (map fst t) \<Longrightarrow> distinct (map fst (AList.delete k t))"
  by (auto simp: AList.delete_eq distinct_map_filter)

lemma man_wf_delete [wf_intro]:
  assumes "man_wf m"
  shows "man_wf (m\<lparr>synPendingByKey := AList.delete k (synPendingByKey m)\<rparr>)"
    and "man_wf (m\<lparr>establishedByKey := AList.delete k' (establishedByKey m)\<rparr>)"
  using man_wf_tables[OF assms, of "listenersByPort m" "AList.delete k (synPendingByKey m)" "establishedByKey m"]
    man_wf_tables[OF assms, of "listenersByPort m" "synPendingByKey m" "AList.delete k' (establishedByKey m)"]
    distinct_tables[OF assms] by (simp_all add: delete_facts)

lemma man_wf_unregisterSocket [wf_intro]: "man_wf m \<Longrightarrow> man_wf (unregisterSocket i m)"
  unfolding unregisterSocket_def
  by (rule man_wf_tables) (use distinct_tables in \<open>auto simp: distinct_map_filter\<close>)

text \<open>Registering a socket under its own key.\<close>

lemma man_wf_registerEstablished:
  assumes wf: "man_wf m" and i: "i < length (allSockets m)"
    and k: "sock_key (get_sock i m) = mk_key a p (localPort (get_sock i m))"
  shows "man_wf (registerEstablished i a p m)"
proof -
  let ?m = "registerEstablished i a p m"
  have sub: "set (establishedByKey ?m) \<subseteq> insert (sock_key (get_sock i m), i) (set (establishedByKey m))"
    using set_update_subset k by (force simp: registerEstablished_def)
  have "sock_ok ?m j (get_sock j m)" if "j < length (allSockets m)" for j
    using man_wfD(1)[OF wf that] sub unfolding sock_ok_def
    by (auto simp: registerEstablished_def)
  with wf i show ?thesis
    by (auto simp: man_wf_def registerEstablished_def intro: table_ok_intros)
qed

lemma man_wf_registerListener:
  assumes wf: "man_wf m" and i: "i < length (allSockets m)" and p: "localPort (get_sock i m) = p"
  shows "man_wf (registerListener i p m)"
proof -
  let ?m = "registerListener i p m"
  have sub: "set (listenersByPort ?m) \<subseteq> insert (p, i) (set (listenersByPort m))"
    using set_update_subset by (force simp: registerListener_def)
  have "sock_ok ?m j (get_sock j m)" if "j < length (allSockets m)" for j
    using man_wfD(1)[OF wf that] sub p unfolding sock_ok_def
    by (auto simp: registerListener_def)
  with wf i show ?thesis
    by (auto simp: man_wf_def registerListener_def intro: table_ok_intros)
qed

lemma man_wf_registerSynPending:
  assumes wf: "man_wf m" and i: "i < length (allSockets m)"
    and k: "sock_key (get_sock i m) = mk_key a p (localPort (get_sock i m))"
    and fresh: "outstanding (get_sock i m) = [] \<and> rcvNxt (get_sock i m) = 0" "sk_state (get_sock i m) = CLOSED \<or> sk_state (get_sock i m) = SYN_SENT"
      "\<forall>s \<in> set (allSockets m). i \<notin> set (pendingConnQueue s)"
  shows "man_wf (registerSynPending i a p m)"
proof -
  let ?m = "registerSynPending i a p m"
  have sub: "set (synPendingByKey ?m) \<subseteq> insert (sock_key (get_sock i m), i) (set (synPendingByKey m))"
    using set_update_subset k by (force simp: registerSynPending_def)
  then have rng: "snd ` set (synPendingByKey ?m) \<subseteq> insert i (snd ` set (synPendingByKey m))" by force
  have "sock_ok ?m j (get_sock j m)" if j: "j < length (allSockets m)" for j
  proof -
    have q: "i \<notin> set (pendingConnQueue (get_sock j m))" using fresh(3) j by (simp add: get_sock_def)
    have ok: "sock_ok m j (get_sock j m)" using man_wfD(1)[OF wf j] .
    have "c < length (allSockets ?m) \<and> c \<notin> snd ` set (synPendingByKey ?m)"
      if "c \<in> set (pendingConnQueue (get_sock j m))" for c
      using that ok q rng unfolding sock_ok_def by (auto simp: registerSynPending_def)
    with ok sub fresh(1,2) show ?thesis unfolding sock_ok_def
      by (auto simp: registerSynPending_def)
  qed
  with wf i show ?thesis
    by (auto simp: man_wf_def registerSynPending_def intro: table_ok_intros)
qed


text \<open>The calls of the applications.\<close>

lemma man_wf_upd_same:
  assumes "man_wf m"
    and "\<And>s. sock_wf s \<Longrightarrow> sock_wf (f s)"
    and "\<And>s. localPort (f s) = localPort s \<and> remoteAddr (f s) = remoteAddr s \<and> remotePort (f s) = remotePort s \<and>
       set (pendingConnQueue (f s)) \<subseteq> set (pendingConnQueue s) \<and> outstanding (f s) = outstanding s \<and> rcvNxt (f s) = rcvNxt s \<and>
       (sk_state (f s) = sk_state s \<or> sk_state (f s) = CLOSED \<or> sk_state s = ESTABLISHED)"
  shows "man_wf (upd_sock i f m)"
proof (rule man_wf_upd[OF assms(1)])
  assume ok: "sock_ok m i (get_sock i m)"
  show "sock_ok m i (f (get_sock i m))"
  proof (rule sock_ok_same[OF ok])
    show "sock_wf (f (get_sock i m))" using ok assms(2) sock_okD(1) by blast
  qed (use assms(3)[of "get_sock i m"] ok in \<open>auto simp: sock_ok_def\<close>)
qed

lemma sk_read_frame:
  "snd (sk_read nn pos len s) =
     s\<lparr>recvBuf := recvBuf (snd (sk_read nn pos len s)), recvBufUsed := recvBufUsed (snd (sk_read nn pos len s)),
       sk_state := sk_state (snd (sk_read nn pos len s))\<rparr> \<and>
   (sk_state (snd (sk_read nn pos len s)) = sk_state s \<or> sk_state (snd (sk_read nn pos len s)) = CLOSED)"
  by (auto simp: sk_read_def Let_def)

lemma sk_read_sel [simp]:
  "localPort (snd (sk_read nn pos len s)) = localPort s"
  "remoteAddr (snd (sk_read nn pos len s)) = remoteAddr s"
  "remotePort (snd (sk_read nn pos len s)) = remotePort s"
  "pendingConnQueue (snd (sk_read nn pos len s)) = pendingConnQueue s"
  "outstanding (snd (sk_read nn pos len s)) = outstanding s"
  "sndNxt (snd (sk_read nn pos len s)) = sndNxt s"
  "rcvNxt (snd (sk_read nn pos len s)) = rcvNxt s"
  by (subst sk_read_frame[THEN conjunct1], simp)+

lemma man_wf_read: "man_wf m \<Longrightarrow> man_wf (snd (tm_read i nn pos len m))"
proof -
  have eq: "snd (tm_read i nn pos len m) = upd_sock i (\<lambda>s. snd (sk_read nn pos len s)) m"
    by (simp add: tm_read_def upd_sock_def split: prod.splits)
  assume "man_wf m"
  then show ?thesis unfolding eq
    by (rule man_wf_upd_same) (use sk_read_frame in \<open>auto intro: wf_intro\<close>)
qed

lemma sk_write_closed: "sk_state s \<noteq> ESTABLISHED \<Longrightarrow> sk_write rt a buf pos len s w = (- 1, s, w)"
  by (simp add: sk_write_def)

lemma sk_write_frame:
  assumes "sk_write rt a (Some buf) pos len s w = (r, s', w')" "sock_wf s" "room s" "pos + len \<le> int (length buf)"
  shows "localPort s' = localPort s" "remoteAddr s' = remoteAddr s" "remotePort s' = remotePort s"
    "pendingConnQueue s' = pendingConnQueue s" "sk_state s' = sk_state s" "rcvNxt s' = rcvNxt s"
    "recvBuf s' = recvBuf s"
proof -
  obtain n segs where "written_by buf pos s n segs (s'\<lparr>nextRtoDeadlineMs := nextRtoDeadlineMs s\<rparr>)"
    using sk_write_spec[OF assms] by blast
  then have e: "s'\<lparr>nextRtoDeadlineMs := nextRtoDeadlineMs s\<rparr> = s\<lparr>outstanding := outstanding s @ segs, sndNxt := sndNxt s + n\<rparr>"
    by (simp add: written_by_def)
  note c = arg_cong[OF e]
  show "localPort s' = localPort s" using c[of localPort] by simp
  show "remoteAddr s' = remoteAddr s" using c[of remoteAddr] by simp
  show "remotePort s' = remotePort s" using c[of remotePort] by simp
  show "pendingConnQueue s' = pendingConnQueue s" using c[of pendingConnQueue] by simp
  show "sk_state s' = sk_state s" using c[of sk_state] by simp
  show "rcvNxt s' = rcvNxt s" using c[of rcvNxt] by simp
  show "recvBuf s' = recvBuf s" using c[of recvBuf] by simp
qed

lemma man_wf_write:
  assumes wf: "man_wf m" and room: "man_room m" and buf: "pos + len \<le> int (length buf)"
    and w: "tm_write rt i (Some buf) pos len m w = (r, m', w')"
  shows "man_wf m'"
proof -
  obtain s' where s': "sk_write rt (tm_addr m) (Some buf) pos len (get_sock i m) w = (r, s', w')"
    and m': "m' = upd_sock i (\<lambda>_. s') m"
    using w by (auto simp: tm_write_def split: prod.splits)
  show ?thesis unfolding m'
  proof (rule man_wf_upd[OF wf])
    assume i: "i < length (allSockets m)" and ok: "sock_ok m i (get_sock i m)"
    have wf1: "sock_wf (get_sock i m)" "room (get_sock i m)"
      using i ok room by (auto simp: man_room_def get_sock_def dest: sock_okD)
    show "sock_ok m i s'"
    proof (rule sock_ok_same[OF ok])
      show "sock_wf s'" using sk_write_spec[OF s' wf1 buf] by blast
      show "outstanding s' = outstanding (get_sock i m) \<and> rcvNxt s' = rcvNxt (get_sock i m) \<and>
        (sk_state s' = sk_state (get_sock i m) \<or> sk_state s' = CLOSED)"
        if "(k, i) \<in> set (synPendingByKey m)" for k
        using s' sk_write_closed[of "get_sock i m" rt "tm_addr m"] ok that by (auto simp: sock_ok_def)
    qed (use sk_write_frame[OF s' wf1 buf] in auto)
  qed
qed

lemma man_wf_accept: 
  assumes wf: "man_wf m" and i: "i < length (allSockets m)"
  shows "man_wf (snd (tm_accept i m))"
proof (cases "sk_state (get_sock i m) = LISTEN \<and> pendingConnQueue (get_sock i m) \<noteq> []")
  case False
  then show ?thesis using wf by (auto simp: tm_accept_def split: list.split)
next
  case True
  then obtain c cs where q: "pendingConnQueue (get_sock i m) = c # cs" by (cases "pendingConnQueue (get_sock i m)") auto
  let ?m1 = "upd_sock i (\<lambda>s. s\<lparr>pendingConnQueue := cs\<rparr>) m"
  have m1: "man_wf ?m1"
  proof (rule man_wf_upd[OF wf])
    assume ok: "sock_ok m i (get_sock i m)"
    show "sock_ok m i (get_sock i m\<lparr>pendingConnQueue := cs\<rparr>)"
      by (rule sock_ok_same[OF ok]) (use ok q in \<open>auto dest: sock_okD\<close>)
  qed
  have c: "c \<notin> snd ` set (synPendingByKey m)"
    using man_wfD(1)[OF wf i] q by (simp add: sock_ok_def)
  have "man_wf (upd_sock c (\<lambda>s. s\<lparr>sk_state := ESTABLISHED\<rparr>) ?m1)"
  proof (rule man_wf_upd[OF m1])
    assume ok: "sock_ok ?m1 c (get_sock c ?m1)"
    show "sock_ok ?m1 c (get_sock c ?m1\<lparr>sk_state := ESTABLISHED\<rparr>)"
      by (rule sock_ok_same[OF ok]) (use ok c in \<open>auto dest: sock_okD simp: image_iff\<close>)
  qed
  with m1 True q show ?thesis by (simp add: tm_accept_def Let_def)
qed

lemma man_wf_release [wf_intro]:
  assumes wf: "man_wf m" shows "man_wf (tm_release i m)"
proof -
  let ?u = "unregisterSocket i m"
  have "man_wf (upd_sock i (\<lambda>s. s\<lparr>pendingConnQueue := [], sk_backlog := 0, remoteAddr := - 1,
                             remotePort := - 1, localPort := - 1, sk_state := CLOSED\<rparr>) ?u)"
  proof (rule man_wf_upd[OF man_wf_unregisterSocket[OF wf]])
    assume "sock_ok ?u i (get_sock i ?u)"
    then show "sock_ok ?u i (get_sock i ?u \<lparr>pendingConnQueue := [], sk_backlog := 0, remoteAddr := - 1,
                             remotePort := - 1, localPort := - 1, sk_state := CLOSED\<rparr>)"
      by (auto simp: sock_ok_def unregisterSocket_def)
  qed
  with wf show ?thesis by (simp add: tm_release_def)
qed

lemma man_wf_maybeSendFinOnDrain [wf_intro]:
  assumes wf: "man_wf m" shows "man_wf (fst (maybeSendFinOnDrain rt i m w))"
proof -
  have "man_wf (upd_sock i (\<lambda>s. s\<lparr>finSeq := sndNxt s\<rparr>) m)"
    by (rule man_wf_upd_same[OF wf]) auto
  with wf man_wf_release show ?thesis
    by (auto simp: maybeSendFinOnDrain_def Let_def split: prod.splits bool.splits)
qed

lemma man_wf_close [wf_intro]:
  assumes wf: "man_wf m" shows "man_wf (fst (tm_close rt i m w))"
proof -
  have c: "man_wf (upd_sock i (\<lambda>s. s\<lparr>sk_state := CLOSED\<rparr>) m)"
    by (rule man_wf_upd_same[OF wf]) auto
  have "man_wf (upd_sock i (\<lambda>s. s\<lparr>sk_state := SHUTDOWN\<rparr>) m)" if "sk_state (get_sock i m) = ESTABLISHED"
  proof (rule man_wf_upd[OF wf])
    assume ok: "sock_ok m i (get_sock i m)"
    show "sock_ok m i (get_sock i m\<lparr>sk_state := SHUTDOWN\<rparr>)"
      by (rule sock_ok_same[OF ok]) (use ok that in \<open>auto simp: sock_ok_def\<close>)
  qed
  with c wf man_wf_maybeSendFinOnDrain show ?thesis
    by (auto simp: tm_close_def Let_def)
qed

text \<open>Opening a listener and a connection the way the node does: on a new socket.\<close>

definition open_server :: "int \<Rightarrow> int \<Rightarrow> tcp_manager \<Rightarrow> int \<times> nat \<times> tcp_manager" where
  "open_server port backlog m =
     (let (i, m1) = tm_socket m; (_, m2) = tm_bind i port m1; (r, m3) = tm_listen i backlog m2
      in (r, i, m3))"

definition open_client ::
  "'m runtime \<Rightarrow> int \<Rightarrow> int \<Rightarrow> int \<Rightarrow> tcp_manager \<Rightarrow> 'm io \<Rightarrow> int \<times> nat \<times> tcp_manager \<times> 'm io" where
  "open_client rt port destAddr destPort m w =
     (let (i, m1) = tm_socket m; (_, m2) = tm_bind i port m1;
          (r, m3, w1) = tm_connect rt i destAddr destPort m2 w
      in (r, i, m3, w1))"

lemma man_wf_socket_upd:
  assumes wf: "man_wf m" and s: "tm_socket m = (c, m1)"
    and f: "sock_wf (f tcp_socket_ctor)" "pendingConnQueue (f tcp_socket_ctor) = []"
  shows "man_wf (upd_sock c f m1)"
proof (rule man_wf_upd)
  show "man_wf m1" using man_wf_socket[OF wf s] by blast
  show "sock_ok m1 c (f (get_sock c m1))"
    using man_wf_socket[OF wf s] get_sock_socket[OF s] f by auto
qed

lemma man_wf_open_server: 
  assumes wf: "man_wf m" shows "man_wf (snd (snd (open_server port backlog m)))"
proof -
  obtain i m1 where s: "tm_socket m = (i, m1)" by fastforce
  note g = get_sock_socket[OF s]
  let ?f = "\<lambda>s. s\<lparr>localPort := port, sk_state := LISTEN, sk_backlog := backlog\<rparr>"
  have "man_wf (upd_sock i ?f m1)"
    by (rule man_wf_socket_upd[OF wf s]) (simp_all add: sock_wf_ctor)
  then have "man_wf (registerListener i port (upd_sock i ?f m1))"
    using g by (intro man_wf_registerListener) auto
  moreover have "snd (snd (open_server port backlog m)) = registerListener i port (upd_sock i ?f m1)"
    using g s
    by (auto simp: open_server_def tm_bind_def tm_listen_def sk_bind_def Let_def upd_sock_def get_sock_def
        tcp_socket_ctor_def)
  ultimately show ?thesis by simp
qed

lemma fresh_not_queued:
  assumes wf: "man_wf m" and s: "tm_socket m = (i, m1)"
  shows "\<forall>t \<in> set (allSockets m1). i \<notin> set (pendingConnQueue t)"
proof
  fix t assume "t \<in> set (allSockets m1)"
  then consider "t = tcp_socket_ctor" | j where "j < length (allSockets m)" "t = get_sock j m"
    using s by (auto simp: tm_socket_def in_set_conv_nth get_sock_def nth_append less_Suc_eq split: if_splits)
  then show "i \<notin> set (pendingConnQueue t)"
  proof cases
    case 1 then show ?thesis by (simp add: tcp_socket_ctor_def)
  next
    case 2 then show ?thesis
      using man_wfD(1)[OF wf 2(1)] get_sock_socket[OF s] by (auto simp: sock_ok_def)
  qed
qed

lemma man_wf_open_client:
  assumes wf: "man_wf m" and r: "open_client rt port destAddr destPort m w = (r, i, m', w')"
  shows "man_wf m'"
proof -
  obtain m1 where s: "tm_socket m = (i, m1)"
    using r by (auto simp: open_client_def split: prod.splits)
  note g = get_sock_socket[OF s]
  let ?b = "upd_sock i (\<lambda>s. s\<lparr>localPort := port\<rparr>) m1"
  let ?c = "upd_sock i (\<lambda>s. s\<lparr>localPort := port, remoteAddr := destAddr, remotePort := destPort, synSeq := sndNxt s\<rparr>) m1"
  let ?d = "registerSynPending i destAddr destPort ?c"
  have b: "man_wf ?b" and c: "man_wf ?c"
    by (rule man_wf_socket_upd[OF wf s];
        simp add: sock_wf_ctor)+
  have nq: "\<forall>t \<in> set (allSockets ?c). i \<notin> set (pendingConnQueue t)"
    using fresh_not_queued[OF wf s] g
    by (auto simp: upd_sock_def get_sock_def dest!: set_mp[OF set_update_subset_insert])
  have d: "man_wf ?d"
    using g nq by (intro man_wf_registerSynPending[OF c]) (auto simp: sock_key_def tcp_socket_ctor_def)
  have e: "man_wf (upd_sock i (\<lambda>s. s\<lparr>sk_state := SYN_SENT\<rparr>) ?d)"
  proof (rule man_wf_upd[OF d])
    assume "sock_ok ?d i (get_sock i ?d)"
    then show "sock_ok ?d i (get_sock i ?d\<lparr>sk_state := SYN_SENT\<rparr>)"
      by (auto simp: sock_ok_def sock_key_def)
  qed
  have bind: "tm_bind i port m1 = (0, ?b)"
    by (simp add: tm_bind_def sk_bind_def comp_def)
  have bc: "upd_sock i (\<lambda>s. s\<lparr>remoteAddr := destAddr, remotePort := destPort, synSeq := sndNxt s\<rparr>) ?b = ?c"
    using g by (simp add: upd_sock_def get_sock_def)
  from r s bind have "tm_connect rt i destAddr destPort ?b w = (r, m', w')"
    by (auto simp: open_client_def split: prod.splits)
  then show ?thesis
    using b c e by (auto simp: tm_connect_def bc Let_def split: if_splits prod.splits bool.splits)
qed

subsection \<open>Segment handlers and the tick\<close>

lemma man_wf_onSyn [wf_intro]:
  assumes wf: "man_wf m" shows "man_wf (fst (onSyn rt srcAddr syn m w))"
proof (cases "map_of (listenersByPort m) (tp_destPort syn)")
  case None
  with wf show ?thesis by (simp add: onSyn_def)
next
  case (Some l)
  obtain c m1 where s: "tm_socket m = (c, m1)" by fastforce
  note g = get_sock_socket[OF s]
  have l: "l < length (allSockets m)" using man_wfD(2)[OF wf Some] by blast
  let ?m2 = "upd_sock c (initAccepted (tp_destPort syn) srcAddr (tp_srcPort syn)) m1"
  let ?m3 = "upd_sock l (enqueueAccepted c) ?m2"
  have m2: "man_wf ?m2"
    by (rule man_wf_socket_upd[OF wf s]) (auto intro!: sock_wf_initAccepted sock_wf_ctor, simp add: initAccepted_def)
  have c: "c \<notin> snd ` set (synPendingByKey ?m2)"
    using wf g by (auto simp: man_wf_def table_ok_def)
  have m3: "man_wf ?m3"
  proof (rule man_wf_upd[OF m2])
    assume "sock_ok ?m2 l (get_sock l ?m2)"
    with c g show "sock_ok ?m2 l (enqueueAccepted c (get_sock l ?m2))"
      by (auto simp: sock_ok_def enqueueAccepted_def sock_key_def)
  qed
  have "get_sock c ?m3 = initAccepted (tp_destPort syn) srcAddr (tp_srcPort syn) tcp_socket_ctor"
    using g l by auto
  then have "man_wf (registerEstablished c srcAddr (tp_srcPort syn) ?m3)"
    using g by (intro man_wf_registerEstablished[OF m3]) (auto simp: sock_key_def initAccepted_def)
  with Some s show ?thesis by (simp add: onSyn_def Let_def)
qed

lemma setRwnd_sel [simp]:
  "localPort (setRwnd v s) = localPort s" "remoteAddr (setRwnd v s) = remoteAddr s"
  "remotePort (setRwnd v s) = remotePort s" "pendingConnQueue (setRwnd v s) = pendingConnQueue s"
  "outstanding (setRwnd v s) = outstanding s" "sk_state (setRwnd v s) = sk_state s"
  "sndUna (setRwnd v s) = sndUna s" "sndNxt (setRwnd v s) = sndNxt s" "cwnd (setRwnd v s) = cwnd s"
  "rcvNxt (setRwnd v s) = rcvNxt s" "recvBuf (setRwnd v s) = recvBuf s"
  by (simp_all add: setRwnd_def)

text \<open>The socket after an acknowledgement of new data.\<close>

definition acked_socket :: "int \<Rightarrow> transport \<Rightarrow> tcp_socket \<Rightarrow> tcp_socket" where
  "acked_socket now ack s =
     (let (popped, s2) = popAckedThrough now (tp_seqNum ack) (setRwnd (tp_window ack) s);
          s3 = additiveIncreaseCwnd s2
      in (case popped of
            Some g \<Rightarrow> if \<not> retransmitted g then onSampleRTT (i64 (now - firstSentAtMs g)) s3 else s3
          | None \<Rightarrow> s3))"

lemma acked_socket_frame:
  "localPort (acked_socket now ack s) = localPort s" "remoteAddr (acked_socket now ack s) = remoteAddr s"
  "remotePort (acked_socket now ack s) = remotePort s"
  "pendingConnQueue (acked_socket now ack s) = pendingConnQueue s"
  "sk_state (acked_socket now ack s) = sk_state s" "sndNxt (acked_socket now ack s) = sndNxt s"
  "rcvNxt (acked_socket now ack s) = rcvNxt s" "recvBuf (acked_socket now ack s) = recvBuf s"
  "outstanding (acked_socket now ack s) = snd (pop_acked (tp_seqNum ack) (outstanding s) None)"
  "sndUna (acked_socket now ack s) = tp_seqNum ack"
  by (auto simp: acked_socket_def popAckedThrough_def additiveIncreaseCwnd_def onSampleRTT_def Let_def
      split: option.splits prod.splits)

lemma sock_wf_acked_socket:
  assumes wf: "sock_wf s" "room s" and ack: "sndUna s < tp_seqNum ack" "tp_seqNum ack \<le> sndNxt s" "in_i32 (tp_window ack)"
  shows "sock_wf (acked_socket now ack s)"
proof -
  let ?s1 = "setRwnd (tp_window ack) s"
  obtain l s2 where p: "popAckedThrough now (tp_seqNum ack) ?s1 = (l, s2)" by fastforce
  have "sock_wf s2" using sock_wf_popAckedThrough[OF sock_wf_setRwnd[OF wf(1) ack(3)] _ _ p] ack by simp
  moreover have "room s2" using p wf(2)
    by (auto simp: popAckedThrough_def room_def Let_def split: prod.splits if_splits)
  ultimately have "sock_wf (additiveIncreaseCwnd s2)" by (rule sock_wf_additiveIncreaseCwnd)
  then show ?thesis using p by (auto simp: acked_socket_def Let_def split: option.split intro: wf_intro)
qed

text \<open>\<open>onAck_established\<close>, case by case.\<close>

lemma onAck_established_cases [consumes 1, case_names ahead old new]:
  assumes i: "i < length (allSockets m)"
  obtains (ahead) "sndNxt (get_sock i m) < tp_seqNum ack" "onAck_established rt i ack m w = (m, cout ''?'' w)"
  | (old) "tp_seqNum ack \<le> sndNxt (get_sock i m)" "tp_seqNum ack \<le> sndUna (get_sock i m)"
      "onAck_established rt i ack m w = (upd_sock i (setRwnd (tp_window ack)) m, cout ''?'' w)"
  | (new) m2 w2 where "sndUna (get_sock i m) < tp_seqNum ack" "tp_seqNum ack \<le> sndNxt (get_sock i m)"
      "maybeSendFinOnDrain rt i (upd_sock i (acked_socket (rt_now rt (io_rt w)) ack) m) w = (m2, w2)"
      "onAck_established rt i ack m w = (m2, cout '':'' w2)"
proof -
  have upd2: "upd_sock i (\<lambda>_. s4) (upd_sock i f m) = upd_sock i (\<lambda>_. s4) m" for s4 f
    by (simp add: upd_sock_def)
  have upd3: "upd_sock i (\<lambda>_. f (get_sock i m)) m = upd_sock i f m" for f
    by (simp add: upd_sock_def)
  let ?now = "rt_now rt (io_rt w)"
  obtain popped s2 where p: "popAckedThrough ?now (tp_seqNum ack) (setRwnd (tp_window ack) (get_sock i m)) = (popped, s2)"
    by fastforce
  obtain m2 w2 where d: "maybeSendFinOnDrain rt i (upd_sock i (acked_socket ?now ack) m) w = (m2, w2)" by fastforce
  then have d': "maybeSendFinOnDrain rt i (upd_sock i (\<lambda>_. acked_socket ?now ack (get_sock i m)) m) w = (m2, w2)"
    by (simp add: upd3)
  have new': "onAck_established rt i ack m w = (m2, cout '':'' w2)"
    if "sndUna (get_sock i m) < tp_seqNum ack" "tp_seqNum ack \<le> sndNxt (get_sock i m)"
    using that i d'
    by (simp add: onAck_established_def Let_def p upd2 acked_socket_def)
  show thesis
  proof (cases "sndNxt (get_sock i m) < tp_seqNum ack \<or> tp_seqNum ack \<le> sndUna (get_sock i m)")
    case True
    with ahead old show thesis
      by (cases "sndNxt (get_sock i m) < tp_seqNum ack") (auto simp: onAck_established_def Let_def)
  next
    case False
    with new[OF _ _ d new'] show thesis by (simp add: not_less not_le)
  qed
qed

lemma man_wf_setRwnd:
  "man_wf m \<Longrightarrow> in_i32 v \<Longrightarrow> man_wf (upd_sock i (setRwnd v) m)"
  by (rule man_wf_upd_same) (auto intro: wf_intro)

lemma man_wf_onAck_established:
  assumes wf: "man_wf m" and room: "man_room m" and i: "i < length (allSockets m)" and win: "in_i32 (tp_window ack)"
    and st: "sk_state (get_sock i m) = ESTABLISHED \<or> sk_state (get_sock i m) = SHUTDOWN"
  shows "man_wf (fst (onAck_established rt i ack m w))"
  using i
proof (cases rule: onAck_established_cases[of i m ack rt w])
  case ahead with wf show ?thesis by simp
next
  case old with man_wf_setRwnd[OF wf win] show ?thesis by simp
next
  case (new m2 w2)
  have "man_wf (upd_sock i (acked_socket (rt_now rt (io_rt w)) ack) m)"
  proof (rule man_wf_upd[OF wf])
    assume ok: "sock_ok m i (get_sock i m)"
    have "room (get_sock i m)" using room i by (simp add: man_room_def get_sock_def)
    then show "sock_ok m i (acked_socket (rt_now rt (io_rt w)) ack (get_sock i m))"
      by (intro sock_ok_same[OF ok] sock_wf_acked_socket sock_okD(1)[OF ok] new win)
         (use st ok in \<open>auto simp: acked_socket_frame sock_ok_def\<close>)
  qed
  then show ?thesis using man_wf_maybeSendFinOnDrain new by (metis fst_conv)
qed

lemma man_wf_markClosed: "man_wf m \<Longrightarrow> man_wf (upd_sock i markClosed m)"
  by (rule man_wf_upd_same) (auto simp: markClosed_def)

lemma pending_unique:
  assumes ok: "sock_ok m i s" and k: "(k, i) \<in> set (synPendingByKey m)"
  shows "(k', i) \<notin> set (AList.delete k (synPendingByKey m))"
  using sock_okD(2)[OF ok k] sock_okD(2)[OF ok, of k'] by (auto simp: AList.delete_eq)

lemma markEstablished_sel [simp]:
  "localPort (markEstablished s) = localPort s" "remoteAddr (markEstablished s) = remoteAddr s"
  "remotePort (markEstablished s) = remotePort s" "pendingConnQueue (markEstablished s) = pendingConnQueue s"
  "outstanding (markEstablished s) = outstanding s" "recvBuf (markEstablished s) = recvBuf s"
  by (simp_all add: markEstablished_def)

lemma man_wf_onAck [wf_intro]:
  assumes wf: "man_wf m" and room: "man_room m" and win: "in_i32 (tp_window ack)"
  shows "man_wf (fst (onAck rt srcAddr ack m w))"
proof -
  let ?key = "mk_key srcAddr (tp_srcPort ack) (tp_destPort ack)"
  show ?thesis
  proof (cases "map_of (synPendingByKey m) ?key")
    case (Some i)
    have i: "(?key, i) \<in> set (synPendingByKey m)" "i < length (allSockets m)"
      using man_wfD(3)[OF wf Some] by auto
    have ok: "sock_ok m i (get_sock i m)" using man_wfD(1)[OF wf i(2)] .
    let ?p = "AList.delete ?key (synPendingByKey m)"
    let ?m1 = "m\<lparr>synPendingByKey := ?p\<rparr>"
    let ?f = "markEstablished \<circ> setRwnd (tp_window ack)"
    have m1: "man_wf ?m1" using man_wf_delete(1)[OF wf] .
    have m2: "man_wf (upd_sock i ?f ?m1)"
    proof (rule man_wf_upd[OF m1])
      assume ok1: "sock_ok ?m1 i (get_sock i ?m1)"
      have "sock_wf (?f (get_sock i m))"
        using sock_okD(1)[OF ok] sock_okD(2)[OF ok i(1)] win by (auto intro!: wf_intro)
      then show "sock_ok ?m1 i (?f (get_sock i ?m1))"
        by (intro sock_ok_same[OF ok1]) (use pending_unique[OF ok i(1)] in auto)
    qed
    have "man_wf (registerEstablished i srcAddr (tp_srcPort ack) (upd_sock i ?f ?m1))"
      using ok i by (intro man_wf_registerEstablished[OF m2])
        (auto simp: sock_ok_def sock_key_def mk_key_def markEstablished_def)
    moreover have "(upd_sock i ?f m)\<lparr>synPendingByKey := ?p\<rparr> = upd_sock i ?f ?m1"
      by (simp add: upd_sock_def get_sock_def)
    ultimately show ?thesis using wf Some by (simp add: onAck_def Let_def)
  next
    case None
    show ?thesis
    proof (cases "map_of (establishedByKey m) ?key")
      case (Some i)
      have i: "i < length (allSockets m)" using man_wfD(4)[OF wf Some] by auto
      have "man_wf ((upd_sock i markClosed m)\<lparr>establishedByKey := AList.delete ?key (establishedByKey m)\<rparr>)"
        using man_wf_delete(2)[OF man_wf_markClosed[OF wf, of i]] by simp
      with wf None Some man_wf_onAck_established[OF wf room i win] show ?thesis
        by (auto simp: onAck_def Let_def isConnected_def isClosurePending_def)
    qed (use wf None in \<open>simp add: onAck_def\<close>)
  qed
qed


lemma man_wf_onFin [wf_intro]:
  assumes wf: "man_wf m" shows "man_wf (fst (onFin rt srcAddr fin m w))"
proof -
  have f: "man_wf (upd_sock i markPeerFinReceived m)" for i
    by (rule man_wf_upd_same[OF wf]) (auto simp: markPeerFinReceived_def Let_def)
  show ?thesis
    using f wf man_wf_markClosed[OF man_wf_delete(1)[OF wf]]
    by (auto simp: onFin_def Let_def split: option.split)
qed

text \<open>The socket after a data segment that is next in order and fits.\<close>

lemma man_wf_onData [wf_intro]:
  assumes wf: "man_wf m" shows "man_wf (fst (onData rt srcAddr t m w))"
proof -
  have "man_wf (upd_sock i (\<lambda>_. s1\<lparr>rcvNxt := p\<rparr>) m)"
    if s1: "appendToRecvBuf (Some (tp_payload t)) 0 (int (length (tp_payload t))) (get_sock i m) = (n, s1)"
      and st: "isConnected (get_sock i m) \<or> isClosurePending (get_sock i m)" for i n s1 p
  proof (rule man_wf_upd[OF wf])
    assume ok: "sock_ok m i (get_sock i m)"
    have "sock_wf s1" using sock_wf_appendToRecvBuf[OF sock_okD(1)[OF ok], of _ 0] s1
      by (metis drop0 nat_0 order_refl snd_conv)
    then show "sock_ok m i (s1\<lparr>rcvNxt := p\<rparr>)"
    proof (intro sock_ok_same[OF ok])
      fix k assume "(k, i) \<in> set (synPendingByKey m)"
      with ok st have False by (auto simp: sock_ok_def isConnected_def isClosurePending_def)
      then show "outstanding (s1\<lparr>rcvNxt := p\<rparr>) = outstanding (get_sock i m) \<and>
        rcvNxt (s1\<lparr>rcvNxt := p\<rparr>) = rcvNxt (get_sock i m) \<and>
        (sk_state (s1\<lparr>rcvNxt := p\<rparr>) = sk_state (get_sock i m) \<or> sk_state (s1\<lparr>rcvNxt := p\<rparr>) = CLOSED)" ..
    qed (use s1 in \<open>auto simp: appendToRecvBuf_def Let_def split: if_splits\<close>)
  qed
  then show ?thesis using wf
    by (auto simp: onData_def Let_def split: option.split prod.split)
qed

lemma man_wf_receiveTransport [wf_intro]:
  "man_wf m \<Longrightarrow> man_room m \<Longrightarrow> in_i32 (tp_window t) \<Longrightarrow> man_wf (fst (tm_receiveTransport rt a t m w))"
  by (auto simp: tm_receiveTransport_def intro: wf_intro)

lemma resend_all_eq:
  "fst (resend_all rt a s gs w) = map (\<lambda>g. g\<lparr>retransmitted := True\<rparr>) gs"
  by (induction gs arbitrary: w) (auto simp: Let_def split_beta)

lemma seg_chain_marked [simp]:
  "seg_chain a (map (\<lambda>g. g\<lparr>retransmitted := True\<rparr>) gs) b = seg_chain a gs b"
  by (induction gs arbitrary: a) auto

lemma unacked_wf_marked [simp]:
  "unacked_wf (map (\<lambda>g. g\<lparr>retransmitted := True\<rparr>) gs) una nxt = unacked_wf gs una nxt"
  by (cases gs) auto

text \<open>A retransmission changes the window, the timer and the marks, nothing else.\<close>

lemma retransmit_socket_frame:
  assumes "retransmit_socket rt a now s w = (s', w')"
  shows "localPort s' = localPort s" "remoteAddr s' = remoteAddr s" "remotePort s' = remotePort s"
    "pendingConnQueue s' = pendingConnQueue s" "sk_state s' = sk_state s" "sndNxt s' = sndNxt s"
    "sndUna s' = sndUna s" "rcvNxt s' = rcvNxt s" "recvBuf s' = recvBuf s"
    "outstanding s' = outstanding s \<or> outstanding s' = map (\<lambda>g. g\<lparr>retransmitted := True\<rparr>) (outstanding s)"
  using assms resend_all_eq[of rt a "multiplicativeDecreaseCwnd (doubleRto (s\<lparr>timeoutCount := i32 (timeoutCount s + 1)\<rparr>))" "outstanding s" w]
  by (auto simp: retransmit_socket_def Let_def doubleRto_def multiplicativeDecreaseCwnd_def
      split: if_splits prod.splits)

lemma sock_wf_retransmit_socket:
  assumes "sock_wf s" "retransmit_socket rt a now s w = (s', w')"
  shows "sock_wf s'"
proof -
  let ?s1 = "multiplicativeDecreaseCwnd (doubleRto (s\<lparr>timeoutCount := i32 (timeoutCount s + 1)\<rparr>))"
  have s1: "sock_wf ?s1" using assms(1) by (auto intro!: wf_intro)
  then have "sock_wf (?s1\<lparr>outstanding := map (\<lambda>g. g\<lparr>retransmitted := True\<rparr>) (outstanding ?s1)\<rparr>)"
    by (simp add: sock_wf_defs)
  then show ?thesis using assms resend_all_eq[of rt a ?s1 "outstanding ?s1" w]
    by (auto simp: retransmit_socket_def Let_def split: if_splits prod.splits)
qed

lemma man_wf_retransmit_each:
  "man_wf m \<Longrightarrow> man_wf (fst (retransmit_each rt now es m w))"
proof (induction rt now es m w rule: retransmit_each.induct)
  case (2 rt now k i es m w)
  obtain s w1 where r: "retransmit_socket rt (tm_addr m) now (get_sock i m) w = (s, w1)" by fastforce
  note f = retransmit_socket_frame[OF r]
  have "man_wf (upd_sock i (\<lambda>_. s) m)"
  proof (rule man_wf_upd[OF 2(2)])
    assume ok: "sock_ok m i (get_sock i m)"
    show "sock_ok m i s"
      by (rule sock_ok_same[OF ok sock_wf_retransmit_socket[OF sock_okD(1)[OF ok] r]])
         (use f ok in \<open>auto simp: sock_ok_def\<close>)
  qed
  with 2(1)[OF r[symmetric] refl] r show ?case by simp
qed simp

lemma man_wf_retransmissionTick [wf_intro]:
  "man_wf m \<Longrightarrow> man_wf (fst (retransmissionTick rt m w))"
  using man_wf_retransmit_each[of m rt "rt_now rt (io_rt w)" "establishedByKey m" w]
  by (auto simp: retransmissionTick_def Let_def split: prod.split)

section \<open>Reachable managers\<close>

text \<open>What can happen to a manager: the calls the node and its transfer tasks make, a segment
  from the network, the retransmission timer.\<close>

datatype tcp_call =
    CallServer int int
  | CallClient int int int
  | CallAccept nat
  | CallWrite nat "byte list" int int
  | CallRead nat int int
  | CallClose nat
  | CallRelease nat
  | CallReceive int transport
  | CallTick

fun tcp_do :: "'m runtime \<Rightarrow> tcp_call \<Rightarrow> tcp_manager \<Rightarrow> 'm io \<Rightarrow> tcp_manager \<times> 'm io" where
  "tcp_do rt (CallServer port backlog) m w = (snd (snd (open_server port backlog m)), w)"
| "tcp_do rt (CallClient port a p) m w = snd (snd (open_client rt port a p m w))"
| "tcp_do rt (CallAccept i) m w = (snd (tm_accept i m), w)"
| "tcp_do rt (CallWrite i buf pos len) m w = snd (tm_write rt i (Some buf) pos len m w)"
| "tcp_do rt (CallRead i pos len) m w = (snd (tm_read i True pos len m), w)"
| "tcp_do rt (CallClose i) m w = tm_close rt i m w"
| "tcp_do rt (CallRelease i) m w = (tm_release i m, w)"
| "tcp_do rt (CallReceive a t) m w = tm_receiveTransport rt a t m w"
| "tcp_do rt CallTick m w = retransmissionTick rt m w"

text \<open>The caller's side of the contract: it passes a socket it has, a buffer that holds the
  bytes it names, and a segment that \<open>Transport::unpack\<close> returned.\<close>

fun call_ok :: "tcp_call \<Rightarrow> tcp_manager \<Rightarrow> bool" where
  "call_ok (CallAccept i) m \<longleftrightarrow> i < length (allSockets m)"
| "call_ok (CallWrite i buf pos len) m \<longleftrightarrow> i < length (allSockets m) \<and> pos + len \<le> int (length buf)"
| "call_ok (CallRead i pos len) m \<longleftrightarrow> i < length (allSockets m)"
| "call_ok (CallClose i) m \<longleftrightarrow> i < length (allSockets m)"
| "call_ok (CallRelease i) m \<longleftrightarrow> i < length (allSockets m)"
| "call_ok (CallReceive a t) m \<longleftrightarrow> transport_ok t"
| "call_ok _ m \<longleftrightarrow> True"

lemma man_wf_tcp_do:
  assumes wf: "man_wf m" and room: "man_room m" and ok: "call_ok c m"
  shows "man_wf (fst (tcp_do rt c m w))"
proof (cases c)
  case (CallClient port a p)
  then show ?thesis using man_wf_open_client[OF wf] by (cases "open_client rt port a p m w") auto
next
  case (CallWrite i buf pos len)
  then show ?thesis using man_wf_write[OF wf room] ok
    by (cases "tm_write rt i (Some buf) pos len m w") auto
next
  case (CallReceive a t)
  then have "in_i32 (tp_window t)" using ok by (simp add: transport_ok_def)
  with CallReceive wf room show ?thesis by (auto intro: wf_intro)
qed (use wf ok in \<open>auto intro: wf_intro man_wf_open_server man_wf_accept man_wf_read\<close>)

inductive tcp_reachable :: "'m runtime \<Rightarrow> int \<Rightarrow> tcp_manager \<Rightarrow> bool" for rt a where
  start: "tcp_reachable rt a (tcp_manager_ctor a)"
| call: "tcp_reachable rt a m \<Longrightarrow> man_room m \<Longrightarrow> call_ok c m \<Longrightarrow> tcp_do rt c m w = (m', w') \<Longrightarrow>
     tcp_reachable rt a m'"

inductive_cases tcp_reachableE: "tcp_reachable rt a m"

lemma reachable_man_wf: "tcp_reachable rt a m \<Longrightarrow> man_wf m"
proof (induction rule: tcp_reachable.induct)
  case (call m c w m' w')
  then show ?case using man_wf_tcp_do by (metis fst_conv)
qed (rule man_wf_ctor)

section \<open>Properties\<close>

text \<open>C6. The TCP manager's invariant. Whatever the applications call, whichever segments arrive
  (forged ones included) and whenever the timer fires, as long as a connection stays under
  \<open>2 ^ 30\<close> bytes: the tables name existing sockets under their own ports and peers, and every
  socket's queue of unacknowledged segments is a gap-free run that ends at \<open>sndNxt\<close>, with
  its receive buffer, windows and timeout in bounds.\<close>

theorem manager_invariant:
  assumes "tcp_reachable rt a m"
  shows "man_wf m"
  using assms by (rule reachable_man_wf)

theorem manager_invariant_witness:
  "\<exists>m. listenersByPort m = [(20, 0)] \<and> man_wf m"
proof -
  let ?m = "fst (tcp_do null_rt (CallServer 20 5) (tcp_manager_ctor 2) \<lparr>io_rt = (), io_out = []\<rparr>)"
  have "man_room (tcp_manager_ctor 2)" "call_ok (CallServer 20 5) (tcp_manager_ctor 2)"
    by (simp_all add: man_room_def tcp_manager_ctor_def)
  then have "tcp_reachable null_rt 2 ?m"
    using tcp_reachable.call[OF tcp_reachable.start] by (metis prod.collapse)
  moreover have "listenersByPort ?m = [(20, 0)]" by code_simp
  ultimately show ?thesis using manager_invariant by blast
qed


definition demo_manager :: tcp_manager where
  "demo_manager = \<lparr>tm_addr = 2, allSockets = [demo_sock], listenersByPort = [], synPendingByKey = [],
     establishedByKey = [(mk_key 1 10 20, 0)]\<rparr>"


end
