(* ===== verification/Delivery.thy ===== *)
theory Delivery
  imports Tcp_Invariant "HOL-Library.Sublist"
begin

text \<open>
  What \<open>TcpManager\<close> and \<open>TcpSocket\<close> achieve together: two managers joined by a network
  that may lose, duplicate, delay and reorder packets. Every byte that a receiving socket
  hands to its application is the next byte of what was written to the sending socket.
  The network is any runtime that meets the laws of the locale \<open>network\<close>.
\<close>

section \<open>The network as the managers see it\<close>

text \<open>A packet on the wire: who handed it to the runtime, the next hop, the bytes.\<close>

type_synonym wire_pkt = "int \<times> int \<times> byte list"

text \<open>The segment in a packet, with the packet's source: what \<open>StackNode\<close> decodes before it
  calls \<open>receiveTransport\<close>.\<close>

definition decode_pkt :: "byte list \<Rightarrow> (int \<times> transport) option" where
  "decode_pkt bs =
     (case packet_unpack bs of
        None \<Rightarrow> None
      | Some p \<Rightarrow>
          if pk_protocol p \<noteq> TRANSPORT_PKT then None
          else (case transport_unpack (pk_payload p) of
                  None \<Rightarrow> None
                | Some t \<Rightarrow> Some (pk_src p, t)))"

text \<open>The runtimes the theorem covers: \<open>onwire m\<close> are the packets of the state \<open>m\<close> that may
  still be delivered; \<open>sendPkt\<close> adds at most the packet it is given, to one hop or several, and nothing when it
  throws; a timer of a node adds none.\<close>

fun node_timer :: "callback \<Rightarrow> bool" where
  "node_timer (CbPingTimedOut _) \<longleftrightarrow> True"
| "node_timer (CbRetransmissionTick _) \<longleftrightarrow> True"
| "node_timer (CbTaskTick _ _) \<longleftrightarrow> True"
| "node_timer _ \<longleftrightarrow> False"

locale network =
  fixes rt :: "'m runtime" and onwire :: "'m \<Rightarrow> wire_pkt set"
  assumes send_adds: "rt_sendPkt rt f t bs m = (Inr r, m') \<Longrightarrow> onwire m' \<subseteq> onwire m \<union> {(f, t', bs) | t'. True}"
    and send_fails: "rt_sendPkt rt f t bs m = (Inl e, m') \<Longrightarrow> onwire m' \<subseteq> onwire m"
    and timer_adds: "node_timer cb \<Longrightarrow> onwire (rt_addTimer rt addr d (Some cb) m) \<subseteq> onwire m"

text \<open>The segment \<open>(q, d)\<close> carries the bytes of the stream \<open>W\<close> at its position: sequence
  numbers count bytes from 1.\<close>

definition seg_in :: "byte list \<Rightarrow> int \<Rightarrow> byte list \<Rightarrow> bool" where
  "seg_in W q d \<longleftrightarrow> 1 \<le> q \<and> q - 1 + int (length d) \<le> int (length W) \<and>
     take (length d) (drop (nat (q - 1)) W) = d"

text \<open>Data from port \<open>pa\<close> of node \<open>a\<close> is data of the stream.\<close>

definition data_ok :: "int \<Rightarrow> int \<Rightarrow> byte list \<Rightarrow> wire_pkt \<Rightarrow> bool" where
  "data_ok a pa W x \<longleftrightarrow>
     (case decode_pkt (snd (snd x)) of
        None \<Rightarrow> True
      | Some (src, t) \<Rightarrow>
          src = a \<and> tp_type t = DATA \<and> tp_srcPort t = pa \<longrightarrow> seg_in W (tp_seqNum t) (tp_payload t))"

lemma seg_in_append: "seg_in W q d \<Longrightarrow> seg_in (W @ V) q d"
  by (auto simp: seg_in_def)

lemma data_ok_append: "data_ok a pa W x \<Longrightarrow> data_ok a pa (W @ V) x"
  by (auto simp: data_ok_def seg_in_append split: option.splits)

lemma seg_in_snoc: "q = 1 + int (length W) \<Longrightarrow> seg_in (W @ d) q d"
  by (simp add: seg_in_def)

lemma decode_packed:
  assumes t: "transport_ctor sp dp ty win q d = Inr t"
    and p: "packet_ctor dest addr MAX_TTL TRANSPORT_PKT 0 (transport_pack t) = Inr p"
  shows "decode_pkt (packet_pack p) = Some (addr, t\<lparr>tp_window := i32 win, tp_seqNum := i32 q\<rparr>)"
proof -
  let ?t = "t\<lparr>tp_window := i32 win, tp_seqNum := i32 q\<rparr>"
  have ok: "transport_ok ?t" and "transport_pack ?t = transport_pack t"
    using t by (auto simp: transport_ctor_def transport_ok_def transport_pack_def split: if_splits)
  then have "transport_unpack (transport_pack t) = Some ?t" using tp.unpack_pack[OF ok] by simp
  moreover have "packet_ok p" "pk_src p = addr" "pk_protocol p = TRANSPORT_PKT" "pk_payload p = transport_pack t"
    using p by (auto simp: packet_ctor_def packet_ok_def packet_isValid_def cxx_const in_i32_def split: if_splits)
  ultimately show ?thesis
    using pkt.unpack_pack by (simp add: decode_pkt_def)
qed

text \<open>\<open>w'\<close> has only packets of \<open>w\<close> and packets that satisfy \<open>P\<close>.\<close>

definition adds :: "('m \<Rightarrow> wire_pkt set) \<Rightarrow> (wire_pkt \<Rightarrow> bool) \<Rightarrow> 'm io \<Rightarrow> 'm io \<Rightarrow> bool" where
  "adds net P w w' \<longleftrightarrow> (\<forall>x \<in> net (io_rt w'). x \<in> net (io_rt w) \<or> P x)"

lemma adds_refl [simp]: "io_rt w' = io_rt w \<Longrightarrow> adds net P w w'"
  by (simp add: adds_def)

lemma adds_trans: "adds net P w w1 \<Longrightarrow> adds net P w1 w2 \<Longrightarrow> adds net P w w2"
  by (auto simp: adds_def)

lemma adds_mono: "adds net P w w1 \<Longrightarrow> (\<And>x. P x \<Longrightarrow> Q x) \<Longrightarrow> adds net Q w w1"
  by (auto simp: adds_def)

lemma adds_out [simp]:
  "adds net P w (cout s w') = adds net P w w'" "adds net P (cout s w) w' = adds net P w w'"
  "adds net P w (logError x s w') = adds net P w w'"
  by (simp_all add: adds_def)

context network
begin

lemma adds_timer [simp]: "node_timer cb \<Longrightarrow> adds onwire P w w' \<Longrightarrow> adds onwire P w (addTimer_io rt a d (Some cb) w')"
  using timer_adds by (force simp: adds_def addTimer_io_def)

lemma send_segment_adds:
  assumes s: "send_segment rt addr sp dest dp ty win q d mark failed w = (ok, w')"
    and P: "ok \<Longrightarrow> addr = a \<Longrightarrow> ty = DATA \<Longrightarrow> sp = pa \<Longrightarrow> seg_in W (i32 q) d"
  shows "adds onwire (data_ok a pa W) w w'"
proof -
  have new: "data_ok a pa W (addr, dest', packet_pack p)"
    if "transport_ctor sp dp ty win q d = Inr t" "packet_ctor dest addr MAX_TTL TRANSPORT_PKT 0 (transport_pack t) = Inr p" ok
    for t p dest'
    using decode_packed[OF that(1,2)] P[OF that(3)] that(1)
    by (auto simp: data_ok_def transport_ctor_def split: if_splits)
  show ?thesis
    using s new send_adds send_fails
    by (fastforce simp: send_segment_def adds_def split: sum.splits prod.splits)
qed

lemma send_control_adds:
  "ty \<noteq> DATA \<Longrightarrow> adds onwire (data_ok a pa W) w (snd (send_segment rt addr sp dest dp ty win q d mark failed w))"
  by (rule send_segment_adds[OF prod.collapse[symmetric]]) simp

lemma control_adds:
  "adds onwire (data_ok a pa W) w (snd (sendSyn rt addr s da dp w))"
  "adds onwire (data_ok a pa W) w (snd (sendFin rt addr s da dp w))"
  "adds onwire (data_ok a pa W) w (snd (sendAck rt addr sp da dp n adv win w))"
  "adds onwire (data_ok a pa W) w (snd (sendFinFromPorts rt addr sp da dp w))"
  by (simp_all add: sendSyn_def sendFin_def sendAck_def sendFinFromPorts_def send_control_adds cxx_const)

text \<open>The handlers send control segments only.\<close>

lemma maybeSendFinOnDrain_adds: "adds onwire (data_ok a pa W) w (snd (maybeSendFinOnDrain rt i m w))"
  using control_adds(2)[of a pa W w]
  by (auto simp: maybeSendFinOnDrain_def Let_def split_beta split: bool.split)

lemma onAck_adds: "adds onwire (data_ok a pa W) w (snd (onAck rt src t m w))"
  using maybeSendFinOnDrain_adds
  by (auto simp: onAck_def onAck_established_def Let_def split_beta split: option.split)

lemma receive_adds: "adds onwire (data_ok a pa W) w (snd (tm_receiveTransport rt src t m w))"
proof -
  have "adds onwire (data_ok a pa W) w (snd (onSyn rt src t m w))"
       "adds onwire (data_ok a pa W) w (snd (onFin rt src t m w))"
       "adds onwire (data_ok a pa W) w (snd (onData rt src t m w))" for w
    using control_adds[of a pa W w] control_adds(3)[of a pa W "cout ''!'' w"] control_adds(3)[of a pa W "cout ''.'' w"]
    by (auto simp: onSyn_def onFin_def onData_def Let_def split_beta split: option.split)
  from this[of "cout ''S'' w"] this[of "cout ''F'' w"] this[of w] onAck_adds
  show ?thesis by (simp add: tm_receiveTransport_def)
qed

lemma connect_adds: "adds onwire (data_ok a pa W) w (snd (snd (tm_connect rt i da dp m w)))"
  using control_adds(1)[of a pa W w]
  by (auto simp: tm_connect_def Let_def split_beta split: bool.split)

lemma close_adds: "adds onwire (data_ok a pa W) w (snd (tm_close rt i m w))"
  using maybeSendFinOnDrain_adds by (simp add: tm_close_def Let_def)

text \<open>Data is sent by \<open>write\<close> and by the retransmission timer.\<close>

lemma write_loop_adds:
  assumes "write_loop rt addr buf pos len tot s w = (r, s', w')"
    and "0 \<le> pos" "pos + len \<le> int (length buf)" "write_safe s"
    and "addr = a \<Longrightarrow> localPort s = pa \<Longrightarrow> sndNxt s = 1 + int (length W)"
  shows "adds onwire (data_ok a pa (W @ take (nat (sndNxt s' - sndNxt s)) (drop (nat pos) buf))) w w'"
  using assms
proof (induction "nat len" arbitrary: pos len tot s w W rule: less_induct)
  case less
  from less.prems(4) show ?case
  proof (cases rule: write_loop_step[of s rt addr buf pos len tot w])
    case stop
    with less.prems(1) show ?thesis by simp
  next
    case (failed c w1)
    with less.prems(1) send_segment_adds[OF failed(6)[unfolded sendData_def], of a pa]
    show ?thesis by simp
  next
    case (sent c w1)
    let ?s1 = "push_seg buf pos c (rt_now rt (io_rt w1)) s"
    let ?d = "take (nat c) (drop (nat pos) buf)"
    let ?n = "sndNxt s' - sndNxt ?s1"
    have len: "length ?d = nat c" using sent less.prems by simp
    have eff: "sndNxt s + c < 2 ^ 31" "0 \<le> sndNxt s"
      using sent(5) less.prems(4) by (auto simp: write_safe_def effectiveWindow_def)
    have lp: "localPort ?s1 = localPort s" by (simp add: push_seg_def)
    have rec: "write_loop rt addr buf (pos + c) (len - c) (tot + c) ?s1 w1 = (r, s', w')"
      using sent(1) less.prems(1) by simp
    have safe1: "write_safe ?s1" using write_safe_push[OF less.prems(4) sent(2,5)] .
    have n0: "0 \<le> ?n"
    proof -
      obtain n segs where "0 \<le> n" "written_by buf (pos + c) ?s1 n segs s'"
        using write_loop_spec[OF rec _ _ safe1] less.prems(2,3) sent(2) by auto
      then show ?thesis by (auto simp: written_by_def push_seg_def)
    qed
    have "adds onwire (data_ok a pa (W @ ?d)) w w1"
    proof (rule send_segment_adds[OF sent(6)[unfolded sendData_def]])
      assume "addr = a" "localPort s = pa"
      with less.prems(5) have "sndNxt s = 1 + int (length W)" by blast
      moreover have "i32 (sndNxt s) = sndNxt s" using eff sent(2) by (intro i32_id) (auto simp: in_i32_def)
      ultimately show "seg_in (W @ ?d) (i32 (sndNxt s)) ?d" by (simp add: seg_in_snoc)
    qed
    then have 1: "adds onwire (data_ok a pa ((W @ ?d) @ V)) w w1" for V
      using adds_mono data_ok_append by blast
    have 2: "adds onwire (data_ok a pa ((W @ ?d) @ take (nat ?n) (drop (nat (pos + c)) buf))) w1 w'"
      using less.prems sent len lp
      by (intro less.hyps[of "len - c" "pos + c" "tot + c" ?s1, OF _ rec _ _ safe1]) auto
    have eq: "?d @ take (nat ?n) (drop (nat (pos + c)) buf) = take (nat (sndNxt s' - sndNxt s)) (drop (nat pos) buf)"
      using take_drop_split[of pos c ?n buf] less.prems(2) sent(2) n0 by simp
    show ?thesis using adds_trans[OF 1 2] eq by simp
  qed
qed

end

context network
begin

lemma write_adds:
  assumes w: "sk_write rt addr (Some buf) pos len s w = (r, s', w')"
    and wf: "sock_wf s" "room s" and buf: "pos + len \<le> int (length buf)"
    and W: "addr = a \<Longrightarrow> localPort s = pa \<Longrightarrow> sndNxt s = 1 + int (length W)"
  shows "adds onwire (data_ok a pa (W @ take (nat (sndNxt s' - sndNxt s)) (drop (nat pos) buf))) w w'"
proof -
  consider "w' = w" 
    | r0 s1 where "0 \<le> pos" "write_loop rt addr buf pos len 0 s w = (r0, s1, w')" "sndNxt s' = sndNxt s1"
    using w by (auto simp: sk_write_def Let_def split: if_splits option.splits prod.splits)
  then show ?thesis
  proof cases
    case 2
    with write_loop_adds[OF 2(2,1) buf sock_wf_write_safe[OF wf], of a pa W] W show ?thesis by simp
  qed simp
qed

lemma resend_all_adds:
  assumes "\<And>g. g \<in> set gs \<Longrightarrow> addr = a \<Longrightarrow> localPort s = pa \<Longrightarrow> seg_in W (i32 (seqStart g)) (seg_data g)"
  shows "adds onwire (data_ok a pa W) w (snd (resend_all rt addr s gs w))"
  using assms
proof (induction gs arbitrary: w)
  case (Cons g gs)
  let ?w1 = "snd (sendData rt addr s (remoteAddr s) (remotePort s) (seqStart g) (seg_data g) True w)"
  have "adds onwire (data_ok a pa W) w ?w1"
    using Cons.prems[of g] unfolding sendData_def
    by (intro send_segment_adds[OF prod.collapse[symmetric]]) auto
  moreover have "adds onwire (data_ok a pa W) ?w1 (snd (resend_all rt addr s gs ?w1))"
    using Cons by auto
  ultimately show ?case using adds_trans by (fastforce simp: Let_def split_beta)
qed simp

lemma retransmit_adds:
  assumes r: "retransmit_socket rt addr now s w = (s', w')"
    and "\<And>g. g \<in> set (outstanding s) \<Longrightarrow> addr = a \<Longrightarrow> localPort s = pa \<Longrightarrow> seg_in W (i32 (seqStart g)) (seg_data g)"
  shows "adds onwire (data_ok a pa W) w w'"
  using assms(2) resend_all_adds[of "outstanding s" addr a
      "multiplicativeDecreaseCwnd (doubleRto (s\<lparr>timeoutCount := i32 (timeoutCount s + 1)\<rparr>))" pa W w] r
  by (auto simp: retransmit_socket_def Let_def split_beta doubleRto_def multiplicativeDecreaseCwnd_def
      split: if_splits)

text \<open>The segments a socket could send again are data of the stream.\<close>

lemma retransmit_each_adds:
  assumes "\<And>i g. i < length (allSockets m) \<Longrightarrow> g \<in> set (outstanding (get_sock i m)) \<Longrightarrow> tm_addr m = a \<Longrightarrow>
      localPort (get_sock i m) = pa \<Longrightarrow> seg_in W (i32 (seqStart g)) (seg_data g)"
    and "\<And>k i. (k, i) \<in> set es \<Longrightarrow> i < length (allSockets m)"
  shows "adds onwire (data_ok a pa W) w (snd (retransmit_each rt now es m w))"
  using assms
proof (induction es arbitrary: m w)
  case (Cons e es)
  obtain k i where e: "e = (k, i)" by fastforce
  obtain s w1 where r: "retransmit_socket rt (tm_addr m) now (get_sock i m) w = (s, w1)" by fastforce
  have i: "i < length (allSockets m)" using Cons.prems(2) e by auto
  have 1: "adds onwire (data_ok a pa W) w w1"
    using Cons.prems(1)[OF i] by (rule retransmit_adds[OF r])
  have "adds onwire (data_ok a pa W) w1 (snd (retransmit_each rt now es (upd_sock i (\<lambda>_. s) m) w1))"
  proof (rule Cons.IH)
    fix j g assume j: "j < length (allSockets (upd_sock i (\<lambda>_. s) m))"
      and g: "g \<in> set (outstanding (get_sock j (upd_sock i (\<lambda>_. s) m)))" "tm_addr (upd_sock i (\<lambda>_. s) m) = a"
      "localPort (get_sock j (upd_sock i (\<lambda>_. s) m)) = pa"
    show "seg_in W (i32 (seqStart g)) (seg_data g)"
    proof (cases "j = i")
      case True
      with g i retransmit_socket_frame[OF r] obtain h where
        "h \<in> set (outstanding (get_sock i m))" "seqStart g = seqStart h" "seg_data g = seg_data h"
        by auto
      with Cons.prems(1)[OF i] g True i retransmit_socket_frame(1)[OF r] show ?thesis by auto
    next
      case False
      with Cons.prems(1)[of j g] j g show ?thesis by simp
    qed
  qed (use Cons.prems(2) in auto)
  with 1 show ?case using adds_trans by (simp add: e r split_beta) blast
qed simp

end

section \<open>What an operation leaves of the other sockets\<close>

text \<open>\<open>calm s s'\<close>: neither stream of the socket moved, and its ports and peer are unchanged or
  cleared by \<open>release\<close>.\<close>

definition same_conn :: "tcp_socket \<Rightarrow> tcp_socket \<Rightarrow> bool" where
  "same_conn s s' \<longleftrightarrow> (localPort s' = localPort s \<and> remoteAddr s' = remoteAddr s \<and> remotePort s' = remotePort s) \<or>
     (localPort s' = - 1 \<and> remoteAddr s' = - 1 \<and> remotePort s' = - 1)"

definition seg_key :: "outstanding_seg \<Rightarrow> int \<times> byte list" where
  "seg_key g = (seqStart g, seg_data g)"

definition calm :: "tcp_socket \<Rightarrow> tcp_socket \<Rightarrow> bool" where
  "calm s s' \<longleftrightarrow> same_conn s s' \<and> sndNxt s' = sndNxt s \<and>
     seg_key ` set (outstanding s') \<subseteq> seg_key ` set (outstanding s) \<and>
     rcvNxt s' = rcvNxt s \<and> recvBuf s' = recvBuf s"

lemma calm_refl [simp]: "calm s s"
  by (simp add: calm_def same_conn_def)

lemma calm_trans:
  assumes "calm s t" "calm t u" shows "calm s u"
proof -
  have "same_conn s u" using assms by (auto simp: calm_def same_conn_def)
  moreover have "seg_key ` set (outstanding u) \<subseteq> seg_key ` set (outstanding s)"
    using assms unfolding calm_def by (meson order_trans)
  ultimately show ?thesis using assms by (simp add: calm_def)
qed

lemma calm_upd:
  "calm (get_sock i m) (f (get_sock i m)) \<Longrightarrow> calm (get_sock j m) (get_sock j (upd_sock i f m))"
  by (cases "i = j"; cases "i < length (allSockets m)") (auto simp: upd_sock_def get_sock_def not_less list_update_beyond)

lemma calm_simple [simp]:
  "calm s (s\<lparr>sk_state := st\<rparr>)" "calm s (s\<lparr>pendingConnQueue := q\<rparr>)" "calm s (s\<lparr>finSeq := n\<rparr>)"
  "calm s (s\<lparr>sk_state := st, sk_backlog := n\<rparr>)"
  "calm s (s\<lparr>pendingConnQueue := q, sk_backlog := n, remoteAddr := - 1, remotePort := - 1, localPort := - 1, sk_state := st\<rparr>)"
  "calm s (markClosed s)" "calm s (markPeerFinReceived s)" "calm s (setRwnd v s)" "calm s (enqueueAccepted c s)"
  by (auto simp: calm_def same_conn_def markClosed_def markPeerFinReceived_def enqueueAccepted_def Let_def)

definition calm_all :: "tcp_manager \<Rightarrow> tcp_manager \<Rightarrow> bool" where
  "calm_all m m' \<longleftrightarrow> length (allSockets m') = length (allSockets m) \<and> tm_addr m' = tm_addr m \<and>
     set (listenersByPort m') \<subseteq> set (listenersByPort m) \<and> set (synPendingByKey m') \<subseteq> set (synPendingByKey m) \<and>
     (\<forall>j. calm (get_sock j m) (get_sock j m'))"

lemma calm_all_refl [simp]: "calm_all m m"
  by (simp add: calm_all_def)

lemma calm_all_trans: "calm_all m n \<Longrightarrow> calm_all n k \<Longrightarrow> calm_all m k"
  unfolding calm_all_def using calm_trans by auto blast+

lemma calm_all_upd: "calm (get_sock i m) (f (get_sock i m)) \<Longrightarrow> calm_all m (upd_sock i f m)"
  by (simp add: calm_all_def calm_upd)

lemma calm_all_accept: "calm_all m (snd (tm_accept i m))"
  using calm_all_trans[OF calm_all_upd calm_all_upd]
  by (auto simp: tm_accept_def Let_def calm_all_upd split: list.split)

lemma calm_all_release: "calm_all m (tm_release i m)"
proof -
  have "calm_all m (unregisterSocket i m)" by (auto simp: calm_all_def unregisterSocket_def)
  then show ?thesis using calm_all_trans calm_all_upd by (simp add: tm_release_def)
qed

lemma calm_all_maybeSendFinOnDrain: "calm_all m (fst (maybeSendFinOnDrain rt i m w))"
  using calm_all_trans[OF calm_all_upd calm_all_release] calm_all_upd
  by (auto simp: maybeSendFinOnDrain_def Let_def split_beta split: bool.split)

lemma calm_all_close: "calm_all m (fst (tm_close rt i m w))"
  by (auto simp: tm_close_def Let_def intro: calm_all_trans[OF calm_all_upd calm_all_maybeSendFinOnDrain] calm_all_upd)

lemma pop_acked_subset: "set (snd (pop_acked ack gs l)) \<subseteq> set gs"
  by (induction ack gs l rule: pop_acked.induct) auto

lemma calm_acked_socket: "calm s (acked_socket now ack s)"
  using pop_acked_subset by (simp add: calm_def same_conn_def acked_socket_frame image_mono)

lemma calm_all_onAck_established:
  assumes "i < length (allSockets m)"
  shows "calm_all m (fst (onAck_established rt i ack m w))"
  using assms
proof (cases rule: onAck_established_cases[of i m ack rt w])
  case (new m2 w2)
  then show ?thesis
    using calm_all_trans[OF calm_all_upd[of _ m "acked_socket (rt_now rt (io_rt w)) ack"] calm_all_maybeSendFinOnDrain]
    by (metis calm_acked_socket fst_conv)
qed (auto simp: calm_all_upd)

lemma calm_all_onFin: "calm_all m (fst (onFin rt src t m w))"
proof -
  have "calm_all m (m\<lparr>synPendingByKey := AList.delete k (synPendingByKey m)\<rparr>)" for k
    by (auto simp: calm_all_def AList.delete_eq)
  then show ?thesis using calm_all_trans[OF _ calm_all_upd] calm_all_upd
    by (auto simp: onFin_def Let_def split: option.split)
qed

lemma calm_all_tick: "calm_all m (fst (retransmissionTick rt m w))"
proof -
  have "calm_all m (fst (retransmit_each rt now es m w))" for now es w
  proof (induction es arbitrary: m w)
    case (Cons e es)
    obtain k i where e: "e = (k, i)" by fastforce
    obtain s w1 where r: "retransmit_socket rt (tm_addr m) now (get_sock i m) w = (s, w1)" by fastforce
    have "calm (get_sock i m) s"
      using retransmit_socket_frame[OF r] by (auto simp: calm_def same_conn_def seg_key_def)
    then have "calm_all m (upd_sock i (\<lambda>_. s) m)"
      by (rule calm_all_upd)
    then show ?case using Cons calm_all_trans by (fastforce simp: e r split_beta)
  qed simp
  then show ?thesis by (simp add: retransmissionTick_def Let_def split_beta)
qed

text \<open>Operations that add a socket, bound to \<open>port\<close>.\<close>

definition opens :: "int \<Rightarrow> tcp_manager \<Rightarrow> tcp_manager \<Rightarrow> bool" where
  "opens port m m' \<longleftrightarrow>
     (let n = length (allSockets m); s = get_sock n m'
      in length (allSockets m') = Suc n \<and> tm_addr m' = tm_addr m \<and>
         set (listenersByPort m') \<subseteq> insert (port, n) (set (listenersByPort m)) \<and>
         (\<forall>(k, i) \<in> set (synPendingByKey m'). i = n \<or> (k, i) \<in> set (synPendingByKey m)) \<and>
         (\<forall>j < n. calm (get_sock j m) (get_sock j m')) \<and>
         localPort s = port \<and> recvBuf s = [] \<and> (rcvNxt s = 0 \<or> rcvNxt s = 1))"

lemma opens_server: "opens port m (snd (snd (open_server port backlog m)))"
  by (auto simp: opens_def open_server_def tm_socket_def tm_bind_def tm_listen_def sk_bind_def upd_sock_def
      get_sock_def registerListener_def Let_def tcp_socket_ctor_def nth_append dest!: set_mp[OF set_update_subset])

lemma opens_client: "opens port m (fst (snd (snd (open_client rt port da dp m w))))"
  by (auto simp: opens_def open_client_def tm_socket_def tm_bind_def tm_connect_def sk_bind_def upd_sock_def
      get_sock_def registerSynPending_def Let_def tcp_socket_ctor_def nth_append split_beta
      split: bool.split dest!: set_mp[OF set_update_subset])

lemma get_sock_registerEstablished [simp]: "get_sock j (registerEstablished i a p m) = get_sock j m"
  by (simp add: registerEstablished_def)

lemma onSyn_effect:
  assumes wf: "man_wf m"
  shows "fst (onSyn rt src t m w) = m \<or>
    (\<exists>l. (tp_destPort t, l) \<in> set (listenersByPort m) \<and> opens (tp_destPort t) m (fst (onSyn rt src t m w)))"
proof (cases "map_of (listenersByPort m) (tp_destPort t)")
  case (Some l)
  have l: "(tp_destPort t, l) \<in> set (listenersByPort m)" "l < length (allSockets m)"
    using man_wfD(2)[OF wf Some] by auto
  obtain c m1 where s: "tm_socket m = (c, m1)" by fastforce
  note g = get_sock_socket[OF s]
  let ?m2 = "upd_sock c (initAccepted (tp_destPort t) src (tp_srcPort t)) m1"
  let ?m3 = "upd_sock l (enqueueAccepted c) ?m2"
  let ?m4 = "registerEstablished c src (tp_srcPort t) ?m3"
  have eq: "fst (onSyn rt src t m w) = ?m4" using Some s by (simp add: onSyn_def Let_def)
  have new: "get_sock c ?m4 = initAccepted (tp_destPort t) src (tp_srcPort t) tcp_socket_ctor"
    using g l by auto
  have old: "calm (get_sock j m) (get_sock j ?m4)" if "j < length (allSockets m)" for j
  proof -
    have "get_sock j ?m2 = get_sock j m" using that g by auto
    then show ?thesis using calm_upd[of l ?m2 "enqueueAccepted c" j] by simp
  qed
  have "opens (tp_destPort t) m ?m4"
    using g new old by (auto simp: opens_def Let_def initAccepted_def registerEstablished_def)
  then show ?thesis using l eq by auto
qed (simp add: onSyn_def)

lemma onAck_effect:
  assumes wf: "man_wf m"
  shows "calm_all m (fst (onAck rt src t m w)) \<or>
    (\<exists>k i m1. (k, i) \<in> set (synPendingByKey m) \<and> i < length (allSockets m) \<and>
       calm_all m m1 \<and> fst (onAck rt src t m w) = upd_sock i markEstablished m1)"
proof -
  let ?key = "mk_key src (tp_srcPort t) (tp_destPort t)"
  show ?thesis
  proof (cases "map_of (synPendingByKey m) ?key")
    case (Some i)
    have i: "(?key, i) \<in> set (synPendingByKey m)" "i < length (allSockets m)"
      using man_wfD(3)[OF wf Some] by auto
    let ?r = "upd_sock i (setRwnd (tp_window t)) m"
    let ?m1 = "?r\<lparr>synPendingByKey := AList.delete ?key (synPendingByKey m),
        establishedByKey := AList.update (mk_key src (tp_srcPort t) (localPort (get_sock i m))) i (establishedByKey m)\<rparr>"
    have "calm_all ?r ?m1" by (auto simp: calm_all_def AList.delete_eq get_sock_def)
    then have "calm_all m ?m1" using calm_all_trans calm_all_upd calm_simple(8) by blast
    moreover have "fst (onAck rt src t m w) = m \<or> fst (onAck rt src t m w) = upd_sock i markEstablished ?m1"
      using Some i
      by (simp add: onAck_def Let_def registerEstablished_def upd_sock_def get_sock_def)
    ultimately show ?thesis using i calm_all_refl by metis
  next
    case None
    have close: "calm_all m ((upd_sock i markClosed m)\<lparr>establishedByKey := e\<rparr>)" for i e
      using calm_all_upd[of i m markClosed] by (simp add: calm_all_def)
    show ?thesis
    proof (cases "map_of (establishedByKey m) ?key")
      case (Some i)
      have "calm_all m (fst (onAck_established rt i t m w))"
        using calm_all_onAck_established man_wfD(4)[OF wf Some] by blast
      then have "calm_all m (fst (onAck rt src t m w))"
        using None Some close by (simp add: onAck_def Let_def)
      then show ?thesis ..
    qed (use None in \<open>simp add: onAck_def\<close>)
  qed
qed

lemma onData_effect:
  assumes wf: "man_wf m"
  shows "fst (onData rt src t m w) = m \<or>
    (\<exists>i. i < length (allSockets m) \<and> remoteAddr (get_sock i m) = src \<and> remotePort (get_sock i m) = tp_srcPort t \<and>
       rcvNxt (get_sock i m) = tp_seqNum t \<and>
       fst (onData rt src t m w) = upd_sock i (\<lambda>s. s\<lparr>recvBuf := recvBuf s @ tp_payload t,
         recvBufUsed := recvBufUsed s + int (length (tp_payload t)),
         rcvNxt := i32 (rcvNxt s + int (length (tp_payload t)))\<rparr>) m)"
proof (cases "map_of (establishedByKey m) (mk_key src (tp_srcPort t) (tp_destPort t))")
  case (Some i)
  have i: "i < length (allSockets m)" "remoteAddr (get_sock i m) = src" "remotePort (get_sock i m) = tp_srcPort t"
    using man_wfD(4)[OF wf Some] sock_okD(3)[OF man_wfD(1)[OF wf]] by (auto simp: sock_key_def mk_key_def)
  show ?thesis
    using Some i
    by (auto simp: onData_def Let_def appendToRecvBuf_def getRecvBufAvailable_def upd_sock_def
        split: if_splits)
qed (simp add: onData_def)

section \<open>The connection as a transition system\<close>

record 'm conn_sys =
  sys_A :: tcp_manager
  sys_B :: tcp_manager
  sys_io :: "'m io"
  sys_written :: "byte list"
  sys_read :: "nat \<Rightarrow> byte list"

text \<open>The node of the sender may do anything but use its local port \<open>pa\<close> a second time. The
  bytes a call adds to the stream are the ones that got a sequence number.\<close>

fun port_free :: "int \<Rightarrow> tcp_call \<Rightarrow> bool" where
  "port_free pa (CallServer p _) \<longleftrightarrow> p \<noteq> pa"
| "port_free pa (CallClient p _ _) \<longleftrightarrow> p \<noteq> pa"
| "port_free pa _ \<longleftrightarrow> True"

fun new_bytes :: "nat \<Rightarrow> tcp_call \<Rightarrow> tcp_manager \<Rightarrow> tcp_manager \<Rightarrow> byte list" where
  "new_bytes sk (CallWrite i buf pos len) m m' =
     (if i = sk then take (nat (sndNxt (get_sock sk m') - sndNxt (get_sock sk m))) (drop (nat pos) buf) else [])"
| "new_bytes sk _ m m' = []"

text \<open>The node of the receiver may do anything; the data segments it gets from port \<open>pa\<close> of
  the sender's node are ones that are on the wire, all other segments are arbitrary.\<close>

fun authentic :: "int \<Rightarrow> int \<Rightarrow> wire_pkt set \<Rightarrow> tcp_call \<Rightarrow> bool" where
  "authentic a pa net (CallReceive src t) \<longleftrightarrow>
     (src = a \<and> tp_type t = DATA \<and> tp_srcPort t = pa \<longrightarrow> (\<exists>x \<in> net. decode_pkt (snd (snd x)) = Some (src, t)))"
| "authentic a pa net _ \<longleftrightarrow> True"

fun read_bytes :: "tcp_call \<Rightarrow> tcp_manager \<Rightarrow> (nat \<Rightarrow> byte list) \<Rightarrow> nat \<Rightarrow> byte list" where
  "read_bytes (CallRead i pos len) m rd = rd(i := rd i @ snd (fst (tm_read i True pos len m)))"
| "read_bytes _ m rd = rd"

inductive conn_step :: "'m runtime \<Rightarrow> ('m \<Rightarrow> wire_pkt set) \<Rightarrow> nat \<Rightarrow> int \<Rightarrow> 'm conn_sys \<Rightarrow> 'm conn_sys \<Rightarrow> bool"
  for rt onwire sk pa where
  sender: "tcp_do rt c (sys_A g) (sys_io g) = (m, w) \<Longrightarrow> call_ok c (sys_A g) \<Longrightarrow> man_room (sys_A g) \<Longrightarrow>
     port_free pa c \<Longrightarrow>
     conn_step rt onwire sk pa g
       (g\<lparr>sys_A := m, sys_io := w, sys_written := sys_written g @ new_bytes sk c (sys_A g) m\<rparr>)"
| receiver: "tcp_do rt c (sys_B g) (sys_io g) = (m, w) \<Longrightarrow> call_ok c (sys_B g) \<Longrightarrow> man_room (sys_B g) \<Longrightarrow>
     authentic (tm_addr (sys_A g)) pa (onwire (io_rt (sys_io g))) c \<Longrightarrow>
     conn_step rt onwire sk pa g
       (g\<lparr>sys_B := m, sys_io := w, sys_read := read_bytes c (sys_B g) (sys_read g)\<rparr>)"
| wire: "onwire (io_rt w) \<subseteq> onwire (io_rt (sys_io g)) \<Longrightarrow>
     conn_step rt onwire sk pa g (g\<lparr>sys_io := w\<rparr>)"

inductive_cases conn_stepE: "conn_step rt onwire sk pa g g'"

definition recv_ok :: "byte list \<Rightarrow> byte list \<Rightarrow> tcp_socket \<Rightarrow> bool" where
  "recv_ok W r s \<longleftrightarrow> 0 \<le> rcvNxt s \<and> rcvNxt s \<le> 1 + int (length W) \<and>
     r @ recvBuf s = take (nat (rcvNxt s - 1)) W"

definition sender_inv :: "int \<Rightarrow> nat \<Rightarrow> byte list \<Rightarrow> tcp_manager \<Rightarrow> bool" where
  "sender_inv pa sk W m \<longleftrightarrow> man_wf m \<and> sk < length (allSockets m) \<and>
     sk \<notin> snd ` set (synPendingByKey m) \<and> pa \<notin> fst ` set (listenersByPort m) \<and>
     (\<forall>i < length (allSockets m). i \<noteq> sk \<longrightarrow> localPort (get_sock i m) \<noteq> pa) \<and>
     sndNxt (get_sock sk m) = 1 + int (length W) \<and>
     (\<forall>g \<in> set (outstanding (get_sock sk m)). seg_in W (seqStart g) (seg_data g))"

definition receiver_inv :: "int \<Rightarrow> int \<Rightarrow> byte list \<Rightarrow> (nat \<Rightarrow> byte list) \<Rightarrow> tcp_manager \<Rightarrow> bool" where
  "receiver_inv a pa W rd m \<longleftrightarrow> man_wf m \<and> tm_addr m \<noteq> a \<and>
     (\<forall>i < length (allSockets m). remoteAddr (get_sock i m) = a \<and> remotePort (get_sock i m) = pa \<longrightarrow>
        recv_ok W (rd i) (get_sock i m)) \<and>
     (\<forall>i \<ge> length (allSockets m). rd i = [])"

definition conn_inv :: "('m \<Rightarrow> wire_pkt set) \<Rightarrow> nat \<Rightarrow> int \<Rightarrow> 'm conn_sys \<Rightarrow> bool" where
  "conn_inv onwire sk pa g \<longleftrightarrow> 0 \<le> pa \<and>
     sender_inv pa sk (sys_written g) (sys_A g) \<and>
     receiver_inv (tm_addr (sys_A g)) pa (sys_written g) (sys_read g) (sys_B g) \<and>
     (\<forall>x \<in> onwire (io_rt (sys_io g)). data_ok (tm_addr (sys_A g)) pa (sys_written g) x)"

section \<open>The invariant is kept\<close>

subsection \<open>Sender\<close>

text \<open>What the sender's invariant needs of a change of its manager.\<close>

definition snd_frame :: "int \<Rightarrow> nat \<Rightarrow> tcp_manager \<Rightarrow> tcp_manager \<Rightarrow> bool" where
  "snd_frame pa sk m m' \<longleftrightarrow> length (allSockets m) \<le> length (allSockets m') \<and> tm_addr m' = tm_addr m \<and>
     pa \<notin> fst ` (set (listenersByPort m') - set (listenersByPort m)) \<and>
     sk \<notin> snd ` (set (synPendingByKey m') - set (synPendingByKey m)) \<and>
     (\<forall>j < length (allSockets m). same_conn (get_sock j m) (get_sock j m')) \<and>
     (\<forall>j \<ge> length (allSockets m). j < length (allSockets m') \<longrightarrow> localPort (get_sock j m') \<noteq> pa) \<and>
     sndNxt (get_sock sk m') = sndNxt (get_sock sk m) \<and>
     seg_key ` set (outstanding (get_sock sk m')) \<subseteq> seg_key ` set (outstanding (get_sock sk m))"

lemma sender_inv_frame:
  assumes inv: "sender_inv pa sk W m" and pa: "0 \<le> pa" and wf: "man_wf m'" and f: "snd_frame pa sk m m'"
  shows "sender_inv pa sk W m'"
proof -
  have port: "localPort (get_sock i m') \<noteq> pa" if "i < length (allSockets m')" "i \<noteq> sk" for i
  proof (cases "i < length (allSockets m)")
    case True
    then have "same_conn (get_sock i m) (get_sock i m')" using f by (simp add: snd_frame_def)
    moreover have "localPort (get_sock i m) \<noteq> pa" using inv True that by (simp add: sender_inv_def)
    ultimately show ?thesis using pa by (auto simp: same_conn_def)
  next
    case False
    with that f show ?thesis by (simp add: snd_frame_def)
  qed
  have seg: "seg_in W (seqStart g) (seg_data g)" if "g \<in> set (outstanding (get_sock sk m'))" for g
  proof -
    have "seg_key g \<in> seg_key ` set (outstanding (get_sock sk m))" using f that by (auto simp: snd_frame_def)
    then obtain h where "h \<in> set (outstanding (get_sock sk m))" "seg_key g = seg_key h" by auto
    with inv show ?thesis by (auto simp: sender_inv_def seg_key_def)
  qed
  have tab: "sk \<notin> snd ` set (synPendingByKey m')" "pa \<notin> fst ` set (listenersByPort m')"
    using f inv unfolding snd_frame_def sender_inv_def by blast+
  show ?thesis using inv wf f tab port seg unfolding sender_inv_def snd_frame_def by auto
qed

lemma snd_frame_calm: "calm_all m m' \<Longrightarrow> snd_frame pa sk m m'"
  by (auto simp: snd_frame_def calm_all_def calm_def)

lemma snd_frame_opens:
  "opens port m m' \<Longrightarrow> port \<noteq> pa \<Longrightarrow> sk < length (allSockets m) \<Longrightarrow> snd_frame pa sk m m'"
  by (auto simp: snd_frame_def opens_def Let_def calm_def less_Suc_eq)

lemma snd_frame_upd:
  assumes "i = sk \<Longrightarrow> sndNxt (f (get_sock sk m)) = sndNxt (get_sock sk m) \<and>
      outstanding (f (get_sock sk m)) = outstanding (get_sock sk m)"
    and "same_conn (get_sock i m) (f (get_sock i m))" "sk < length (allSockets m)" "i < length (allSockets m)"
  shows "snd_frame pa sk m (upd_sock i f m)"
proof -
  have "same_conn (get_sock j m) (get_sock j (upd_sock i f m))" for j
    using assms(2,4) by (cases "j = i") (auto simp: same_conn_def)
  then show ?thesis using assms by (cases "i = sk") (auto simp: snd_frame_def)
qed

lemma snd_frame_established:
  assumes c: "calm_all m m1" and i: "i \<noteq> sk" "i < length (allSockets m)"
  shows "snd_frame pa sk m (upd_sock i markEstablished m1)"
proof -
  have len: "length (allSockets m1) = length (allSockets m)" and cj: "\<And>j. calm (get_sock j m) (get_sock j m1)"
    using c by (auto simp: calm_all_def)
  have "same_conn (get_sock j m) (get_sock j (upd_sock i markEstablished m1))" for j
    using cj[of j] i len by (cases "j = i") (auto simp: same_conn_def calm_def)
  then show ?thesis using c cj[of sk] i(1) by (auto simp: snd_frame_def calm_all_def calm_def)
qed

lemma snd_frame_receive:
  assumes inv: "sender_inv pa sk W m" and pa: "0 \<le> pa"
  shows "snd_frame pa sk m (fst (tm_receiveTransport rt src t m w))"
proof -
  have wf: "man_wf m" and sk: "sk < length (allSockets m)" using inv by (auto simp: sender_inv_def)
  have lis: "(pa, l) \<notin> set (listenersByPort m)" for l
    using inv unfolding sender_inv_def by (metis fst_conv image_eqI)
  have pend: "(k, sk) \<notin> set (synPendingByKey m)" for k
    using inv unfolding sender_inv_def by (metis snd_conv image_eqI)
  have refl: "snd_frame pa sk m m" by (simp add: snd_frame_calm)
  have syn: "snd_frame pa sk m (fst (onSyn rt src t m w))" for w
    using onSyn_effect[OF wf, of rt src t w]
  proof (elim disjE exE conjE)
    fix l assume l: "(tp_destPort t, l) \<in> set (listenersByPort m)" "opens (tp_destPort t) m (fst (onSyn rt src t m w))"
    then have "tp_destPort t \<noteq> pa" using lis by metis
    with l(2) sk show ?thesis by (intro snd_frame_opens)
  qed (simp add: refl)
  have ack: "snd_frame pa sk m (fst (onAck rt src t m w))" for w
    using onAck_effect[OF wf, of rt src t w]
  proof (elim disjE exE conjE)
    fix k i m1 assume i: "(k, i) \<in> set (synPendingByKey m)" "i < length (allSockets m)" "calm_all m m1"
      "fst (onAck rt src t m w) = upd_sock i markEstablished m1"
    then have "i \<noteq> sk" using pend by metis
    with i show ?thesis by (simp add: snd_frame_established)
  qed (simp add: snd_frame_calm)
  have data: "snd_frame pa sk m (fst (onData rt src t m w))" for w
    using onData_effect[OF wf, of rt src t w] refl sk
    by (auto simp: same_conn_def intro!: snd_frame_upd)
  show ?thesis
    using syn ack data snd_frame_calm[OF calm_all_onFin] refl by (auto simp: tm_receiveTransport_def)
qed

lemma snd_frame_read:
  assumes "sk < length (allSockets m)"
  shows "snd_frame pa sk m (snd (tm_read i nn pos len m))"
proof (cases "i < length (allSockets m)")
  case True
  then show ?thesis using assms
    by (auto simp: tm_read_def split_beta same_conn_def intro!: snd_frame_upd)
next
  case False
  then have "snd (tm_read i nn pos len m) = m"
    by (simp add: tm_read_def split_beta upd_sock_def list_update_beyond)
  then show ?thesis by (simp add: snd_frame_calm)
qed


lemma sock_wf_seq_in_i32:
  "sock_wf s \<Longrightarrow> g \<in> set (outstanding s) \<Longrightarrow> i32 (seqStart g) = seqStart g"
proof -
  assume wf: "sock_wf s" and g: "g \<in> set (outstanding s)"
  obtain a where a: "seg_chain a (outstanding s) (sndNxt s)" "0 \<le> a" "in_i32 (sndNxt s)"
    using sock_wf_chain[OF wf] by metis
  then show ?thesis using seg_chain_mem[OF a(1) g] by (intro i32_id) (auto simp: in_i32_def)
qed

lemma sender_inv_write_other:
  assumes inv: "sender_inv pa sk W m" and pa: "0 \<le> pa" and room: "man_room m"
    and ok: "pos + len \<le> int (length buf)" and i: "i \<noteq> sk"
    and w: "tm_write rt i (Some buf) pos len m w = (r, m', w')"
  shows "sender_inv pa sk W m'"
proof -
  have wf: "man_wf m" and sk: "sk < length (allSockets m)" using inv by (auto simp: sender_inv_def)
  obtain s' where s': "sk_write rt (tm_addr m) (Some buf) pos len (get_sock i m) w = (r, s', w')"
    and m': "m' = upd_sock i (\<lambda>_. s') m"
    using w by (auto simp: tm_write_def split: prod.splits)
  have "snd_frame pa sk m m'"
  proof (cases "i < length (allSockets m)")
    case True
    then have "sock_wf (get_sock i m)" "room (get_sock i m)"
      using man_wfD(1)[OF wf] room by (auto simp: man_room_def get_sock_def dest: sock_okD)
    then have "same_conn (get_sock i m) s'"
      using sk_write_frame[OF s'] ok by (simp add: same_conn_def)
    with i sk True show ?thesis unfolding m' by (intro snd_frame_upd) auto
  next
    case False
    then have "m' = m" by (simp add: m' upd_sock_def list_update_beyond)
    then show ?thesis by (simp add: snd_frame_calm)
  qed
  then show ?thesis using sender_inv_frame[OF inv pa] man_wf_write[OF wf room ok w] by blast
qed

lemma sender_inv_write:
  assumes inv: "sender_inv pa sk W m" and room: "man_room m"
    and ok: "pos + len \<le> int (length buf)"
    and w: "tm_write rt sk (Some buf) pos len m w = (r, m', w')"
  shows "sender_inv pa sk (W @ take (nat (sndNxt (get_sock sk m') - sndNxt (get_sock sk m))) (drop (nat pos) buf)) m'"
proof -
  have wf: "man_wf m" and sk: "sk < length (allSockets m)" using inv by (auto simp: sender_inv_def)
  let ?s = "get_sock sk m"
  obtain s' where s': "sk_write rt (tm_addr m) (Some buf) pos len ?s w = (r, s', w')"
    and m': "m' = upd_sock sk (\<lambda>_. s') m"
    using w by (auto simp: tm_write_def split: prod.splits)
  have swf: "sock_wf ?s" "room ?s"
    using sk man_wfD(1)[OF wf] room by (auto simp: man_room_def get_sock_def dest: sock_okD)
  obtain n segs where n: "0 \<le> n" "n \<le> max 0 len"
    and wb: "written_by buf pos ?s n segs (s'\<lparr>nextRtoDeadlineMs := nextRtoDeadlineMs ?s\<rparr>)"
    using sk_write_spec[OF s' swf ok] by blast
  have e: "s'\<lparr>nextRtoDeadlineMs := nextRtoDeadlineMs ?s\<rparr> = ?s\<lparr>outstanding := outstanding ?s @ segs, sndNxt := sndNxt ?s + n\<rparr>"
    and ch: "seg_chain (sndNxt ?s) segs (sndNxt ?s + n)"
    and dat: "concat (map seg_data segs) = take (nat n) (drop (nat pos) buf)"
    using wb by (auto simp: written_by_def)
  have nx: "sndNxt s' = sndNxt ?s + n" and out: "outstanding s' = outstanding ?s @ segs"
    using arg_cong[OF e, of sndNxt] arg_cong[OF e, of outstanding] by simp_all
  let ?d = "take (nat n) (drop (nat pos) buf)"
  have W: "sndNxt ?s = 1 + int (length W)" using inv by (simp add: sender_inv_def)
  have len: "int (length ?d) = n" using seg_chain_bytes[OF ch] dat by simp
  have fresh: "seg_in (V @ concat (map seg_data segs)) (seqStart g) (seg_data g)"
    if "seg_chain (1 + int (length V)) segs b" "g \<in> set segs" for V segs b g
    using that
  proof (induction segs arbitrary: V)
    case (Cons h segs)
    show ?case
    proof (cases "g = h")
      case True
      then show ?thesis using Cons.prems seg_in_append[OF seg_in_snoc[of "seqStart h" V "seg_data h"]] by auto
    next
      case False
      then show ?thesis using Cons.IH[of "V @ seg_data h"] Cons.prems by (auto simp: add.assoc)
    qed
  qed simp
  have "seg_in (W @ ?d) (seqStart g) (seg_data g)" if "g \<in> set (outstanding s')" for g
    using that out inv fresh[of W segs _ g] ch W dat by (auto simp: sender_inv_def intro: seg_in_append)
  moreover have "man_wf m'" using man_wf_write[OF wf room ok w] .
  ultimately show ?thesis
    using inv sk len nx W by (auto simp: sender_inv_def m')
qed

lemma sender_inv_step:
  assumes inv: "sender_inv pa sk W m" and pa: "0 \<le> pa" and room: "man_room m"
    and ok: "call_ok c m" "port_free pa c" and do: "tcp_do rt c m w = (m', w')"
  shows "sender_inv pa sk (W @ new_bytes sk c m m') m'"
proof -
  have wf: "man_wf m" and sk: "sk < length (allSockets m)" using inv by (auto simp: sender_inv_def)
  have wf': "man_wf m'" using man_wf_tcp_do[OF wf room ok(1), of rt w] do by simp
  note frame = sender_inv_frame[OF inv pa wf']
  show ?thesis
  proof (cases c)
    case (CallServer port backlog)
    then show ?thesis using frame[OF snd_frame_opens] opens_server[of port m backlog] ok do sk by auto
  next
    case (CallClient port da dp)
    then show ?thesis using frame[OF snd_frame_opens] opens_client[of port m rt da dp w] ok do sk by auto
  next
    case (CallAccept i)
    then show ?thesis using frame[OF snd_frame_calm] calm_all_accept[of m i] do by auto
  next
    case (CallWrite i buf pos len)
    then obtain r where r: "tm_write rt i (Some buf) pos len m w = (r, m', w')"
      using do by (cases "tm_write rt i (Some buf) pos len m w") auto
    show ?thesis
      using sender_inv_write[OF inv room, of pos len buf rt w] sender_inv_write_other[OF inv pa room _ _ r] r ok CallWrite
      by (cases "i = sk") auto
  next
    case (CallRead i pos len)
    then show ?thesis using frame snd_frame_read[OF sk, of pa i True pos len] do by auto
  next
    case (CallClose i)
    then show ?thesis using frame[OF snd_frame_calm] calm_all_close[of m rt i w] do by auto
  next
    case (CallRelease i)
    then show ?thesis using frame[OF snd_frame_calm] calm_all_release[of m i] do by auto
  next
    case (CallReceive src t)
    then show ?thesis using frame snd_frame_receive[OF inv pa, of rt src t w] do by auto
  next
    case CallTick
    then show ?thesis using frame[OF snd_frame_calm] calm_all_tick[of m rt w] do by auto
  qed
qed

subsection \<open>Receiver\<close>

lemma recv_ok_mono: "recv_ok W r s \<Longrightarrow> recv_ok (W @ V) r s"
  by (auto simp: recv_ok_def)

lemma receiver_inv_mono: "receiver_inv a pa W rd m \<Longrightarrow> receiver_inv a pa (W @ V) rd m"
  by (auto simp: receiver_inv_def recv_ok_mono)

lemma recv_ok_calm: "recv_ok W r s \<Longrightarrow> rcvNxt s' = rcvNxt s \<Longrightarrow> recvBuf s' = recvBuf s \<Longrightarrow> recv_ok W r s'"
  by (simp add: recv_ok_def)

text \<open>What the receiver's invariant needs of a change of its manager, reads apart.\<close>

definition rcv_frame :: "int \<Rightarrow> int \<Rightarrow> byte list \<Rightarrow> tcp_manager \<Rightarrow> tcp_manager \<Rightarrow> bool" where
  "rcv_frame a pa W m m' \<longleftrightarrow> length (allSockets m) \<le> length (allSockets m') \<and> tm_addr m' = tm_addr m \<and>
     (\<forall>j < length (allSockets m). same_conn (get_sock j m) (get_sock j m') \<and>
        (\<forall>r. recv_ok W r (get_sock j m) \<and> remoteAddr (get_sock j m) = a \<and> remotePort (get_sock j m) = pa \<longrightarrow>
           recv_ok W r (get_sock j m') \<and> rcvNxt (get_sock j m) \<le> rcvNxt (get_sock j m'))) \<and>
     (\<forall>j \<ge> length (allSockets m). j < length (allSockets m') \<longrightarrow>
        recvBuf (get_sock j m') = [] \<and> (rcvNxt (get_sock j m') = 0 \<or> rcvNxt (get_sock j m') = 1))"

lemma receiver_inv_frame:
  assumes inv: "receiver_inv a pa W rd m" and pa: "0 \<le> pa" and wf: "man_wf m'" and f: "rcv_frame a pa W m m'"
  shows "receiver_inv a pa W rd m'"
proof -
  have "recv_ok W (rd i) (get_sock i m')"
    if i: "i < length (allSockets m')" and p: "remoteAddr (get_sock i m') = a" "remotePort (get_sock i m') = pa" for i
  proof (cases "i < length (allSockets m)")
    case True
    then have "same_conn (get_sock i m) (get_sock i m')" using f by (simp add: rcv_frame_def)
    then have "remoteAddr (get_sock i m) = a \<and> remotePort (get_sock i m) = pa"
      using p pa by (auto simp: same_conn_def)
    with inv f True show ?thesis by (auto simp: rcv_frame_def receiver_inv_def)
  next
    case False
    then have "rd i = []" using inv by (simp add: receiver_inv_def)
    moreover have "recvBuf (get_sock i m') = []" "rcvNxt (get_sock i m') = 0 \<or> rcvNxt (get_sock i m') = 1"
      using f i False by (auto simp: rcv_frame_def)
    ultimately show ?thesis by (auto simp: recv_ok_def)
  qed
  with inv wf f show ?thesis by (auto simp: receiver_inv_def rcv_frame_def)
qed

lemma rcv_frame_calm: "calm_all m m' \<Longrightarrow> rcv_frame a pa W m m'"
  by (auto simp: rcv_frame_def calm_all_def calm_def recv_ok_def)

lemma rcv_frame_opens: "opens port m m' \<Longrightarrow> rcv_frame a pa W m m'"
  by (auto simp: rcv_frame_def opens_def Let_def calm_def recv_ok_def less_Suc_eq)

lemma rcv_frame_upd:
  assumes "i < length (allSockets m)" "same_conn (get_sock i m) (f (get_sock i m))"
    and "\<And>r. recv_ok W r (get_sock i m) \<Longrightarrow> remoteAddr (get_sock i m) = a \<Longrightarrow> remotePort (get_sock i m) = pa \<Longrightarrow>
       recv_ok W r (f (get_sock i m)) \<and> rcvNxt (get_sock i m) \<le> rcvNxt (f (get_sock i m))"
  shows "rcv_frame a pa W m (upd_sock i f m)"
proof -
  have "same_conn (get_sock j m) (get_sock j (upd_sock i f m)) \<and>
     (\<forall>r. recv_ok W r (get_sock j m) \<and> remoteAddr (get_sock j m) = a \<and> remotePort (get_sock j m) = pa \<longrightarrow>
         recv_ok W r (get_sock j (upd_sock i f m)) \<and> rcvNxt (get_sock j m) \<le> rcvNxt (get_sock j (upd_sock i f m)))" for j
    using assms by (cases "j = i") (auto simp: same_conn_def)
  then show ?thesis by (simp add: rcv_frame_def) blast
qed

lemma rcv_frame_established:
  assumes c: "calm_all m m1" and i: "i < length (allSockets m)" and z: "rcvNxt (get_sock i m) = 0"
  shows "rcv_frame a pa W m (upd_sock i markEstablished m1)"
proof -
  have len: "length (allSockets m1) = length (allSockets m)" and cj: "\<And>j. calm (get_sock j m) (get_sock j m1)"
    using c by (auto simp: calm_all_def)
  have z1: "rcvNxt (get_sock i m1) = 0" "recvBuf (get_sock i m1) = recvBuf (get_sock i m)"
    using cj[of i] z by (auto simp: calm_def)
  have "same_conn (get_sock j m) (get_sock j (upd_sock i markEstablished m1)) \<and>
     (\<forall>r. recv_ok W r (get_sock j m) \<longrightarrow> recv_ok W r (get_sock j (upd_sock i markEstablished m1)) \<and>
        rcvNxt (get_sock j m) \<le> rcvNxt (get_sock j (upd_sock i markEstablished m1)))" for j
    using cj[of j] i len z z1 
    by (cases "j = i") (auto simp: same_conn_def calm_def recv_ok_def markEstablished_def)
  then show ?thesis using c by (auto simp: rcv_frame_def calm_all_def)
qed

text \<open>A data segment of the stream that is next in order extends the received prefix.\<close>

lemma recv_ok_data:
  assumes r: "recv_ok W r s" and seg: "seg_in W (rcvNxt s) d" and W: "int (length W) < 2 ^ 31 - 1"
  shows "recv_ok W r (s\<lparr>recvBuf := recvBuf s @ d, recvBufUsed := u, rcvNxt := i32 (rcvNxt s + int (length d))\<rparr>) \<and>
    rcvNxt s \<le> i32 (rcvNxt s + int (length d))"
proof -
  have "i32 (rcvNxt s + int (length d)) = rcvNxt s + int (length d)"
    using seg W by (intro i32_id) (auto simp: in_i32_def seg_in_def)
  moreover have "take (nat (rcvNxt s + int (length d) - 1)) W =
      take (nat (rcvNxt s - 1)) W @ take (length d) (drop (nat (rcvNxt s - 1)) W)"
    using seg by (subst take_add[symmetric]) (auto simp: seg_in_def intro!: arg_cong[where f = "\<lambda>n. take n W"])
  ultimately show ?thesis using r seg by (auto simp: recv_ok_def seg_in_def)
qed

lemma rcv_frame_receive:
  assumes wf: "man_wf m" and W: "int (length W) < 2 ^ 31 - 1"
    and auth: "src = a \<Longrightarrow> tp_type t = DATA \<Longrightarrow> tp_srcPort t = pa \<Longrightarrow> seg_in W (tp_seqNum t) (tp_payload t)"
  shows "rcv_frame a pa W m (fst (tm_receiveTransport rt src t m w))"
proof -
  have refl: "rcv_frame a pa W m m" by (simp add: rcv_frame_calm)
  have syn: "rcv_frame a pa W m (fst (onSyn rt src t m w))" for w
    using onSyn_effect[OF wf, of rt src t w] rcv_frame_opens refl by metis
  have ack: "rcv_frame a pa W m (fst (onAck rt src t m w))" for w
    using onAck_effect[OF wf, of rt src t w]
  proof (elim disjE exE conjE)
    fix k i m1 assume i: "(k, i) \<in> set (synPendingByKey m)" "i < length (allSockets m)" "calm_all m m1"
      "fst (onAck rt src t m w) = upd_sock i markEstablished m1"
    then have "rcvNxt (get_sock i m) = 0" using sock_okD(2)[OF man_wfD(1)[OF wf i(2)] i(1)] by simp
    with i show ?thesis by (simp add: rcv_frame_established)
  qed (simp add: rcv_frame_calm)
  have data: "rcv_frame a pa W m (fst (onData rt src t m w))" if "tp_type t = DATA" for w
    using onData_effect[OF wf, of rt src t w]
  proof (elim disjE exE conjE)
    fix i assume i: "i < length (allSockets m)" "remoteAddr (get_sock i m) = src"
      "remotePort (get_sock i m) = tp_srcPort t" "rcvNxt (get_sock i m) = tp_seqNum t"
      and u: "fst (onData rt src t m w) = upd_sock i (\<lambda>s. s\<lparr>recvBuf := recvBuf s @ tp_payload t,
         recvBufUsed := recvBufUsed s + int (length (tp_payload t)),
         rcvNxt := i32 (rcvNxt s + int (length (tp_payload t)))\<rparr>) m"
    show ?thesis unfolding u
    proof (rule rcv_frame_upd[OF i(1)])
      fix r assume "recv_ok W r (get_sock i m)" "remoteAddr (get_sock i m) = a" "remotePort (get_sock i m) = pa"
      with auth that i W recv_ok_data[of W r "get_sock i m" "tp_payload t"]
      show "recv_ok W r (get_sock i m\<lparr>recvBuf := recvBuf (get_sock i m) @ tp_payload t,
         recvBufUsed := recvBufUsed (get_sock i m) + int (length (tp_payload t)),
         rcvNxt := i32 (rcvNxt (get_sock i m) + int (length (tp_payload t)))\<rparr>) \<and>
         rcvNxt (get_sock i m) \<le> rcvNxt (get_sock i m\<lparr>recvBuf := recvBuf (get_sock i m) @ tp_payload t,
         recvBufUsed := recvBufUsed (get_sock i m) + int (length (tp_payload t)),
         rcvNxt := i32 (rcvNxt (get_sock i m) + int (length (tp_payload t)))\<rparr>)" by simp
    qed (simp add: same_conn_def)
  qed (simp add: refl)
  show ?thesis
    using syn ack data rcv_frame_calm[OF calm_all_onFin] refl by (auto simp: tm_receiveTransport_def)
qed

lemma rcv_frame_write:
  assumes wf: "man_wf m" and room: "man_room m" and ok: "pos + len \<le> int (length buf)"
    and w: "tm_write rt i (Some buf) pos len m w = (r, m', w')"
  shows "rcv_frame a pa W m m'"
proof -
  obtain s' where s': "sk_write rt (tm_addr m) (Some buf) pos len (get_sock i m) w = (r, s', w')"
    and m': "m' = upd_sock i (\<lambda>_. s') m"
    using w by (auto simp: tm_write_def split: prod.splits)
  show ?thesis
  proof (cases "i < length (allSockets m)")
    case True
    then have "sock_wf (get_sock i m)" "room (get_sock i m)"
      using man_wfD(1)[OF wf] room by (auto simp: man_room_def get_sock_def dest: sock_okD)
    note f = sk_write_frame[OF s' this ok]
    show ?thesis unfolding m'
      by (rule rcv_frame_upd[OF True]) (use f in \<open>auto simp: same_conn_def recv_ok_def\<close>)
  next
    case False
    then have "m' = m" by (simp add: m' upd_sock_def list_update_beyond)
    then show ?thesis by (simp add: rcv_frame_calm)
  qed
qed

text \<open>A read moves bytes from the buffer to the application.\<close>

lemma sk_read_moves:
  "snd (fst (sk_read nn pos len s)) @ recvBuf (snd (sk_read nn pos len s)) = recvBuf s"
  by (auto simp: sk_read_def Let_def)

lemma receiver_inv_read:
  assumes inv: "receiver_inv a pa W rd m" and i: "i < length (allSockets m)"
  shows "receiver_inv a pa W (rd(i := rd i @ snd (fst (tm_read i True pos len m)))) (snd (tm_read i True pos len m))"
proof -
  have wf: "man_wf m" using inv by (simp add: receiver_inv_def)
  let ?s = "get_sock i m"
  have e: "tm_read i True pos len m = (fst (sk_read True pos len ?s), upd_sock i (\<lambda>_. snd (sk_read True pos len ?s)) m)"
    by (simp add: tm_read_def split_beta)
  have mv: "snd (fst (sk_read True pos len ?s)) @ recvBuf (snd (sk_read True pos len ?s)) = recvBuf ?s"
    by (rule sk_read_moves)
  have "recv_ok W (rd i @ snd (fst (sk_read True pos len ?s))) (snd (sk_read True pos len ?s))"
    if "recv_ok W (rd i) ?s"
    using that mv by (simp add: recv_ok_def)
  then show ?thesis
    using inv i man_wf_read[OF wf, of i True pos len] by (auto simp: receiver_inv_def e)
qed

text \<open>Every call of the receiver's node but a read.\<close>

lemma rcv_frame_do:
  assumes wf: "man_wf m" and room: "man_room m" and W: "int (length W) < 2 ^ 31 - 1"
    and ok: "call_ok c m" and do: "tcp_do rt c m w = (m', w')" and nr: "\<And>i pos len. c \<noteq> CallRead i pos len"
    and auth: "\<And>src t. c = CallReceive src t \<Longrightarrow> src = a \<Longrightarrow> tp_type t = DATA \<Longrightarrow> tp_srcPort t = pa \<Longrightarrow>
       seg_in W (tp_seqNum t) (tp_payload t)"
  shows "rcv_frame a pa W m m'"
proof (cases c)
  case (CallServer port backlog)
  then show ?thesis using rcv_frame_opens[OF opens_server[of port m backlog]] do by auto
next
  case (CallClient port da dp)
  then show ?thesis using rcv_frame_opens[OF opens_client[of port m rt da dp w]] do by auto
next
  case (CallAccept i)
  then show ?thesis using rcv_frame_calm[OF calm_all_accept[of m i]] do by auto
next
  case (CallWrite i buf pos len)
  then obtain r where r: "tm_write rt i (Some buf) pos len m w = (r, m', w')"
    using do by (cases "tm_write rt i (Some buf) pos len m w") auto
  show ?thesis using rcv_frame_write[OF wf room _ r] ok CallWrite by auto
next
  case (CallRead i pos len)
  then show ?thesis using nr by blast
next
  case (CallClose i)
  then show ?thesis using rcv_frame_calm[OF calm_all_close[of m rt i w]] do by auto
next
  case (CallRelease i)
  then show ?thesis using rcv_frame_calm[OF calm_all_release[of m i]] do by auto
next
  case (CallReceive src t)
  have "rcv_frame a pa W m (fst (tm_receiveTransport rt src t m w))"
    using auth[OF CallReceive] by (rule rcv_frame_receive[OF wf W])
  then show ?thesis using do CallReceive by simp
next
  case CallTick
  then show ?thesis using rcv_frame_calm[OF calm_all_tick[of m rt w]] do by auto
qed

lemma receiver_inv_step:
  assumes inv: "receiver_inv a pa W rd m" and pa: "0 \<le> pa" and room: "man_room m" and W: "int (length W) < 2 ^ 31 - 1"
    and ok: "call_ok c m" and do: "tcp_do rt c m w = (m', w')"
    and auth: "\<And>src t. c = CallReceive src t \<Longrightarrow> src = a \<Longrightarrow> tp_type t = DATA \<Longrightarrow> tp_srcPort t = pa \<Longrightarrow>
       seg_in W (tp_seqNum t) (tp_payload t)"
  shows "receiver_inv a pa W (read_bytes c m rd) m'"
proof -
  have wf: "man_wf m" using inv by (auto simp: receiver_inv_def)
  have wf': "man_wf m'" using man_wf_tcp_do[OF wf room ok(1), of rt w] do by simp
  show ?thesis
  proof (cases "\<exists>i pos len. c = CallRead i pos len")
    case True
    then show ?thesis using receiver_inv_read[OF inv] do ok by auto
  next
    case False
    have "rcv_frame a pa W m m'" using False auth by (intro rcv_frame_do[OF wf room W ok do]) blast+
    moreover have "read_bytes c m rd = rd" using False by (cases c) auto
    ultimately show ?thesis using receiver_inv_frame[OF inv pa wf'] by simp
  qed
qed

lemma open_client_world:
  "snd (snd (snd (open_client rt port da dp m w))) =
     snd (snd (tm_connect rt (fst (tm_socket m)) da dp (snd (tm_bind (fst (tm_socket m)) port (snd (tm_socket m)))) w))"
  by (simp add: open_client_def split_beta Let_def)

context network
begin

text \<open>A write adds to the wire what its sends add.\<close>

lemma write_sends:
  assumes send: "\<And>s' da dp q d w. localPort s' = localPort s \<Longrightarrow> adds onwire P w (snd (sendData rt addr s' da dp q d False w))"
  shows "adds onwire P w (snd (snd (sk_write rt addr buf pos len s w)))"
proof -
  have "adds onwire P w (snd (snd (write_loop rt addr bs pos len tot s' w)))" if "localPort s' = localPort s" for bs pos len tot s' w
    using that
  proof (induction "nat len" arbitrary: pos len tot s' w rule: less_induct)
    case less
    let ?c = "min len (min (i32 (effectiveWindow s' - i32 (sndNxt s' - sndUna s'))) TP_MAX_PAYLOAD_SIZE)"
    obtain ok w1 where sd: "sendData rt addr s' (remoteAddr s') (remotePort s') (sndNxt s')
        (take (nat ?c) (drop (nat pos) bs)) False w = (ok, w1)" by fastforce
    have k1: "adds onwire P w w1"
      using send[OF less.prems, of w "remoteAddr s'" "remotePort s'" "sndNxt s'" "take (nat ?c) (drop (nat pos) bs)"] sd by simp
    show ?case
    proof (cases "0 < len \<and> 0 < ?c")
      case True
      then have "nat (len - ?c) < nat len" by simp
      from adds_trans[OF k1 less.hyps[OF this]] k1 less.prems show ?thesis
        by (subst write_loop.simps) (simp add: Let_def sd split: bool.split del: min_less_iff_conj)
    next
      case False
      then have "len \<le> 0 \<or> ?c \<le> 0" by linarith
      then show ?thesis by (subst write_loop.simps) (auto simp: Let_def simp del: min_le_iff_disj)
    qed
  qed
  from this[of s w "the buf" pos len 0] show ?thesis
    by (auto simp: sk_write_def Let_def split_beta split: option.split prod.split)
qed

lemma write_foreign_adds:
  assumes w: "sk_write rt addr (Some buf) pos len s w = (r, s', w')" and "\<not> (addr = a \<and> localPort s = pa)"
  shows "adds onwire (data_ok a pa V) w w'"
proof -
  have "adds onwire (data_ok a pa V) w (snd (snd (sk_write rt addr (Some buf) pos len s w)))"
  proof (rule write_sends)
    fix s' :: tcp_socket and da dp q d w assume "localPort s' = localPort s"
    then show "adds onwire (data_ok a pa V) w (snd (sendData rt addr s' da dp q d False w))"
      unfolding sendData_def using assms(2) by (intro send_segment_adds[OF prod.collapse[symmetric]]) auto
  qed
  then show ?thesis by (simp add: w)
qed

text \<open>A call of a manager at \<open>addr\<close> puts only data of the stream on the wire.\<close>

lemma tcp_do_adds:
  assumes wf: "man_wf m" and room: "man_room m" and ok: "call_ok c m" and do: "tcp_do rt c m w = (m', w')"
    and own: "tm_addr m = a \<Longrightarrow> sender_inv pa sk W m"
  shows "adds onwire (data_ok a pa (W @ new_bytes sk c m m')) w w'"
proof (cases c)
  case (CallClient port da dp)
  then have "w' = snd (snd (snd (open_client rt port da dp m w)))" using do by simp
  then show ?thesis using connect_adds CallClient by (simp add: open_client_world)
next
  case (CallWrite i buf pos len)
  obtain r s' where s': "sk_write rt (tm_addr m) (Some buf) pos len (get_sock i m) w = (r, s', w')"
    and m': "m' = upd_sock i (\<lambda>_. s') m"
    using do CallWrite by (auto simp: tm_write_def split: prod.splits)
  have i: "i < length (allSockets m)" using ok CallWrite by simp
  have swf: "sock_wf (get_sock i m)" "room (get_sock i m)"
    using i man_wfD(1)[OF wf] room by (auto simp: man_room_def get_sock_def dest: sock_okD)
  show ?thesis
  proof (cases "tm_addr m = a \<and> localPort (get_sock i m) = pa")
    case True
    then have "i = sk" "sndNxt (get_sock i m) = 1 + int (length W)"
      using own i by (auto simp: sender_inv_def)
    then show ?thesis using write_adds[OF s' swf, of a pa W] ok CallWrite i by (simp add: m')
  next
    case False
    then show ?thesis using write_foreign_adds[OF s'] by blast
  qed
next
  case (CallClose i)
  then show ?thesis using do close_adds[of a pa W w i m] by simp
next
  case (CallReceive src t)
  then show ?thesis using do receive_adds[of a pa W w src t m] by simp
next
  case CallTick
  have "adds onwire (data_ok a pa W) w (snd (retransmit_each rt (rt_now rt (io_rt w)) (establishedByKey m) m w))"
  proof (rule retransmit_each_adds)
    fix i g assume i: "i < length (allSockets m)" and g: "g \<in> set (outstanding (get_sock i m))"
      and a: "tm_addr m = a" "localPort (get_sock i m) = pa"
    then have "i = sk" "seg_in W (seqStart g) (seg_data g)" using own by (auto simp: sender_inv_def)
    then show "seg_in W (i32 (seqStart g)) (seg_data g)"
      using sock_wf_seq_in_i32[OF sock_okD(1)[OF man_wfD(1)[OF wf i]] g] by simp
  qed (use wf in \<open>auto simp: man_wf_def table_ok_def\<close>)
  then show ?thesis using do CallTick
    by (auto simp: retransmissionTick_def Let_def split_beta)
qed (use do in auto)

end

lemma calm_all_addr: "calm_all m m' \<Longrightarrow> tm_addr m' = tm_addr m"
  by (simp add: calm_all_def)

lemma opens_addr: "opens port m m' \<Longrightarrow> tm_addr m' = tm_addr m"
  by (simp add: opens_def Let_def)

lemmas call_addr = calm_all_accept[THEN calm_all_addr] calm_all_close[THEN calm_all_addr]
  calm_all_release[THEN calm_all_addr] calm_all_tick[THEN calm_all_addr] calm_all_onFin[THEN calm_all_addr]
  opens_server[THEN opens_addr] opens_client[THEN opens_addr]

lemma receive_addr:
  assumes wf: "man_wf m"
  shows "tm_addr (fst (tm_receiveTransport rt src t m w)) = tm_addr m"
proof -
  have "tm_addr (fst (onAck rt src t m w)) = tm_addr m" for w
    using onAck_effect[OF wf, of rt src t w] by (auto simp: calm_all_addr)
  moreover have "tm_addr (fst (onSyn rt src t m w)) = tm_addr m" for w
    using onSyn_effect[OF wf, of rt src t w] by (auto simp: opens_addr)
  moreover have "tm_addr (fst (onData rt src t m w)) = tm_addr m" for w
    using onData_effect[OF wf, of rt src t w] by auto
  ultimately show ?thesis by (simp add: tm_receiveTransport_def call_addr)
qed

lemma tcp_do_addr:
  assumes wf: "man_wf m" shows "tm_addr (fst (tcp_do rt c m w)) = tm_addr m"
  by (cases c) (simp_all add: call_addr receive_addr[OF wf] tm_write_def tm_read_def split_beta)

lemma new_bytes_none: "\<exists>k. new_bytes k c m m' = []"
proof (cases c)
  case (CallWrite i buf pos len)
  then show ?thesis by (intro exI[of _ "Suc i"]) simp
qed auto

context network
begin

lemma conn_inv_step:
  assumes step: "conn_step rt onwire sk pa g g'" and inv: "conn_inv onwire sk pa g"
  shows "conn_inv onwire sk pa g'"
  using step
proof cases
  case (sender c m w)
  let ?a = "tm_addr (sys_A g)" and ?W = "sys_written g"
  let ?W' = "?W @ new_bytes sk c (sys_A g) m"
  have i: "0 \<le> pa" "sender_inv pa sk ?W (sys_A g)" "receiver_inv ?a pa ?W (sys_read g) (sys_B g)"
    "\<forall>x \<in> onwire (io_rt (sys_io g)). data_ok ?a pa ?W x" using inv by (auto simp: conn_inv_def)
  have wf: "man_wf (sys_A g)" using i(2) by (simp add: sender_inv_def)
  have "sender_inv pa sk ?W' m" using sender_inv_step[OF i(2,1) sender(4,3,5,2)] .
  moreover have "tm_addr m = ?a" using tcp_do_addr[OF wf, of rt c "sys_io g"] sender(2) by simp
  moreover have "adds onwire (data_ok ?a pa ?W') (sys_io g) w"
    using tcp_do_adds[OF wf sender(4,3,2) i(2)] .
  ultimately show ?thesis
    using i receiver_inv_mono data_ok_append by (auto simp: conn_inv_def sender(1) adds_def)
next
  case (receiver c m w)
  let ?a = "tm_addr (sys_A g)" and ?W = "sys_written g"
  have i: "0 \<le> pa" "sender_inv pa sk ?W (sys_A g)" "receiver_inv ?a pa ?W (sys_read g) (sys_B g)"
    "\<forall>x \<in> onwire (io_rt (sys_io g)). data_ok ?a pa ?W x" using inv by (auto simp: conn_inv_def)
  have wf: "man_wf (sys_B g)" "tm_addr (sys_B g) \<noteq> ?a" using i(3) by (auto simp: receiver_inv_def)
  have "sock_wf (get_sock sk (sys_A g))"
    using i(2) man_wfD(1) by (auto simp: sender_inv_def dest: sock_okD)
  then have W: "int (length ?W) < 2 ^ 31 - 1"
    using i(2) by (auto simp: sender_inv_def sock_wf_defs in_i32_def)
  have auth: "seg_in ?W (tp_seqNum t) (tp_payload t)"
    if "c = CallReceive src t" "src = ?a" "tp_type t = DATA" "tp_srcPort t = pa" for src t
    using receiver(5) that i(4) by (auto simp: data_ok_def)
  have "receiver_inv ?a pa ?W (read_bytes c (sys_B g) (sys_read g)) m"
    using receiver_inv_step[OF i(3,1) receiver(4) W receiver(3,2)] auth by blast
  moreover have "adds onwire (data_ok ?a pa ?W) (sys_io g) w"
    using new_bytes_none[of c "sys_B g" m] tcp_do_adds[OF wf(1) receiver(4,3,2), of ?a pa _ ?W] wf(2)
    by (metis append_Nil2)
  moreover have "tm_addr m = tm_addr (sys_B g)" using tcp_do_addr[OF wf(1), of rt c "sys_io g"] receiver(2) by simp
  ultimately show ?thesis
    using i by (auto simp: conn_inv_def receiver(1) adds_def)
next
  case (wire w)
  with inv show ?thesis by (auto simp: conn_inv_def)
qed

end

lemma conn_step_addr:
  assumes "conn_step rt onwire sk pa g g'" "conn_inv onwire sk pa g"
  shows "tm_addr (sys_A g') = tm_addr (sys_A g)"
  using assms(1)
proof cases
  case (sender c m w)
  then show ?thesis using assms(2) tcp_do_addr[of "sys_A g" rt c "sys_io g"]
    by (auto simp: conn_inv_def sender_inv_def)
qed simp_all

context network
begin

lemma conn_inv_run:
  assumes "(conn_step rt onwire sk pa)\<^sup>*\<^sup>* g g'" "conn_inv onwire sk pa g"
  shows "conn_inv onwire sk pa g' \<and> tm_addr (sys_A g') = tm_addr (sys_A g)"
  using assms by (induction rule: rtranclp_induct) (auto simp: conn_inv_step conn_step_addr)

end

section \<open>A network that keeps every packet\<close>

text \<open>A runtime that checks packets as \<open>RuntimeManager::sendPkt\<close> does and never forgets one: any
  packet ever sent may be delivered, at any time and any number of times.\<close>

record wire =
  wr_base :: rt_base
  wr_log :: "wire_pkt list"
  wr_clock :: int

definition wire_rt :: "wire runtime" where
  "wire_rt =
     \<lparr>rt_sendPkt = (\<lambda>f t bs m.
        (case base_sendPkt f t bs (wr_base m) of
           (Inl e, _) \<Rightarrow> (Inl e, m)
         | (Inr r, b) \<Rightarrow> (Inr r, m\<lparr>wr_base := b, wr_log := wr_log m @ [(f, t, bs)]\<rparr>))),
      rt_now = wr_clock,
      rt_addTimer = (\<lambda>_ _ _ m. m)\<rparr>"

definition wire_io :: "wire io" where
  "wire_io = \<lparr>io_rt = \<lparr>wr_base = rt_base_ctor 0, wr_log = [], wr_clock = 0\<rparr>, io_out = []\<rparr>"

interpretation wire: network wire_rt "\<lambda>m. set (wr_log m)"
  by unfold_locales (auto simp: wire_rt_def split: prod.splits sum.splits)

definition deliver :: "'m runtime \<Rightarrow> byte list \<Rightarrow> tcp_manager \<Rightarrow> 'm io \<Rightarrow> tcp_manager \<times> 'm io" where
  "deliver rt bs m w =
     (case decode_pkt bs of None \<Rightarrow> (m, w) | Some (src, t) \<Rightarrow> tm_receiveTransport rt src t m w)"

definition last_pkt :: "wire io \<Rightarrow> byte list" where
  "last_pkt w = snd (snd (last (wr_log (io_rt w))))"

text \<open>Node \<open>b\<close> listens on port \<open>pb\<close>, node \<open>a\<close> connects to it from port \<open>pa\<close>, the SYN and the
  ACK that answers it are delivered.\<close>

definition handshake :: "int \<Rightarrow> int \<Rightarrow> int \<Rightarrow> int \<Rightarrow> int \<Rightarrow> wire conn_sys" where
  "handshake a pa b pb backlog =
     (let (_, _, B1) = open_server pb backlog (tcp_manager_ctor b);
          (_, _, A1, w1) = open_client wire_rt pa b pb (tcp_manager_ctor a) wire_io;
          (B2, w2) = deliver wire_rt (last_pkt w1) B1 w1;
          (A2, w3) = deliver wire_rt (last_pkt w2) A1 w2
      in \<lparr>sys_A = A2, sys_B = B2, sys_io = w3, sys_written = [], sys_read = (\<lambda>_. [])\<rparr>)"

definition valid_port :: "int \<Rightarrow> bool" where
  "valid_port p \<longleftrightarrow> 0 \<le> p \<and> p \<le> MAX_PORT_NUM"

text \<open>On this network a segment with valid fields is always sent, and decodes to itself.\<close>

lemma wire_send:
  assumes "validAddress addr" "validAddress dest" "valid_port sp" "valid_port dp" "SYN \<le> ty" "ty \<le> DATA"
    "int (length d) \<le> TP_MAX_PAYLOAD_SIZE"
  obtains w' bs where "send_segment wire_rt addr sp dest dp ty win q d mark failed w = (True, w')"
    "last_pkt w' = bs" "wr_log (io_rt w') = wr_log (io_rt w) @ [(addr, dest, bs)]"
    "decode_pkt bs = Some (addr, \<lparr>tp_srcPort = sp, tp_destPort = dp, tp_type = ty, tp_window = i32 win,
       tp_seqNum = i32 q, tp_payload = d\<rparr>)"
proof -
  let ?t = "\<lparr>tp_srcPort = sp, tp_destPort = dp, tp_type = ty, tp_window = win, tp_seqNum = q, tp_payload = d\<rparr>"
  let ?p = "\<lparr>pk_dest = dest, pk_src = addr, pk_ttl = MAX_TTL, pk_protocol = TRANSPORT_PKT, pk_seq = 0,
      pk_payload = transport_pack ?t\<rparr>"
  have t: "transport_ctor sp dp ty win q d = Inr ?t"
    using assms by (simp add: transport_ctor_def valid_port_def)
  have p: "packet_ctor dest addr MAX_TTL TRANSPORT_PKT 0 (transport_pack ?t) = Inr ?p"
    using assms by (simp add: packet_ctor_def packet_args_valid_def validAddress_def Protocol_isValid_def
        transport_pack_def cxx_const)
  have ok: "packet_ok ?p" "pk_ttl ?p > 0"
    using p by (auto simp: packet_ctor_def packet_ok_def packet_isValid_def cxx_const in_i32_def split: if_splits)
  show thesis
  proof
    show "decode_pkt (packet_pack ?p) = Some (addr, \<lparr>tp_srcPort = sp, tp_destPort = dp, tp_type = ty, tp_window = i32 win,
       tp_seqNum = i32 q, tp_payload = d\<rparr>)"
      using decode_packed[OF t p] by simp
    let ?w = "cout mark (w\<lparr>io_rt := (io_rt w)\<lparr>wr_base := snd (base_sendPkt addr dest (packet_pack ?p) (wr_base (io_rt w))),
         wr_log := wr_log (io_rt w) @ [(addr, dest, packet_pack ?p)]\<rparr>\<rparr>)"
    show "send_segment wire_rt addr sp dest dp ty win q d mark failed w = (True, ?w)"
      using t p base_sendPkt_packed[OF ok assms(1,2)] by (simp add: send_segment_def wire_rt_def)
    show "last_pkt ?w = packet_pack ?p" by (simp add: last_pkt_def)
    show "wr_log (io_rt ?w) = wr_log (io_rt w) @ [(addr, dest, packet_pack ?p)]" by simp
  qed
qed


text \<open>The two sockets after the handshake.\<close>

definition client_sock :: "int \<Rightarrow> int \<Rightarrow> int \<Rightarrow> tcp_socket" where
  "client_sock pa b pb =
     tcp_socket_ctor\<lparr>localPort := pa, remoteAddr := b, remotePort := pb, synSeq := 0, sk_state := ESTABLISHED,
       sndUna := 1, sndNxt := 1, rcvNxt := 1\<rparr>"

definition server_sock :: "int \<Rightarrow> int \<Rightarrow> int \<Rightarrow> tcp_socket" where
  "server_sock pb a pa = initAccepted pb a pa tcp_socket_ctor"

lemma handshake_state:
  assumes "validAddress a" "validAddress b" "valid_port pa" "valid_port pb"
  obtains w bs bs' src t src' t' where "handshake a pa b pb backlog =
     \<lparr>sys_A = \<lparr>tm_addr = a, allSockets = [client_sock pa b pb], listenersByPort = [], synPendingByKey = [],
        establishedByKey = [(mk_key b pb pa, 0)]\<rparr>,
      sys_B = \<lparr>tm_addr = b,
        allSockets = [enqueueAccepted 1 (tcp_socket_ctor\<lparr>localPort := pb, sk_state := LISTEN, sk_backlog := backlog\<rparr>),
          server_sock pb a pa],
        listenersByPort = [(pb, 0)], synPendingByKey = [], establishedByKey = [(mk_key a pa pb, 1)]\<rparr>,
      sys_io = w, sys_written = [], sys_read = (\<lambda>_. [])\<rparr>"
    "wr_log (io_rt w) = [(a, b, bs), (b, a, bs')]"
    "decode_pkt bs = Some (src, t)" "tp_type t = SYN" "decode_pkt bs' = Some (src', t')" "tp_type t' = ACK"
    "tp_seqNum t = 0" "tp_seqNum t' = 1"
proof -
  let ?A = "tcp_manager_ctor a\<lparr>allSockets := [tcp_socket_ctor\<lparr>localPort := pa, remoteAddr := b, remotePort := pb, synSeq := 0,
      sk_state := SYN_SENT\<rparr>], synPendingByKey := [(mk_key b pb pa, 0)]\<rparr>"
  let ?L = "tcp_socket_ctor\<lparr>localPort := pb, sk_state := LISTEN, sk_backlog := backlog\<rparr>"
  let ?B = "tcp_manager_ctor b\<lparr>allSockets := [?L], listenersByPort := [(pb, 0)]\<rparr>"
  note ops = tm_socket_def tm_bind_def sk_bind_def upd_sock_def get_sock_def tcp_manager_ctor_def Let_def
  have B1: "open_server pb backlog (tcp_manager_ctor b) = (0, 0, ?B)"
    by (simp add: open_server_def tm_listen_def registerListener_def ops)
  let ?s = "tcp_socket_ctor\<lparr>localPort := pa, remoteAddr := b, remotePort := pb, synSeq := 0\<rparr>"
  obtain w1 bs where w1: "sendSyn wire_rt a ?s b pb wire_io = (True, w1)"
    and bs: "last_pkt w1 = bs" "wr_log (io_rt w1) = [(a, b, bs)]"
      "decode_pkt bs = Some (a, \<lparr>tp_srcPort = pa, tp_destPort = pb, tp_type = SYN, tp_window = 0, tp_seqNum = 0, tp_payload = []\<rparr>)"
    using assms wire_send[of a b pa pb SYN "[]" 0 0 "''S''" "''Failed to send SYN: ''" wire_io]
    by (auto simp: sendSyn_def wire_io_def i32_def cxx_const)
  have A1: "open_client wire_rt pa b pb (tcp_manager_ctor a) wire_io = (0, 0, ?A, w1)"
    using assms w1
    by (simp add: open_client_def tm_connect_def registerSynPending_def valid_port_def ops tcp_socket_ctor_def)
  obtain w2 bs' where w2: "sendAck wire_rt b pb a pa 1 True RECV_BUF_CAP (cout ''S'' w1) = (True, w2)"
    and bs': "last_pkt w2 = bs'" "wr_log (io_rt w2) = [(a, b, bs), (b, a, bs')]"
      "decode_pkt bs' = Some (b, \<lparr>tp_srcPort = pb, tp_destPort = pa, tp_type = ACK, tp_window = RECV_BUF_CAP, tp_seqNum = 1, tp_payload = []\<rparr>)"
    using assms wire_send[of b a pb pa ACK "[]" RECV_BUF_CAP 1 "'':''" "''Failed to send ACK: ''" "cout ''S'' w1"] bs(2)
    by (auto simp: sendAck_def i32_def cxx_const)
  let ?B2 = "\<lparr>tm_addr = b, allSockets = [enqueueAccepted 1 ?L, server_sock pb a pa],
        listenersByPort = [(pb, 0)], synPendingByKey = [], establishedByKey = [(mk_key a pa pb, 1)]\<rparr>"
  have B2: "deliver wire_rt bs ?B w1 = (?B2, w2)"
    using w2 by (simp add: deliver_def bs tm_receiveTransport_def onSyn_def registerEstablished_def ops
        server_sock_def initAccepted_def getRecvBufAvailable_def tcp_socket_ctor_def i32_def)
  have A2: "deliver wire_rt bs' ?A w2 = (\<lparr>tm_addr = a, allSockets = [client_sock pa b pb], listenersByPort = [], synPendingByKey = [],
        establishedByKey = [(mk_key b pb pa, 0)]\<rparr>, cout '':'' w2)"
    by (simp add: deliver_def bs' tm_receiveTransport_def onAck_def registerEstablished_def ops client_sock_def
        markEstablished_def setRwnd_def tcp_socket_ctor_def i32_def cxx_const)
  show thesis
  proof
    show "handshake a pa b pb backlog = \<lparr>sys_A = \<lparr>tm_addr = a, allSockets = [client_sock pa b pb], listenersByPort = [], synPendingByKey = [],
        establishedByKey = [(mk_key b pb pa, 0)]\<rparr>, sys_B = ?B2, sys_io = cout '':'' w2, sys_written = [], sys_read = (\<lambda>_. [])\<rparr>"
      by (simp add: handshake_def B1 A1 bs(1) B2 bs'(1) A2)
    show "wr_log (io_rt (cout '':'' w2)) = [(a, b, bs), (b, a, bs')]" using bs' by simp
    show "decode_pkt bs = Some (a, \<lparr>tp_srcPort = pa, tp_destPort = pb, tp_type = SYN, tp_window = 0, tp_seqNum = 0, tp_payload = []\<rparr>)"
      "decode_pkt bs' = Some (b, \<lparr>tp_srcPort = pb, tp_destPort = pa, tp_type = ACK, tp_window = RECV_BUF_CAP, tp_seqNum = 1, tp_payload = []\<rparr>)"
      using bs bs' by simp_all
  qed simp_all
qed

lemma man_wf_handshake:
  assumes "validAddress a" "validAddress b" "valid_port pa" "valid_port pb"
  shows "man_wf (sys_A (handshake a pa b pb backlog)) \<and> man_wf (sys_B (handshake a pa b pb backlog))"
proof -
  have "man_wf (snd (snd (open_server pb backlog (tcp_manager_ctor b))))"
    by (intro man_wf_open_server man_wf_ctor)
  moreover have "man_wf (fst (snd (snd (open_client wire_rt pa b pb (tcp_manager_ctor a) wire_io))))"
    using man_wf_open_client[OF man_wf_ctor] by (metis prod.collapse)
  moreover have "man_wf (fst (deliver wire_rt bs m w))" if "man_wf m" "man_room m" for bs m w
  proof (cases "decode_pkt bs")
    case (Some x)
    then have "in_i32 (tp_window (snd x))"
      by (auto simp: decode_pkt_def transport_ok_def split: option.splits if_splits dest!: transport_unpack_valid)
    then show ?thesis using that Some by (auto simp: deliver_def split: prod.splits intro: wf_intro)
  qed (simp add: deliver_def that)
  moreover have "man_room (snd (snd (open_server pb backlog (tcp_manager_ctor b))))"
    "man_room (fst (snd (snd (open_client wire_rt pa b pb (tcp_manager_ctor a) wire_io))))"
    by (auto simp: man_room_def room_def open_server_def open_client_def tm_socket_def tm_bind_def sk_bind_def
        tm_listen_def tm_connect_def upd_sock_def get_sock_def tcp_manager_ctor_def registerListener_def
        registerSynPending_def tcp_socket_ctor_def Let_def cxx_const split_beta split: bool.split)
  ultimately show ?thesis
    by (simp add: handshake_def Let_def split_beta)
qed

lemma conn_inv_handshake:
  assumes v: "validAddress a" "validAddress b" "valid_port pa" "valid_port pb" and ab: "a \<noteq> b"
  shows "conn_inv (\<lambda>m. set (wr_log m)) 0 pa (handshake a pa b pb backlog)"
proof -
  obtain w bs bs' src t src' t' where h: "handshake a pa b pb backlog =
     \<lparr>sys_A = \<lparr>tm_addr = a, allSockets = [client_sock pa b pb], listenersByPort = [], synPendingByKey = [],
        establishedByKey = [(mk_key b pb pa, 0)]\<rparr>,
      sys_B = \<lparr>tm_addr = b,
        allSockets = [enqueueAccepted 1 (tcp_socket_ctor\<lparr>localPort := pb, sk_state := LISTEN, sk_backlog := backlog\<rparr>),
          server_sock pb a pa],
        listenersByPort = [(pb, 0)], synPendingByKey = [], establishedByKey = [(mk_key a pa pb, 1)]\<rparr>,
      sys_io = w, sys_written = [], sys_read = (\<lambda>_. [])\<rparr>"
    and log: "wr_log (io_rt w) = [(a, b, bs), (b, a, bs')]"
    "decode_pkt bs = Some (src, t)" "tp_type t = SYN" "decode_pkt bs' = Some (src', t')" "tp_type t' = ACK"
    using handshake_state[OF v] by metis
  note wf = man_wf_handshake[OF v, of backlog, unfolded h, simplified]
  have "sender_inv pa 0 [] (sys_A (handshake a pa b pb backlog))"
    using wf by (simp add: h sender_inv_def get_sock_def client_sock_def)
  moreover have "receiver_inv a pa [] (\<lambda>_. []) (sys_B (handshake a pa b pb backlog))"
    using wf v ab
    by (auto simp: h receiver_inv_def get_sock_def less_Suc_eq server_sock_def initAccepted_def recv_ok_def
        enqueueAccepted_def tcp_socket_ctor_def valid_port_def)
  ultimately show ?thesis
    using v(3) log by (auto simp: conn_inv_def h data_ok_def valid_port_def cxx_const)
qed

text \<open>The steps as functions.\<close>

definition sender_do :: "'m runtime \<Rightarrow> nat \<Rightarrow> tcp_call \<Rightarrow> 'm conn_sys \<Rightarrow> 'm conn_sys" where
  "sender_do rt sk c g =
     (let (m, w) = tcp_do rt c (sys_A g) (sys_io g)
      in g\<lparr>sys_A := m, sys_io := w, sys_written := sys_written g @ new_bytes sk c (sys_A g) m\<rparr>)"

definition receiver_do :: "'m runtime \<Rightarrow> tcp_call \<Rightarrow> 'm conn_sys \<Rightarrow> 'm conn_sys" where
  "receiver_do rt c g =
     (let (m, w) = tcp_do rt c (sys_B g) (sys_io g)
      in g\<lparr>sys_B := m, sys_io := w, sys_read := read_bytes c (sys_B g) (sys_read g)\<rparr>)"

lemma sender_do_step:
  "call_ok c (sys_A g) \<Longrightarrow> man_room (sys_A g) \<Longrightarrow> port_free pa c \<Longrightarrow>
     conn_step rt onwire sk pa g (sender_do rt sk c g)"
  by (auto simp: sender_do_def split: prod.split intro: conn_step.sender)

lemma receiver_do_step:
  "call_ok c (sys_B g) \<Longrightarrow> man_room (sys_B g) \<Longrightarrow>
     authentic (tm_addr (sys_A g)) pa (onwire (io_rt (sys_io g))) c \<Longrightarrow>
     conn_step rt onwire sk pa g (receiver_do rt c g)"
  by (auto simp: receiver_do_def split: prod.split intro: conn_step.receiver)

text \<open>A run: three bytes are written, the segment arrives twice, the receiver reads two bytes.\<close>

definition run0 :: "wire conn_sys" where "run0 = handshake 1 10 2 20 5"
definition run1 :: "wire conn_sys" where "run1 = sender_do wire_rt 0 (CallWrite 0 [7, 8, 9] 0 3) run0"
definition run_seg :: transport where
  "run_seg = \<lparr>tp_srcPort = 10, tp_destPort = 20, tp_type = DATA, tp_window = 0, tp_seqNum = 1, tp_payload = [7, 8, 9]\<rparr>"
definition run2 :: "wire conn_sys" where "run2 = receiver_do wire_rt (CallReceive 1 run_seg) run1"
definition run3 :: "wire conn_sys" where "run3 = receiver_do wire_rt (CallReceive 1 run_seg) run2"
definition run4 :: "wire conn_sys" where "run4 = receiver_do wire_rt (CallRead 1 0 2) run3"

lemma run4_reached: "(conn_step wire_rt (\<lambda>m. set (wr_log m)) 0 10)\<^sup>*\<^sup>* (handshake 1 10 2 20 5) run4"
proof -
  have auth: "authentic (tm_addr (sys_A run1)) 10 (set (wr_log (io_rt (sys_io run1)))) (CallReceive 1 run_seg)"
    "authentic (tm_addr (sys_A run2)) 10 (set (wr_log (io_rt (sys_io run2)))) (CallReceive 1 run_seg)"
    by code_simp+
  have "conn_step wire_rt (\<lambda>m. set (wr_log m)) 0 10 run0 run1"
    unfolding run1_def by (rule sender_do_step; code_simp)
  moreover have "conn_step wire_rt (\<lambda>m. set (wr_log m)) 0 10 run1 run2"
    unfolding run2_def by (rule receiver_do_step) (code_simp, code_simp, rule auth)
  moreover have "conn_step wire_rt (\<lambda>m. set (wr_log m)) 0 10 run2 run3"
    unfolding run3_def by (rule receiver_do_step) (code_simp, code_simp, rule auth)
  moreover have "conn_step wire_rt (\<lambda>m. set (wr_log m)) 0 10 run3 run4"
    unfolding run4_def by (rule receiver_do_step) (code_simp, code_simp, simp)
  ultimately show ?thesis unfolding run0_def[symmetric]
    by (meson converse_rtranclp_into_rtranclp rtranclp.rtrancl_refl)
qed

section \<open>Properties\<close>

text \<open>C1. In-order delivery. Two nodes have shaken hands. Whatever calls their applications
  make afterwards, whatever the timers do, and whichever packets the network loses,
  duplicates or reorders, the bytes a socket of the receiving node has handed over or holds
  are a prefix of the bytes written to the sending socket.\<close>

theorem in_order_delivery:
  assumes "validAddress a" "validAddress b" "valid_port pa" "valid_port pb" "a \<noteq> b"
    and "(conn_step wire_rt (\<lambda>m. set (wr_log m)) 0 pa)\<^sup>*\<^sup>* (handshake a pa b pb backlog) g"
    and "i < length (allSockets (sys_B g))"
      "remoteAddr (get_sock i (sys_B g)) = a" "remotePort (get_sock i (sys_B g)) = pa"
  shows "prefix (sys_read g i @ recvBuf (get_sock i (sys_B g))) (sys_written g)"
proof -
  have "tm_addr (sys_A (handshake a pa b pb backlog)) = a"
    using handshake_state[OF assms(1-4)] by (metis conn_sys.select_convs(1) tcp_manager.select_convs(1))
  then have "conn_inv (\<lambda>m. set (wr_log m)) 0 pa g \<and> tm_addr (sys_A g) = a"
    using wire.conn_inv_run[OF assms(6) conn_inv_handshake[OF assms(1-5)]] by simp
  then have "recv_ok (sys_written g) (sys_read g i) (get_sock i (sys_B g))"
    using assms(7-9) by (simp add: conn_inv_def receiver_inv_def)
  then show ?thesis by (simp add: recv_ok_def take_is_prefix)
qed


theorem in_order_delivery_witness:
  "sys_read run4 1 = [7, 8] \<and> recvBuf (get_sock 1 (sys_B run4)) = [9] \<and>
     prefix (sys_read run4 1 @ recvBuf (get_sock 1 (sys_B run4))) (sys_written run4)"
proof -
  have "sys_read run4 1 = [7, 8] \<and> recvBuf (get_sock 1 (sys_B run4)) = [9]" by code_simp
  moreover have "1 < length (allSockets (sys_B run4)) \<and> remoteAddr (get_sock 1 (sys_B run4)) = 1 \<and>
     remotePort (get_sock 1 (sys_B run4)) = 10" by code_simp
  moreover have "validAddress 1" "validAddress 2" "valid_port 10" "valid_port 20"
    by (simp_all add: validAddress_def valid_port_def cxx_const)
  ultimately show ?thesis using in_order_delivery[OF _ _ _ _ _ run4_reached, of 1] by auto
qed

text \<open>C13. The handshake: when node \<open>b\<close> listens on \<open>pb\<close> and node \<open>a\<close> connects to it, the SYN and the
  ACK that answers it leave both ends established and registered under the key of the
  connection, nothing pending, and the new connection ready to be accepted when the
  listener has a backlog.\<close>

theorem handshake_establishes:
  assumes "validAddress a" "validAddress b" "valid_port pa" "valid_port pb"
  shows "let g = handshake a pa b pb backlog in
    sk_state (get_sock 0 (sys_A g)) = ESTABLISHED \<and> sk_state (get_sock 1 (sys_B g)) = ESTABLISHED \<and>
    map_of (establishedByKey (sys_A g)) (mk_key b pb pa) = Some 0 \<and>
    map_of (establishedByKey (sys_B g)) (mk_key a pa pb) = Some 1 \<and>
    synPendingByKey (sys_A g) = [] \<and>
    fst (tm_accept 0 (sys_B g)) = (if 0 < backlog then Some 1 else None)"
proof (rule handshake_state[OF assms, of backlog], goal_cases)
  case (1 w bs bs' src t src' t')
  then show ?case
    by (simp add: Let_def get_sock_def client_sock_def server_sock_def initAccepted_def tm_accept_def
      enqueueAccepted_def tcp_socket_ctor_def upd_sock_def)
qed

theorem handshake_establishes_witness:
  "sk_state (get_sock 0 (sys_A (handshake 1 10 2 20 5))) = ESTABLISHED \<and>
   fst (tm_accept 0 (sys_B (handshake 1 10 2 20 5))) = Some 1"
proof -
  have "validAddress 1" "validAddress 2" "valid_port 10" "valid_port 20"
    by (simp_all add: validAddress_def valid_port_def cxx_const)
  from handshake_establishes[OF this, of 5] show ?thesis by (simp add: Let_def)
qed

end
