(* ===== verification/Acknowledgement.thy ===== *)
theory Acknowledgement
  imports Delivery
begin

text \<open>
  The other half of reliable delivery: what the sending socket counts as acknowledged has
  arrived. The sender discards a segment when an acknowledgement covers it, so a byte that
  were acknowledged and not received would be lost for good. The theory follows the control
  segments: a SYN has number 0, a FIN the end of the stream, and an acknowledgement the next
  byte that a receiving socket expects.
\<close>

section \<open>What packets say\<close>

definition seg_of :: "byte list \<Rightarrow> (int \<times> int \<times> transport) option" where
  "seg_of bs =
     (case packet_unpack bs of
        None \<Rightarrow> None
      | Some p \<Rightarrow> (case decode_pkt bs of None \<Rightarrow> None | Some (src, t) \<Rightarrow> Some (src, pk_dest p, t)))"

lemma seg_of_decode: "seg_of bs = Some (src, dst, t) \<Longrightarrow> decode_pkt bs = Some (src, t)"
  by (auto simp: seg_of_def split: option.splits)

definition pkt_sat :: "(int \<Rightarrow> int \<Rightarrow> transport \<Rightarrow> bool) \<Rightarrow> wire_pkt \<Rightarrow> bool" where
  "pkt_sat Q x \<longleftrightarrow> (\<forall>src dst t. seg_of (snd (snd x)) = Some (src, dst, t) \<longrightarrow> Q src dst t)"

lemma pkt_sat_mono: "pkt_sat Q x \<Longrightarrow> (\<And>src dst t. Q src dst t \<Longrightarrow> Q' src dst t) \<Longrightarrow> pkt_sat Q' x"
  by (auto simp: pkt_sat_def)

lemma seg_of_packed:
  assumes t: "transport_ctor sp dp ty win q d = Inr t"
    and p: "packet_ctor dest addr MAX_TTL TRANSPORT_PKT 0 (transport_pack t) = Inr p"
  shows "seg_of (packet_pack p) = Some (addr, dest, t\<lparr>tp_window := i32 win, tp_seqNum := i32 q\<rparr>)"
proof -
  have "packet_ok p" "pk_dest p = dest"
    using p by (auto simp: packet_ctor_def packet_ok_def packet_isValid_def cxx_const in_i32_def split: if_splits)
  then show ?thesis using decode_packed[OF t p] pkt.unpack_pack by (simp add: seg_of_def)
qed

definition seg :: "int \<Rightarrow> int \<Rightarrow> int \<Rightarrow> int \<Rightarrow> int \<Rightarrow> byte list \<Rightarrow> transport" where
  "seg sp dp ty win q d =
     \<lparr>tp_srcPort = sp, tp_destPort = dp, tp_type = ty, tp_window = win, tp_seqNum = q, tp_payload = d\<rparr>"

lemma seg_sel [simp]:
  "tp_srcPort (seg sp dp ty win q d) = sp" "tp_destPort (seg sp dp ty win q d) = dp" "tp_type (seg sp dp ty win q d) = ty"
  "tp_seqNum (seg sp dp ty win q d) = q" "tp_payload (seg sp dp ty win q d) = d"
  by (simp_all add: seg_def)

context network
begin

lemma send_sat:
  assumes Q: "\<And>win'. Q addr dest (seg sp dp ty win' (i32 q) d)"
  shows "adds onwire (pkt_sat Q) w (snd (send_segment rt addr sp dest dp ty win q d mark failed w))"
proof -
  have new: "pkt_sat Q (addr, dest', packet_pack p)"
    if "transport_ctor sp dp ty win q d = Inr t" "packet_ctor dest addr MAX_TTL TRANSPORT_PKT 0 (transport_pack t) = Inr p"
    for t p dest'
    using seg_of_packed[OF that] Q[of "i32 win"] that(1)
    by (auto simp: pkt_sat_def transport_ctor_def seg_def split: if_splits)
  show ?thesis
    using new send_adds send_fails
    by (fastforce simp: send_segment_def adds_def split: sum.splits prod.splits)
qed

text \<open>Operations that send data only.\<close>

lemma data_sat:
  "(\<And>src dst t. tp_type t = DATA \<Longrightarrow> Q src dst t) \<Longrightarrow> adds onwire (pkt_sat Q) w (snd (sendData rt a s da dp q d re w))"
  unfolding sendData_def by (rule send_sat) simp

lemma write_sat:
  assumes "\<And>src dst t. tp_type t = DATA \<Longrightarrow> Q src dst t"
  shows "adds onwire (pkt_sat Q) w (snd (snd (tm_write rt i buf pos len m w)))"
proof -
  have "adds onwire (pkt_sat Q) w (snd (snd (sk_write rt (tm_addr m) buf pos len (get_sock i m) w)))"
    by (rule write_sends) (rule data_sat[OF assms])
  then show ?thesis by (simp add: tm_write_def split_beta)
qed

lemma tick_sat:
  assumes Q: "\<And>src dst t. tp_type t = DATA \<Longrightarrow> Q src dst t"
  shows "adds onwire (pkt_sat Q) w (snd (retransmissionTick rt m w))"
proof -
  have all: "adds onwire (pkt_sat Q) w (snd (resend_all rt a s gs w))" for a s gs w
  proof (induction gs arbitrary: w)
    case (Cons g gs)
    from adds_trans[OF data_sat[OF Q] Cons] show ?case by (simp add: Let_def split_beta)
  qed simp
  have one: "adds onwire (pkt_sat Q) w (snd (retransmit_socket rt a now s w))" for a now s w
    using all by (auto simp: retransmit_socket_def Let_def split_beta)
  have "adds onwire (pkt_sat Q) w (snd (retransmit_each rt now es m w))" for now es m w
  proof (induction es arbitrary: m w)
    case (Cons e es)
    obtain k i where e: "e = (k, i)" by fastforce
    from adds_trans[OF one Cons] show ?case by (simp add: e Let_def split_beta)
  qed simp
  then show ?thesis by (simp add: retransmissionTick_def Let_def split_beta)
qed

end


section \<open>The sending socket\<close>

text \<open>\<open>stays s s'\<close>: nothing was acknowledged, and a socket that is no longer established
  neither becomes so again nor sends new data.\<close>

definition stays :: "tcp_socket \<Rightarrow> tcp_socket \<Rightarrow> bool" where
  "stays s s' \<longleftrightarrow> same_conn s s' \<and> sndUna s' = sndUna s \<and>
     (sk_state s \<noteq> ESTABLISHED \<longrightarrow> sk_state s' \<noteq> ESTABLISHED \<and> sndNxt s' = sndNxt s)"

definition queued :: "nat \<Rightarrow> tcp_manager \<Rightarrow> nat \<Rightarrow> bool" where
  "queued sk m j \<longleftrightarrow> j < length (allSockets m) \<and> sk \<in> set (pendingConnQueue (get_sock j m))"

definition still :: "nat \<Rightarrow> tcp_manager \<Rightarrow> tcp_manager \<Rightarrow> bool" where
  "still sk m m' \<longleftrightarrow> length (allSockets m) \<le> length (allSockets m') \<and> stays (get_sock sk m) (get_sock sk m') \<and>
     (\<forall>j. queued sk m' j \<longrightarrow> queued sk m j)"

lemma stays_refl [simp]: "stays s s"
  by (simp add: stays_def same_conn_def)

lemma stays_trans: "stays s t \<Longrightarrow> stays t u \<Longrightarrow> stays s u"
  by (auto simp: stays_def same_conn_def)

lemma still_refl [simp]: "still sk m m"
  by (simp add: still_def)

lemma still_trans: "still sk m n \<Longrightarrow> still sk n k \<Longrightarrow> still sk m k"
  unfolding still_def by (meson order_trans stays_trans)

lemma still_upd:
  assumes "i = sk \<Longrightarrow> stays (get_sock i m) (f (get_sock i m))"
    and "sk \<in> set (pendingConnQueue (f (get_sock i m))) \<Longrightarrow> sk \<in> set (pendingConnQueue (get_sock i m))"
  shows "still sk m (upd_sock i f m)"
proof -
  have "queued sk m j" if "queued sk (upd_sock i f m) j" for j
    using that assms(2) by (cases "j = i") (auto simp: queued_def)
  moreover have "stays (get_sock sk m) (get_sock sk (upd_sock i f m))"
  proof (cases "sk < length (allSockets m) \<and> i = sk")
    case False
    then have "get_sock sk (upd_sock i f m) = get_sock sk m"
      by (cases "i = sk") (auto simp: upd_sock_def get_sock_def list_update_beyond)
    then show ?thesis by simp
  qed (use assms(1) in auto)
  ultimately show ?thesis by (simp add: still_def)
qed

lemma still_tables [simp]:
  "still sk m (m'\<lparr>synPendingByKey := p\<rparr>) = still sk m m'" "still sk m (m'\<lparr>establishedByKey := e\<rparr>) = still sk m m'"
  "still sk m (unregisterSocket i m') = still sk m m'" "still sk m (registerEstablished i ra rp m') = still sk m m'"
  by (simp_all add: still_def queued_def unregisterSocket_def registerEstablished_def)

lemma still_open:
  assumes "sk < length (allSockets m)"
  shows "still sk m (snd (snd (open_server port backlog m)))" "still sk m (fst (snd (snd (open_client rt port da dp m w))))"
  using assms
  by (auto simp: still_def queued_def open_server_def open_client_def tm_socket_def tm_bind_def tm_listen_def tm_connect_def sk_bind_def
      upd_sock_def get_sock_def registerListener_def registerSynPending_def Let_def tcp_socket_ctor_def nth_append split_beta
      less_Suc_eq split: bool.split)

lemma still_release: "still sk m (tm_release i m)"
proof -
  have "still sk m (upd_sock i (\<lambda>s. s\<lparr>pendingConnQueue := [], sk_backlog := 0, remoteAddr := - 1, remotePort := - 1,
      localPort := - 1, sk_state := CLOSED\<rparr>) (unregisterSocket i m))"
    by (rule still_trans[OF _ still_upd]) (auto simp: stays_def same_conn_def)
  then show ?thesis by (simp add: tm_release_def)
qed

lemma still_maybeFin: "still sk m (fst (maybeSendFinOnDrain rt i m w))"
proof -
  have "still sk m (upd_sock i (\<lambda>s. s\<lparr>finSeq := sndNxt s\<rparr>) m)"
    by (rule still_upd) (auto simp: stays_def same_conn_def)
  then show ?thesis using still_trans[OF _ still_release]
    by (auto simp: maybeSendFinOnDrain_def Let_def split_beta split: bool.split)
qed

lemma still_close: "still sk m (fst (tm_close rt i m w))"
proof -
  have "still sk m (upd_sock i (\<lambda>s. s\<lparr>sk_state := st\<rparr>) m)" if "st \<noteq> ESTABLISHED" for st
    using that by (intro still_upd) (auto simp: stays_def same_conn_def)
  from this[of CLOSED] still_trans[OF this[of SHUTDOWN] still_maybeFin] show ?thesis by (auto simp: tm_close_def Let_def)
qed

lemma still_accept:
  assumes "\<And>j. \<not> queued sk m j" "i < length (allSockets m)"
  shows "still sk m (snd (tm_accept i m))"
proof (cases "pendingConnQueue (get_sock i m)")
  case (Cons c rest)
  then have "c \<noteq> sk" "sk \<notin> set rest" using assms(1)[of i] assms(2) by (auto simp: queued_def)
  let ?m = "upd_sock i (\<lambda>s. s\<lparr>pendingConnQueue := rest\<rparr>) m"
  have 1: "still sk m ?m" using \<open>sk \<notin> set rest\<close> by (intro still_upd) (auto simp: stays_def same_conn_def)
  moreover have "still sk ?m (upd_sock c (\<lambda>s. s\<lparr>sk_state := ESTABLISHED\<rparr>) ?m)"
    using \<open>c \<noteq> sk\<close> by (intro still_upd) auto
  ultimately show ?thesis using still_trans Cons by (auto simp: tm_accept_def Let_def)
qed (simp add: tm_accept_def)

lemma still_write:
  assumes "man_wf m" "man_room m" "pos + len \<le> int (length buf)" "i < length (allSockets m)"
  shows "still sk m (fst (snd (tm_write rt i (Some buf) pos len m w)))"
proof -
  obtain r s' w' where s': "sk_write rt (tm_addr m) (Some buf) pos len (get_sock i m) w = (r, s', w')" using prod_cases3 by blast
  have wf: "sock_wf (get_sock i m)" "room (get_sock i m)"
    using assms man_wfD(1)[OF assms(1)] by (auto simp: man_room_def get_sock_def dest: sock_okD)
  obtain n segs where "written_by buf pos (get_sock i m) n segs (s'\<lparr>nextRtoDeadlineMs := nextRtoDeadlineMs (get_sock i m)\<rparr>)"
    using sk_write_spec[OF s' wf assms(3)] by blast
  then have "sndUna (s'\<lparr>nextRtoDeadlineMs := nextRtoDeadlineMs (get_sock i m)\<rparr>) = sndUna (get_sock i m)" by (simp add: written_by_def)
  then have una: "sndUna s' = sndUna (get_sock i m)" by simp
  have "s' = get_sock i m" if "sk_state (get_sock i m) \<noteq> ESTABLISHED"
    using s' sk_write_closed[OF that, of rt "tm_addr m" "Some buf" pos len w] by simp
  then have "stays (get_sock i m) s'"
    unfolding stays_def same_conn_def using sk_write_frame(1-3)[OF s' wf assms(3)] una by metis
  moreover have "fst (snd (tm_write rt i (Some buf) pos len m w)) = upd_sock i (\<lambda>_. s') m" by (simp add: tm_write_def s')
  ultimately show ?thesis using sk_write_frame(4)[OF s' wf assms(3)] by (auto intro!: still_upd)
qed

lemma still_read: "still sk m (snd (tm_read i True pos len m))"
proof -
  have f: "snd (sk_read True pos len s) = s\<lparr>recvBuf := recvBuf (snd (sk_read True pos len s)),
      recvBufUsed := recvBufUsed (snd (sk_read True pos len s)), sk_state := sk_state (snd (sk_read True pos len s))\<rparr>"
    "sk_state (snd (sk_read True pos len s)) = sk_state s \<or> sk_state (snd (sk_read True pos len s)) = CLOSED" for s
    using sk_read_frame[of True pos len s] by blast+
  have "sndUna (snd (sk_read True pos len s)) = sndUna s" for s by (subst f(1)) simp
  then have "stays s (snd (sk_read True pos len s))" for s
    using f(2)[of s] by (auto simp: stays_def same_conn_def)
  then show ?thesis by (auto simp: tm_read_def split_beta intro!: still_upd)
qed

lemma still_tick: "still sk m (fst (retransmissionTick rt m w))"
proof -
  have "still sk m (fst (retransmit_each rt now es m w))" for now es w
  proof (induction es arbitrary: m w)
    case (Cons e es)
    obtain k i where e: "e = (k, i)" by fastforce
    obtain s w1 where r: "retransmit_socket rt (tm_addr m) now (get_sock i m) w = (s, w1)" by fastforce
    have "still sk m (upd_sock i (\<lambda>_. s) m)"
      using retransmit_socket_frame[OF r] by (intro still_upd) (auto simp: stays_def same_conn_def)
    then show ?case using Cons still_trans by (fastforce simp: e r split_beta)
  qed simp
  then show ?thesis by (simp add: retransmissionTick_def Let_def split_beta)
qed


text \<open>An acknowledgement of new data moves \<open>sndUna\<close> to its number.\<close>

definition acked :: "transport \<Rightarrow> tcp_socket \<Rightarrow> tcp_socket \<Rightarrow> bool" where
  "acked t s s' \<longleftrightarrow> sndUna s < tp_seqNum t \<and> tp_seqNum t \<le> sndNxt s \<and> sndUna s' = tp_seqNum t \<and> same_conn s s' \<and>
     (sk_state s \<noteq> ESTABLISHED \<longrightarrow> sk_state s' \<noteq> ESTABLISHED \<and> sndNxt s' = sndNxt s)"

lemma acked_stays: "acked t s u \<Longrightarrow> stays u v \<Longrightarrow> acked t s v"
  by (auto simp: acked_def stays_def same_conn_def)

text \<open>The sending socket \<open>sk\<close> after an acknowledgement \<open>t\<close> of its connection.\<close>

definition moved :: "nat \<Rightarrow> transport \<Rightarrow> tcp_manager \<Rightarrow> tcp_manager \<Rightarrow> bool" where
  "moved sk t m m' \<longleftrightarrow> acked t (get_sock sk m) (get_sock sk m') \<and> (\<forall>j. queued sk m' j \<longrightarrow> queued sk m j) \<and>
     length (allSockets m) \<le> length (allSockets m')"

lemma moved_still: "moved sk t m n \<Longrightarrow> still sk n k \<Longrightarrow> moved sk t m k"
  by (auto simp: moved_def still_def intro: acked_stays)

lemma still_marks:
  "still sk m (upd_sock i markClosed m)" "still sk m (upd_sock i markPeerFinReceived m)" "still sk m (upd_sock i (setRwnd v) m)"
  by (intro still_upd; auto simp: stays_def same_conn_def markClosed_def markPeerFinReceived_def Let_def split: if_splits)+

lemma still_onSyn:
  assumes "sk < length (allSockets m)"
  shows "still sk m (fst (onSyn rt src t m w))"
proof (cases "map_of (listenersByPort m) (tp_destPort t)")
  case (Some l)
  let ?c = "length (allSockets m)"
  let ?m1 = "m\<lparr>allSockets := allSockets m @ [tcp_socket_ctor]\<rparr>"
  let ?m2 = "upd_sock ?c (initAccepted (tp_destPort t) src (tp_srcPort t)) ?m1"
  have 1: "still sk m ?m1"
    using assms by (auto simp: still_def queued_def get_sock_def nth_append tcp_socket_ctor_def less_Suc_eq)
  have 2: "still sk ?m1 ?m2"
    using assms by (intro still_upd) (auto simp: initAccepted_def)
  have 3: "still sk ?m2 (upd_sock l (enqueueAccepted ?c) ?m2)"
    using assms by (intro still_upd) (auto simp: stays_def same_conn_def enqueueAccepted_def split: if_splits)
  show ?thesis using still_trans[OF still_trans[OF 1 2] 3] Some by (simp add: onSyn_def tm_socket_def Let_def)
qed (simp add: onSyn_def)

lemma still_onFin: "still sk m (fst (onFin rt src t m w))"
proof -
  have "still sk m (upd_sock i markClosed (m\<lparr>synPendingByKey := p\<rparr>))" for i p
    by (rule still_trans[OF _ still_marks(1)]) simp
  then show ?thesis by (auto simp: onFin_def Let_def still_marks split: option.split)
qed

lemma onAck_established_moves:
  assumes i: "i < length (allSockets m)" and sk: "sk < length (allSockets m)" and r: "onAck_established rt i t m w = (m', w')"
  shows "still sk m m' \<or> i = sk \<and> moved sk t m m'"
  using i
proof (cases rule: onAck_established_cases[of i m t rt w])
  case ahead
  then show ?thesis using r by simp
next
  case old
  then show ?thesis using r still_marks by auto
next
  case (new m2 w2)
  let ?u = "upd_sock i (acked_socket (rt_now rt (io_rt w)) t) m"
  have f: "still sk ?u m'" using still_maybeFin[of sk ?u rt i w] new(3,4) r by simp
  show ?thesis
  proof (cases "i = sk")
    case True
    have "acked t (get_sock sk m) (get_sock sk ?u)"
      using new(1,2) True sk by (auto simp: acked_def same_conn_def acked_socket_frame)
    moreover have "queued sk m j" if "queued sk ?u j" for j
      using that by (cases "j = i") (auto simp: queued_def acked_socket_frame)
    ultimately have "moved sk t m ?u" by (simp add: moved_def)
    then show ?thesis using moved_still f True by blast
  next
    case False
    have "still sk m ?u" using False by (intro still_upd) (auto simp: acked_socket_frame)
    then show ?thesis using still_trans f by blast
  qed
qed

lemma onAck_moves:
  assumes wf: "man_wf m" and sk: "sk < length (allSockets m)" "sk \<notin> snd ` set (synPendingByKey m)"
    and r: "onAck rt src t m w = (m', w')"
  shows "still sk m m' \<or> remoteAddr (get_sock sk m) = src \<and> localPort (get_sock sk m) = tp_destPort t \<and> moved sk t m m'"
proof (cases "map_of (synPendingByKey m) (mk_key src (tp_srcPort t) (tp_destPort t))")
  case (Some p)
  have "p \<noteq> sk" using map_of_SomeD[OF Some] sk(2) by force
  then have "still sk m (upd_sock p (markEstablished \<circ> setRwnd (tp_window t)) m)"
    by (intro still_upd) (auto simp: markEstablished_def setRwnd_def split: if_splits)
  then show ?thesis using r Some by (auto simp: onAck_def Let_def split: if_splits)
next
  case pend: None
  show ?thesis
  proof (cases "map_of (establishedByKey m) (mk_key src (tp_srcPort t) (tp_destPort t))")
    case None
    with pend show ?thesis using r by (simp add: onAck_def)
  next
    case (Some i)
    have i: "i < length (allSockets m)" "remoteAddr (get_sock i m) = src" "localPort (get_sock i m) = tp_destPort t"
      using man_wfD(4)[OF wf Some] sock_okD(3)[OF man_wfD(1)[OF wf]] by (auto simp: sock_key_def mk_key_def)
    obtain m1 w1 where m1: "onAck_established rt i t m w = (m1, w1)" by fastforce
    consider "m' = m" | e where "m' = (upd_sock i markClosed m)\<lparr>establishedByKey := e\<rparr>" | "m' = m1"
      using r Some pend m1 by (auto simp: onAck_def Let_def split: if_splits)
    then show ?thesis using onAck_established_moves[OF i(1) sk(1) m1] i by cases (auto simp: still_marks)
  qed
qed

lemma receive_moves:
  assumes wf: "man_wf m" and sk: "sk < length (allSockets m)" "sk \<notin> snd ` set (synPendingByKey m)"
    and r: "tm_receiveTransport rt src t m w = (m', w')"
  shows "still sk m m' \<or> tp_type t = ACK \<and> remoteAddr (get_sock sk m) = src \<and> localPort (get_sock sk m) = tp_destPort t \<and>
     moved sk t m m'"
proof -
  have "still sk m (fst (onData rt src t m w))" for w
    using onData_effect[OF wf, of rt src t w] by (auto intro!: still_upd simp: stays_def same_conn_def)
  from this[of w] still_onSyn[OF sk(1), of rt src t "cout ''S'' w"] still_onFin[of sk m rt src t "cout ''F'' w"]
    onAck_moves[OF wf sk, of rt src t w m' w'] r
  show ?thesis by (auto simp: tm_receiveTransport_def split: if_splits)
qed

text \<open>Any call of the sender's node.\<close>

lemma tcp_do_moves:
  assumes wf: "man_wf m" "man_room m" "call_ok c m"
    and sk: "sk < length (allSockets m)" "sk \<notin> snd ` set (synPendingByKey m)" "\<And>j. \<not> queued sk m j"
    and r: "tcp_do rt c m w = (m', w')"
  shows "still sk m m' \<or> (\<exists>src t. c = CallReceive src t \<and> tp_type t = ACK \<and> remoteAddr (get_sock sk m) = src \<and>
     localPort (get_sock sk m) = tp_destPort t \<and> moved sk t m m')"
proof (cases c)
  case (CallServer port backlog)
  then show ?thesis using still_open(1)[OF sk(1), of port backlog] r by auto
next
  case (CallClient port da dp)
  then show ?thesis using still_open(2)[OF sk(1), of rt port da dp w] r by auto
next
  case (CallAccept i)
  then show ?thesis using still_accept[OF sk(3), of i] r wf(3) by auto
next
  case (CallWrite i buf pos len)
  then show ?thesis using still_write[OF wf(1,2), of pos len buf i sk rt w] r wf(3) by simp
next
  case (CallRead i pos len)
  then show ?thesis using still_read[of sk m i pos len] r by auto
next
  case (CallClose i)
  then show ?thesis using still_close[of sk m rt i w] r by auto
next
  case (CallRelease i)
  then show ?thesis using still_release[of sk m i] r by auto
next
  case (CallReceive src t)
  then show ?thesis using receive_moves[OF wf(1) sk(1,2), of rt src t w m' w'] r by auto
next
  case CallTick
  then show ?thesis using still_tick[of sk m rt w] r by auto
qed


section \<open>The segments a manager sends\<close>

text \<open>The number of an acknowledgement that answers the segment \<open>t\<close> of \<open>src\<close>; \<open>m\<close> is the
  manager afterwards.\<close>

definition answers :: "int \<Rightarrow> transport \<Rightarrow> tcp_manager \<Rightarrow> int \<Rightarrow> bool" where
  "answers src t m q \<longleftrightarrow>
     (tp_type t = SYN \<or> tp_type t = FIN) \<and> q = i32 (tp_seqNum t + 1) \<or>
     tp_type t = DATA \<and> (\<exists>i < length (allSockets m). remoteAddr (get_sock i m) = src \<and> remotePort (get_sock i m) = tp_srcPort t \<and>
        q = rcvNxt (get_sock i m))"

context network
begin

lemma control_sat:
  "(\<And>t. tp_type t = SYN \<Longrightarrow> tp_srcPort t = localPort s \<Longrightarrow> Q a da t) \<Longrightarrow> adds onwire (pkt_sat Q) w (snd (sendSyn rt a s da dp w))"
  "(\<And>t. tp_type t = FIN \<Longrightarrow> tp_srcPort t = localPort s \<Longrightarrow> tp_seqNum t = i32 (finSeq s) \<Longrightarrow> Q a da t) \<Longrightarrow>
     adds onwire (pkt_sat Q) w (snd (sendFin rt a s da dp w))"
  "(\<And>t. tp_type t = ACK \<Longrightarrow> tp_destPort t = dp \<Longrightarrow> tp_seqNum t = i32 n \<Longrightarrow> Q a da t) \<Longrightarrow>
     adds onwire (pkt_sat Q) w (snd (sendAck rt a sp da dp n adv win w))"
  "(\<And>t. tp_type t = FIN \<Longrightarrow> tp_seqNum t = 0 \<Longrightarrow> Q a da t) \<Longrightarrow> adds onwire (pkt_sat Q) w (snd (sendFinFromPorts rt a sp da dp w))"
  by (simp_all add: sendSyn_def sendFin_def sendAck_def sendFinFromPorts_def send_sat i32_def)

lemma maybeFin_sat:
  assumes "\<And>dst t. tp_type t = FIN \<Longrightarrow> tp_srcPort t = localPort (get_sock i m) \<Longrightarrow> tp_seqNum t = i32 (sndNxt (get_sock i m)) \<Longrightarrow>
      sk_state (get_sock i m) = SHUTDOWN \<Longrightarrow> Q (tm_addr m) dst t" and i: "i < length (allSockets m)"
  shows "adds onwire (pkt_sat Q) w (snd (maybeSendFinOnDrain rt i m w))"
proof (cases "sk_state (get_sock i m) = SHUTDOWN")
  case True
  have "adds onwire (pkt_sat Q) w (snd (sendFin rt (tm_addr m) (get_sock i m\<lparr>finSeq := sndNxt (get_sock i m)\<rparr>) da dp w))" for da dp
    using assms(1) True by (intro control_sat(2)) simp
  then show ?thesis using i by (auto simp: maybeSendFinOnDrain_def Let_def split_beta split: bool.split)
qed (simp add: maybeSendFinOnDrain_def Let_def)

lemma onAck_sat:
  assumes wf: "man_wf m"
    and fin: "\<And>dst i u. i < length (allSockets m) \<Longrightarrow> tp_type u = FIN \<Longrightarrow> tp_srcPort u = localPort (get_sock i m) \<Longrightarrow>
        tp_seqNum u = i32 (sndNxt (get_sock i m)) \<Longrightarrow> sk_state (get_sock i m) = SHUTDOWN \<Longrightarrow> Q (tm_addr m) dst u"
  shows "adds onwire (pkt_sat Q) w (snd (onAck rt src t m w))"
proof -
  have est: "adds onwire (pkt_sat Q) w (snd (onAck_established rt i t m w))" if i: "i < length (allSockets m)" for i
    using i
  proof (cases rule: onAck_established_cases[of i m t rt w])
    case (new m2 w2)
    have "adds onwire (pkt_sat Q) w (snd (maybeSendFinOnDrain rt i (upd_sock i (acked_socket (rt_now rt (io_rt w)) t) m) w))"
      by (rule maybeFin_sat) (use fin i in \<open>auto simp: acked_socket_frame\<close>)
    then show ?thesis using new by simp
  qed simp_all
  show ?thesis
    using est man_wfD(4)[OF wf]
    by (auto simp: onAck_def Let_def split: option.split)
qed

lemma onData_sat:
  assumes wf: "man_wf m" and ty: "tp_type t = DATA"
    and ack: "\<And>u q. tp_type u = ACK \<Longrightarrow> tp_destPort u = tp_srcPort t \<Longrightarrow> answers src t (fst (onData rt src t m w)) q \<Longrightarrow>
        tp_seqNum u = i32 q \<Longrightarrow> Q (tm_addr m) src u"
  shows "adds onwire (pkt_sat Q) w (snd (onData rt src t m w))"
proof (cases "map_of (establishedByKey m) (mk_key src (tp_srcPort t) (tp_destPort t))")
  case (Some i)
  let ?s = "get_sock i m" and ?n = "int (length (tp_payload t))"
  have i: "i < length (allSockets m)" "remoteAddr ?s = src" "remotePort ?s = tp_srcPort t"
    using man_wfD(4)[OF wf Some] sock_okD(3)[OF man_wfD(1)[OF wf]] by (auto simp: sock_key_def mk_key_def)
  obtain k s1 where ap: "appendToRecvBuf (Some (tp_payload t)) 0 ?n ?s = (k, s1)" by fastforce
  let ?s2 = "s1\<lparr>rcvNxt := i32 (rcvNxt s1 + k)\<rparr>"
  have s2: "remoteAddr ?s2 = src" "remotePort ?s2 = tp_srcPort t"
    using ap i by (auto simp: appendToRecvBuf_def Let_def split: if_splits)
  have send: "adds onwire (pkt_sat Q) w (snd (sendAck rt (tm_addr m) sp src (tp_srcPort t) (rcvNxt s') adv win w1))"
    if m': "fst (onData rt src t m w) = m'" and s': "s' = get_sock i m'" "i < length (allSockets m')" "remoteAddr s' = src"
      "remotePort s' = tp_srcPort t" and w1: "io_rt w1 = io_rt w" for m' s' sp adv win w1
  proof -
    have "answers src t (fst (onData rt src t m w)) (rcvNxt s')" using ty m' s' by (auto simp: answers_def)
    then have "adds onwire (pkt_sat Q) w1 (snd (sendAck rt (tm_addr m) sp src (tp_srcPort t) (rcvNxt s') adv win w1))"
      using ack by (intro control_sat(3)) blast
    then show ?thesis using w1 by (simp add: adds_def)
  qed
  consider (drop') "\<not> (isConnected ?s \<or> isClosurePending ?s)"
    | (keep) "isConnected ?s \<or> isClosurePending ?s" "?n = 0 \<or> tp_seqNum t \<noteq> rcvNxt ?s \<or> getRecvBufAvailable ?s < ?n"
    | (accept) "isConnected ?s \<or> isClosurePending ?s" "?n \<noteq> 0" "tp_seqNum t = rcvNxt ?s" "\<not> getRecvBufAvailable ?s < ?n" by blast
  then show ?thesis
  proof cases
    case drop'
    then show ?thesis using Some by (simp add: onData_def)
  next
    case keep
    then have "fst (onData rt src t m w) = m" using Some by (auto simp: onData_def Let_def)
    from send[OF this refl i] keep show ?thesis using Some by (auto simp: onData_def Let_def)
  next
    case accept
    have "fst (onData rt src t m w) = upd_sock i (\<lambda>_. ?s2) m" using Some accept ap by (auto simp: onData_def Let_def)
    from send[OF this, of ?s2] accept i s2 show ?thesis using Some ap by (auto simp: onData_def Let_def)
  qed
qed (simp add: onData_def)

lemma receive_sat:
  assumes wf: "man_wf m" and r: "tm_receiveTransport rt src t m w = (m', w')"
    and ctl: "\<And>dst u. tp_type u = FIN \<Longrightarrow> tp_seqNum u = 0 \<Longrightarrow> Q (tm_addr m) dst u"
    and fin: "\<And>dst i u. i < length (allSockets m) \<Longrightarrow> tp_type u = FIN \<Longrightarrow> tp_srcPort u = localPort (get_sock i m) \<Longrightarrow>
        tp_seqNum u = i32 (sndNxt (get_sock i m)) \<Longrightarrow> sk_state (get_sock i m) = SHUTDOWN \<Longrightarrow> Q (tm_addr m) dst u"
    and ack: "\<And>u q. tp_type u = ACK \<Longrightarrow> tp_destPort u = tp_srcPort t \<Longrightarrow> answers src t m' q \<Longrightarrow> tp_seqNum u = i32 q \<Longrightarrow>
        Q (tm_addr m) src u"
  shows "adds onwire (pkt_sat Q) w w'"
proof -
  have 1: "adds onwire (pkt_sat Q) w (snd (onSyn rt src t m w))" if "tp_type t = SYN" for w
    using that ack ctl
    by (auto simp: onSyn_def Let_def answers_def tm_socket_def registerEstablished_def split: option.split intro!: control_sat)
  have 2: "adds onwire (pkt_sat Q) w (snd (onFin rt src t m w))" if "tp_type t = FIN" for w
    using that ack by (auto simp: onFin_def Let_def answers_def split: option.split intro!: control_sat(3))
  have 3: "adds onwire (pkt_sat Q) w (snd (onData rt src t m w))" if "tp_type t = DATA"
    using that ack r by (intro onData_sat[OF wf that]) (auto simp: tm_receiveTransport_def cxx_const)
  have 4: "adds onwire (pkt_sat Q) w (snd (onAck rt src t m w))" using fin by (intro onAck_sat[OF wf]) blast
  from r 1[of "cout ''S'' w"] 2[of "cout ''F'' w"] 3 4 show ?thesis
    by (auto simp: tm_receiveTransport_def split: if_splits)
qed

end


section \<open>Runs with genuine segments\<close>

text \<open>Both nodes are only given segments in the name of the other one that it has sent, the
  sender those addressed to it.\<close>

fun genuine :: "int \<Rightarrow> int option \<Rightarrow> wire_pkt set \<Rightarrow> tcp_call \<Rightarrow> bool" where
  "genuine peer self net (CallReceive src t) \<longleftrightarrow>
     (src = peer \<longrightarrow> (\<exists>x \<in> net.
        (case seg_of (snd (snd x)) of
           None \<Rightarrow> False
         | Some (s, dst, u) \<Rightarrow> s = src \<and> u = t \<and> (case self of None \<Rightarrow> True | Some a \<Rightarrow> dst = a))))"
| "genuine peer self net _ \<longleftrightarrow> True"

lemma genuineD:
  assumes "genuine peer self net (CallReceive src t)" "src = peer"
  obtains x dst where "x \<in> net" "seg_of (snd (snd x)) = Some (src, dst, t)" "self = Some a \<Longrightarrow> dst = a"
proof -
  obtain x where x: "x \<in> net" "case seg_of (snd (snd x)) of None \<Rightarrow> False
      | Some (s, dst, u) \<Rightarrow> s = src \<and> u = t \<and> (case self of None \<Rightarrow> True | Some a \<Rightarrow> dst = a)"
    using assms by (simp only: genuine.simps) blast
  then obtain s dst u where "seg_of (snd (snd x)) = Some (s, dst, u)" by (cases "seg_of (snd (snd x))") auto
  with x have "seg_of (snd (snd x)) = Some (src, dst, t)" "self = Some a \<Longrightarrow> dst = a" by auto
  with that x(1) show thesis by blast
qed

inductive reliable_step :: "'m runtime \<Rightarrow> ('m \<Rightarrow> wire_pkt set) \<Rightarrow> nat \<Rightarrow> int \<Rightarrow> 'm conn_sys \<Rightarrow> 'm conn_sys \<Rightarrow> bool"
  for rt onwire sk pa where
  sender: "tcp_do rt c (sys_A g) (sys_io g) = (m, w) \<Longrightarrow> call_ok c (sys_A g) \<Longrightarrow> man_room (sys_A g) \<Longrightarrow>
     port_free pa c \<Longrightarrow> genuine (tm_addr (sys_B g)) (Some (tm_addr (sys_A g))) (onwire (io_rt (sys_io g))) c \<Longrightarrow>
     reliable_step rt onwire sk pa g
       (g\<lparr>sys_A := m, sys_io := w, sys_written := sys_written g @ new_bytes sk c (sys_A g) m\<rparr>)"
| receiver: "tcp_do rt c (sys_B g) (sys_io g) = (m, w) \<Longrightarrow> call_ok c (sys_B g) \<Longrightarrow> man_room (sys_B g) \<Longrightarrow>
     genuine (tm_addr (sys_A g)) None (onwire (io_rt (sys_io g))) c \<Longrightarrow>
     reliable_step rt onwire sk pa g
       (g\<lparr>sys_B := m, sys_io := w, sys_read := read_bytes c (sys_B g) (sys_read g)\<rparr>)"
| wire: "onwire (io_rt w) \<subseteq> onwire (io_rt (sys_io g)) \<Longrightarrow>
     reliable_step rt onwire sk pa g (g\<lparr>sys_io := w\<rparr>)"

lemma genuine_authentic: "genuine a self net c \<Longrightarrow> authentic a pa net c"
proof (cases c)
  case (CallReceive src t)
  assume g: "genuine a self net c"
  show ?thesis
  proof (cases "src = a")
    case True
    with g CallReceive obtain x dst where "x \<in> net" "seg_of (snd (snd x)) = Some (src, dst, t)" using genuineD by blast
    then have "decode_pkt (snd (snd x)) = Some (src, t)" by (simp add: seg_of_decode)
    with \<open>x \<in> net\<close> show ?thesis using CallReceive by auto
  qed (simp add: CallReceive)
qed simp_all

lemma reliable_conn_step: "reliable_step rt onwire sk pa g g' \<Longrightarrow> conn_step rt onwire sk pa g g'"
  by (induction rule: reliable_step.induct) (auto intro: conn_step.intros genuine_authentic)

section \<open>The invariant\<close>

text \<open>The bytes before \<open>q\<close> are in a receiving socket, or were handed over by it.\<close>

definition held :: "int \<Rightarrow> int \<Rightarrow> byte list \<Rightarrow> (nat \<Rightarrow> byte list) \<Rightarrow> tcp_manager \<Rightarrow> int \<Rightarrow> bool" where
  "held a pa W rd m q \<longleftrightarrow> (\<exists>i < length (allSockets m). recv_ok W (rd i) (get_sock i m) \<and> q \<le> rcvNxt (get_sock i m) \<and>
     (remoteAddr (get_sock i m) = a \<and> remotePort (get_sock i m) = pa \<or>
      remoteAddr (get_sock i m) = - 1 \<and> remotePort (get_sock i m) = - 1))"

text \<open>A number beyond the end of a stream that will not grow: the acknowledgement of a FIN.\<close>

definition past_end :: "nat \<Rightarrow> tcp_manager \<Rightarrow> int \<Rightarrow> bool" where
  "past_end sk m q \<longleftrightarrow> sk_state (get_sock sk m) \<noteq> ESTABLISHED \<and> sndNxt (get_sock sk m) < q"

definition seg_fine ::
  "nat \<Rightarrow> int \<Rightarrow> byte list \<Rightarrow> (nat \<Rightarrow> byte list) \<Rightarrow> tcp_manager \<Rightarrow> tcp_manager \<Rightarrow> int \<Rightarrow> int \<Rightarrow> transport \<Rightarrow> bool" where
  "seg_fine sk pa W rd A B src dst t \<longleftrightarrow>
     (src = tm_addr A \<and> tp_srcPort t = pa \<longrightarrow> (tp_type t = SYN \<longrightarrow> tp_seqNum t \<le> 0) \<and>
        (tp_type t = FIN \<longrightarrow> tp_seqNum t \<le> 0 \<or> past_end sk A (tp_seqNum t + 1))) \<and>
     (src = tm_addr B \<and> dst = tm_addr A \<and> tp_type t = ACK \<and> tp_destPort t = pa \<longrightarrow>
        tp_seqNum t \<le> 1 \<or> held (tm_addr A) pa W rd B (tp_seqNum t) \<or> past_end sk A (tp_seqNum t))"

definition ack_inv :: "('m \<Rightarrow> wire_pkt set) \<Rightarrow> nat \<Rightarrow> int \<Rightarrow> 'm conn_sys \<Rightarrow> bool" where
  "ack_inv onwire sk pa g \<longleftrightarrow> conn_inv onwire sk pa g \<and> (\<forall>j. \<not> queued sk (sys_A g) j) \<and>
     (localPort (get_sock sk (sys_A g)) = pa \<and> remoteAddr (get_sock sk (sys_A g)) = tm_addr (sys_B g) \<or>
      localPort (get_sock sk (sys_A g)) = - 1) \<and>
     (\<forall>x \<in> onwire (io_rt (sys_io g)). pkt_sat (seg_fine sk pa (sys_written g) (sys_read g) (sys_A g) (sys_B g)) x) \<and>
     (sndUna (get_sock sk (sys_A g)) \<le> 1 \<or>
      held (tm_addr (sys_A g)) pa (sys_written g) (sys_read g) (sys_B g) (sndUna (get_sock sk (sys_A g))))"

lemma held_mono: "held a pa W rd m q \<Longrightarrow> held a pa (W @ V) rd m q"
  by (auto simp: held_def intro: recv_ok_mono)

lemma held_frame:
  assumes h: "held a pa W rd m q" and f: "rcv_frame a pa W m m'" "rcv_frame (- 1) (- 1) W m m'"
  shows "held a pa W rd m' q"
proof -
  obtain i where i: "i < length (allSockets m)" "recv_ok W (rd i) (get_sock i m)" "q \<le> rcvNxt (get_sock i m)"
    "remoteAddr (get_sock i m) = a \<and> remotePort (get_sock i m) = pa \<or> remoteAddr (get_sock i m) = - 1 \<and> remotePort (get_sock i m) = - 1"
    using h by (auto simp: held_def)
  have "same_conn (get_sock i m) (get_sock i m')" using f(1) i(1) by (simp add: rcv_frame_def)
  moreover have "recv_ok W (rd i) (get_sock i m') \<and> rcvNxt (get_sock i m) \<le> rcvNxt (get_sock i m')"
    using f i by (auto simp: rcv_frame_def)
  moreover have "i < length (allSockets m')" using f(1) i(1) by (simp add: rcv_frame_def)
  ultimately show ?thesis using i(3,4) by (auto simp: held_def same_conn_def)
qed

lemma held_step:
  assumes h: "held a pa W rd m q" and wf: "man_wf m" "man_room m" "int (length W) < 2 ^ 31 - 1" "call_ok c m"
    and r: "tcp_do rt c m w = (m', w')"
    and auth: "\<And>src t. c = CallReceive src t \<Longrightarrow> src = a \<Longrightarrow> tp_type t = DATA \<Longrightarrow> tp_srcPort t = pa \<Longrightarrow>
       seg_in W (tp_seqNum t) (tp_payload t)"
  shows "held a pa W (read_bytes c m rd) m' q"
proof (cases "\<exists>i pos len. c = CallRead i pos len")
  case True
  then obtain i pos len where c: "c = CallRead i pos len" by blast
  then have i: "i < length (allSockets m)" and m': "m' = upd_sock i (\<lambda>_. snd (sk_read True pos len (get_sock i m))) m"
    "snd (fst (tm_read i True pos len m)) = snd (fst (sk_read True pos len (get_sock i m)))"
    using wf(4) r by (auto simp: tm_read_def split_beta)
  have rd: "recv_ok W (read_bytes c m rd i) (get_sock i m')" if "recv_ok W (rd i) (get_sock i m)"
    using that i sk_read_moves[of True pos len "get_sock i m"] by (simp add: c m' recv_ok_def)
  obtain j where j: "j < length (allSockets m)" "recv_ok W (rd j) (get_sock j m)" "q \<le> rcvNxt (get_sock j m)"
    "remoteAddr (get_sock j m) = a \<and> remotePort (get_sock j m) = pa \<or> remoteAddr (get_sock j m) = - 1 \<and> remotePort (get_sock j m) = - 1"
    using h by (auto simp: held_def)
  have "recv_ok W (read_bytes c m rd j) (get_sock j m')"
    using rd j(2) by (cases "j = i") (simp_all add: c m'(1))
  moreover have "rcvNxt (get_sock j m') = rcvNxt (get_sock j m)" "remoteAddr (get_sock j m') = remoteAddr (get_sock j m)"
    "remotePort (get_sock j m') = remotePort (get_sock j m)"
    using i by (cases "j = i"; simp add: m'(1))+
  ultimately show ?thesis using j by (auto simp: held_def m'(1))
next
  case False
  have "rcv_frame a pa W m m'" "rcv_frame (- 1) (- 1) W m m'"
    using False wf(4) auth by (intro rcv_frame_do[OF wf r]; auto simp: transport_ok_def)+
  moreover have "read_bytes c m rd = rd" using False by (cases c) auto
  ultimately show ?thesis using held_frame[OF h] by simp
qed


subsection \<open>Steps of the sender\<close>

text \<open>A socket that is closing does not move: the number of its FIN stays at the end of the
  stream.\<close>

definition frozen :: "nat \<Rightarrow> tcp_manager \<Rightarrow> tcp_manager \<Rightarrow> bool" where
  "frozen sk m m' \<longleftrightarrow> (sk_state (get_sock sk m) \<noteq> ESTABLISHED \<longrightarrow>
     sk_state (get_sock sk m') \<noteq> ESTABLISHED \<and> sndNxt (get_sock sk m') = sndNxt (get_sock sk m))"

lemma frozenI: "still sk m m' \<Longrightarrow> frozen sk m m'" "moved sk t m m' \<Longrightarrow> frozen sk m m'"
  by (auto simp: frozen_def still_def stays_def moved_def acked_def)

lemma past_end_frozen: "past_end sk m q \<Longrightarrow> frozen sk m m' \<Longrightarrow> past_end sk m' q"
  by (auto simp: past_end_def frozen_def)

lemma fin_past_end:
  assumes wf: "sock_wf (get_sock sk m)" and fr: "frozen sk m m'"
    and st: "sk_state (get_sock sk m) = SHUTDOWN" and q: "q = i32 (sndNxt (get_sock sk m))"
  shows "past_end sk m' (q + 1)"
proof -
  from wf have "i32 (sndNxt (get_sock sk m)) = sndNxt (get_sock sk m)" by (intro i32_id) (simp add: sock_wf_defs)
  then show ?thesis using q fr st by (auto simp: past_end_def frozen_def)
qed

lemma sender_invD:
  assumes "sender_inv pa sk W m"
  shows "sock_wf (get_sock sk m)" "i < length (allSockets m) \<Longrightarrow> localPort (get_sock i m) = pa \<Longrightarrow> i = sk"
  using assms man_wfD(1)[of m sk] by (auto simp: sender_inv_def dest: sock_okD)

context network
begin

lemma close_sat:
  assumes inv: "sender_inv pa sk W m" and i: "i < length (allSockets m)" and r: "tm_close rt i m w = (m', w')"
    and Q: "\<And>dst t. tp_type t = FIN \<Longrightarrow> (tp_srcPort t = pa \<Longrightarrow> past_end sk m' (tp_seqNum t + 1)) \<Longrightarrow> Q (tm_addr m) dst t"
  shows "adds onwire (pkt_sat Q) w w'"
proof (cases "sk_state (get_sock i m) = ESTABLISHED")
  case True
  let ?m = "upd_sock i (\<lambda>s. s\<lparr>sk_state := SHUTDOWN\<rparr>) m"
  have e: "maybeSendFinOnDrain rt i ?m w = (m', w')" using r True by (simp add: tm_close_def Let_def)
  have fr: "frozen sk ?m m'" using still_maybeFin[of sk ?m rt i w] e by (simp add: frozenI)
  have wf: "sock_wf (get_sock sk ?m)" using sender_invD(1)[OF inv] i by (cases "i = sk") (auto simp: sock_wf_defs)
  have "adds onwire (pkt_sat Q) w (snd (maybeSendFinOnDrain rt i ?m w))"
  proof (rule maybeFin_sat)
    fix dst and t :: transport assume t: "tp_type t = FIN" "tp_srcPort t = localPort (get_sock i ?m)" "tp_seqNum t = i32 (sndNxt (get_sock i ?m))"
      "sk_state (get_sock i ?m) = SHUTDOWN"
    then have "past_end sk m' (tp_seqNum t + 1)" if "tp_srcPort t = pa"
      using fin_past_end[OF wf fr, of "tp_seqNum t"] i that sender_invD(2)[OF inv i] by auto
    with Q t(1) show "Q (tm_addr ?m) dst t" by simp
  qed (simp add: i)
  then show ?thesis using e by simp
next
  case False
  then show ?thesis using r by (auto simp: tm_close_def Let_def split: if_splits)
qed

lemma open_client_sat:
  assumes "\<And>dst t. tp_type t = SYN \<Longrightarrow> tp_srcPort t = port \<Longrightarrow> Q (tm_addr m) dst t"
  shows "adds onwire (pkt_sat Q) w (snd (snd (snd (open_client rt port da dp m w))))"
proof -
  have "adds onwire (pkt_sat Q) w (snd (sendSyn rt (tm_addr m) s da dp w))" if "localPort s = port" for s
    using assms that by (intro control_sat(1)) simp
  then show ?thesis
    by (auto simp: open_client_def tm_socket_def tm_bind_def tm_connect_def sk_bind_def upd_sock_def get_sock_def
        nth_append Let_def split_beta split: bool.split)
qed

lemma sender_sat:
  assumes inv: "sender_inv pa sk W m" and ok: "man_room m" "call_ok c m" "port_free pa c" and r: "tcp_do rt c m w = (m', w')"
    and nq: "\<And>j. \<not> queued sk m j" and ab: "tm_addr m \<noteq> tm_addr B"
  shows "adds onwire (pkt_sat (seg_fine sk pa W' rd m' B)) w w'"
proof -
  let ?Q = "seg_fine sk pa W' rd m' B"
  have wf: "man_wf m" and sk: "sk < length (allSockets m)" "sk \<notin> snd ` set (synPendingByKey m)" using inv by (auto simp: sender_inv_def)
  have ad: "tm_addr m' = tm_addr m" using tcp_do_addr[OF wf, of rt c w] r by simp
  have fr: "frozen sk m m'" using tcp_do_moves[OF wf ok(1,2) sk nq r] frozenI by blast
  have data: "?Q src dst t" if "tp_type t = DATA" for src dst t using that by (simp add: seg_fine_def cxx_const)
  have own: "?Q (tm_addr m) dst t" if "tp_type t = SYN \<Longrightarrow> tp_srcPort t = pa \<Longrightarrow> tp_seqNum t \<le> 0"
    "tp_type t = FIN \<Longrightarrow> tp_srcPort t = pa \<Longrightarrow> tp_seqNum t \<le> 0 \<or> past_end sk m' (tp_seqNum t + 1)" for dst t
    using that ab by (auto simp: seg_fine_def ad)
  show ?thesis
  proof (cases c)
    case (CallClient port da dp)
    have "adds onwire (pkt_sat ?Q) w (snd (snd (snd (open_client rt port da dp m w))))"
      using ok(3) CallClient by (intro open_client_sat own) (auto simp: cxx_const)
    then show ?thesis using CallClient r by simp
  next
    case (CallWrite i buf pos len)
    then show ?thesis using write_sat[of ?Q w i "Some buf" pos len m] data r by simp
  next
    case (CallClose i)
    then show ?thesis using ok(2) r by (intro close_sat[OF inv, of i w m' w']) (auto intro!: own simp: cxx_const)
  next
    case (CallReceive src t)
    show ?thesis
    proof (rule receive_sat[OF wf])
      show "tm_receiveTransport rt src t m w = (m', w')" using r CallReceive by simp
    next
      fix dst i and u :: transport assume "i < length (allSockets m)" "tp_type u = FIN" "tp_srcPort u = localPort (get_sock i m)"
        "tp_seqNum u = i32 (sndNxt (get_sock i m))" "sk_state (get_sock i m) = SHUTDOWN"
      then show "?Q (tm_addr m) dst u" using fin_past_end[OF sender_invD(1)[OF inv] fr, of "tp_seqNum u"] sender_invD(2)[OF inv, of i]
        by (intro own) (auto simp: cxx_const)
    qed (auto intro!: own simp: cxx_const)
  next
    case CallTick
    then show ?thesis using tick_sat[of ?Q w m] data r by simp
  qed (use r in auto)
qed

end


subsection \<open>Steps of the receiver\<close>

text \<open>What acknowledges a genuine segment is below what is held, or beyond the end of the stream.\<close>

lemma answer_fine:
  assumes t: "seg_fine sk pa W rd A B src dst t" "src = tm_addr A" "tp_srcPort t = pa" "transport_ok t"
    and an: "answers src t m q" and recv: "receiver_inv (tm_addr A) pa W rd' m" and W: "int (length W) < 2 ^ 31 - 1"
  shows "i32 q \<le> 1 \<or> held (tm_addr A) pa W rd' m (i32 q) \<or> past_end sk A (i32 q)"
proof -
  have seq: "in_i32 (tp_seqNum t)" using t(4) by (simp add: transport_ok_def)
  from an consider (ctl) "tp_type t = SYN \<or> tp_type t = FIN" "q = i32 (tp_seqNum t + 1)"
    | (data) i where "i < length (allSockets m)" "remoteAddr (get_sock i m) = src" "remotePort (get_sock i m) = tp_srcPort t"
        "q = rcvNxt (get_sock i m)" by (auto simp: answers_def)
  then show ?thesis
  proof cases
    case ctl
    have cases: "tp_seqNum t \<le> 0 \<or> past_end sk A (tp_seqNum t + 1)" using t ctl(1) by (auto simp: seg_fine_def)
    have "i32 (tp_seqNum t + 1) = tp_seqNum t + 1 \<or> i32 (tp_seqNum t + 1) \<le> 1"
    proof (cases "tp_seqNum t = 2 ^ 31 - 1")
      case False
      then show ?thesis using seq by (auto intro!: i32_id simp: in_i32_def)
    qed (simp add: i32_def)
    moreover have "i32 (i32 x) = i32 x" for x by (simp add: i32_def)
    ultimately show ?thesis using cases ctl(2) by auto
  next
    case data
    then have ok: "recv_ok W (rd' i) (get_sock i m)" using recv t by (simp add: receiver_inv_def)
    then have "i32 q = q" using data(4) W by (intro i32_id) (auto simp: in_i32_def recv_ok_def)
    then show ?thesis using ok data t by (auto simp: held_def)
  qed
qed

context network
begin

lemma receiver_sat:
  assumes wf: "man_wf B" "call_ok c B" and r: "tcp_do rt c B w = (m, w')" and ab: "tm_addr A \<noteq> tm_addr B"
    and gen: "genuine (tm_addr A) None net c" and net: "\<And>x. x \<in> net \<Longrightarrow> pkt_sat (seg_fine sk pa W rd A B) x"
    and recv: "receiver_inv (tm_addr A) pa W rd' m" and W: "int (length W) < 2 ^ 31 - 1"
  shows "adds onwire (pkt_sat (seg_fine sk pa W rd' A m)) w w'"
proof -
  let ?Q = "seg_fine sk pa W rd' A m"
  have ad: "tm_addr m = tm_addr B" using tcp_do_addr[OF wf(1), of rt c w] r by simp
  have data: "?Q src dst t" if "tp_type t = DATA" for src dst t using that by (simp add: seg_fine_def cxx_const)
  have own: "?Q (tm_addr B) dst t" if "tp_type t = ACK \<Longrightarrow> dst = tm_addr A \<Longrightarrow> tp_destPort t = pa \<Longrightarrow>
      tp_seqNum t \<le> 1 \<or> held (tm_addr A) pa W rd' m (tp_seqNum t) \<or> past_end sk A (tp_seqNum t)" for dst t
    using that ab by (auto simp: seg_fine_def ad)
  have fin: "?Q (tm_addr B) dst t" if "tp_type t = SYN \<or> tp_type t = FIN" for dst t
    using that by (intro own) (auto simp: cxx_const)
  show ?thesis
  proof (cases c)
    case (CallClient port da dp)
    have "adds onwire (pkt_sat ?Q) w (snd (snd (snd (open_client rt port da dp B w))))"
      using fin by (intro open_client_sat) auto
    then show ?thesis using CallClient r by simp
  next
    case (CallWrite i buf pos len)
    then show ?thesis using write_sat[of ?Q w i "Some buf" pos len B] data r by simp
  next
    case (CallClose i)
    have "adds onwire (pkt_sat ?Q) w (snd (maybeSendFinOnDrain rt i (upd_sock i (\<lambda>s. s\<lparr>sk_state := SHUTDOWN\<rparr>) B) w))"
      using wf(2) CallClose fin by (intro maybeFin_sat) auto
    then show ?thesis using r CallClose by (auto simp: tm_close_def Let_def split: if_splits)
  next
    case (CallReceive src t)
    show ?thesis
    proof (rule receive_sat[OF wf(1)])
      show "tm_receiveTransport rt src t B w = (m, w')" using r CallReceive by simp
    next
      fix u :: transport and q assume u: "tp_type u = ACK" "tp_destPort u = tp_srcPort t" "answers src t m q" "tp_seqNum u = i32 q"
      show "?Q (tm_addr B) src u"
      proof (rule own)
        assume s: "src = tm_addr A" "tp_destPort u = pa"
        obtain x dst where "x \<in> net" "seg_of (snd (snd x)) = Some (src, dst, t)"
          using genuineD[OF gen[unfolded CallReceive] s(1)] by blast
        then have "seg_fine sk pa W rd A B src dst t" using net by (auto simp: pkt_sat_def)
        from answer_fine[OF this s(1) _ _ u(3) recv W] u(2,4) s(2) wf(2) CallReceive
        show "tp_seqNum u \<le> 1 \<or> held (tm_addr A) pa W rd' m (tp_seqNum u) \<or> past_end sk A (tp_seqNum u)" by simp
      qed
    qed (use fin in auto)
  next
    case CallTick
    then show ?thesis using tick_sat[of ?Q w B] data r by simp
  qed (use r in auto)
qed

end


subsection \<open>Every step\<close>

text \<open>How the claims about packets under way survive a step.\<close>

lemma seg_fine_step:
  assumes "seg_fine sk pa W rd A B src dst t" "tm_addr A' = tm_addr A" "tm_addr B' = tm_addr B" "frozen sk A A'"
    and "\<And>q. held (tm_addr A) pa W rd B q \<Longrightarrow> held (tm_addr A) pa W' rd' B' q"
  shows "seg_fine sk pa W' rd' A' B' src dst t"
  using assms past_end_frozen[OF _ assms(4)] unfolding seg_fine_def by metis

lemma adds_all:
  assumes "adds onwire P w w'" "\<forall>x \<in> onwire (io_rt w). Q x" "\<And>x. Q x \<Longrightarrow> P x"
  shows "\<forall>x \<in> onwire (io_rt w'). P x"
  using assms by (auto simp: adds_def)

lemma conn_inv_parts:
  assumes "conn_inv onwire sk pa g"
  shows "0 \<le> pa" "sender_inv pa sk (sys_written g) (sys_A g)"
    "receiver_inv (tm_addr (sys_A g)) pa (sys_written g) (sys_read g) (sys_B g)"
    "tm_addr (sys_A g) \<noteq> tm_addr (sys_B g)" "int (length (sys_written g)) < 2 ^ 31 - 1"
proof -
  show i: "0 \<le> pa" "sender_inv pa sk (sys_written g) (sys_A g)"
    "receiver_inv (tm_addr (sys_A g)) pa (sys_written g) (sys_read g) (sys_B g)" using assms by (auto simp: conn_inv_def)
  show "tm_addr (sys_A g) \<noteq> tm_addr (sys_B g)" using i(3) by (auto simp: receiver_inv_def)
  have "sock_wf (get_sock sk (sys_A g))" by (rule sender_invD(1)[OF i(2)])
  then show "int (length (sys_written g)) < 2 ^ 31 - 1"
    using i(2) by (auto simp: sender_inv_def sock_wf_defs in_i32_def)
qed

context network
begin

lemma ack_inv_sender:
  assumes inv: "ack_inv onwire sk pa g" and r: "tcp_do rt c (sys_A g) (sys_io g) = (m, w)" and ok: "call_ok c (sys_A g)" "man_room (sys_A g)"
    "port_free pa c" and gen: "genuine (tm_addr (sys_B g)) (Some (tm_addr (sys_A g))) (onwire (io_rt (sys_io g))) c"
    and ci': "conn_inv onwire sk pa (g\<lparr>sys_A := m, sys_io := w, sys_written := sys_written g @ new_bytes sk c (sys_A g) m\<rparr>)"
  shows "ack_inv onwire sk pa (g\<lparr>sys_A := m, sys_io := w, sys_written := sys_written g @ new_bytes sk c (sys_A g) m\<rparr>)"
proof -
  let ?A = "sys_A g" and ?B = "sys_B g" and ?W = "sys_written g" and ?rd = "sys_read g"
  let ?W' = "?W @ new_bytes sk c ?A m"
  have ci: "conn_inv onwire sk pa g" and nq: "\<And>j. \<not> queued sk ?A j"
    and co: "localPort (get_sock sk ?A) = pa \<and> remoteAddr (get_sock sk ?A) = tm_addr ?B \<or> localPort (get_sock sk ?A) = - 1"
    and net: "\<forall>x \<in> onwire (io_rt (sys_io g)). pkt_sat (seg_fine sk pa ?W ?rd ?A ?B) x"
    and una: "sndUna (get_sock sk ?A) \<le> 1 \<or> held (tm_addr ?A) pa ?W ?rd ?B (sndUna (get_sock sk ?A))"
    using inv by (auto simp: ack_inv_def)
  note i = conn_inv_parts[OF ci]
  have wf: "man_wf ?A" and sk: "sk < length (allSockets ?A)" "sk \<notin> snd ` set (synPendingByKey ?A)"
    using i(2) by (auto simp: sender_inv_def)
  have ad: "tm_addr m = tm_addr ?A" using tcp_do_addr[OF wf, of rt c "sys_io g"] r by simp
  from tcp_do_moves[OF wf ok(2,1) sk nq r] consider (still) "still sk ?A m"
    | (moved) src t where "c = CallReceive src t" "tp_type t = ACK" "remoteAddr (get_sock sk ?A) = src"
        "localPort (get_sock sk ?A) = tp_destPort t" "moved sk t ?A m" by blast
  then have eff: "frozen sk ?A m \<and> same_conn (get_sock sk ?A) (get_sock sk m) \<and> (\<forall>j. \<not> queued sk m j) \<and>
     (sndUna (get_sock sk m) \<le> 1 \<or> held (tm_addr ?A) pa ?W ?rd ?B (sndUna (get_sock sk m)))"
  proof cases
    case still
    then show ?thesis using una nq frozenI(1)[OF still] by (auto simp: still_def stays_def)
  next
    case moved
    have "0 \<le> tp_destPort t" using ok(1) moved(1) by (simp add: transport_ok_def)
    then have p: "tp_destPort t = pa" "src = tm_addr ?B" using co moved(3,4) by auto
    then obtain x where "x \<in> onwire (io_rt (sys_io g))" "seg_of (snd (snd x)) = Some (src, tm_addr ?A, t)"
      using genuineD[OF gen[unfolded moved(1)], of "tm_addr ?A"] by blast
    then have "tp_seqNum t \<le> 1 \<or> held (tm_addr ?A) pa ?W ?rd ?B (tp_seqNum t) \<or> past_end sk ?A (tp_seqNum t)"
      using net p moved(2) by (fastforce simp: pkt_sat_def seg_fine_def)
    then show ?thesis using moved(5) nq frozenI(2)[OF moved(5)] by (auto simp: moved_def acked_def past_end_def)
  qed
  have ad_all: "adds onwire (pkt_sat (seg_fine sk pa ?W' ?rd m ?B)) (sys_io g) w"
    by (rule sender_sat[OF i(2) ok(2,1,3) r nq i(4)])
  have "\<forall>x \<in> onwire (io_rt w). pkt_sat (seg_fine sk pa ?W' ?rd m ?B) x"
    by (rule adds_all[OF ad_all net]) (use eff ad in \<open>auto elim!: pkt_sat_mono intro: seg_fine_step held_mono\<close>)
  moreover have "localPort (get_sock sk m) = pa \<and> remoteAddr (get_sock sk m) = tm_addr ?B \<or> localPort (get_sock sk m) = - 1"
    using co eff by (auto simp: same_conn_def)
  ultimately show ?thesis using ci' eff ad held_mono by (auto simp: ack_inv_def)
qed

lemma ack_inv_receiver:
  assumes inv: "ack_inv onwire sk pa g" and r: "tcp_do rt c (sys_B g) (sys_io g) = (m, w)" and ok: "call_ok c (sys_B g)" "man_room (sys_B g)"
    and gen: "genuine (tm_addr (sys_A g)) None (onwire (io_rt (sys_io g))) c"
    and ci': "conn_inv onwire sk pa (g\<lparr>sys_B := m, sys_io := w, sys_read := read_bytes c (sys_B g) (sys_read g)\<rparr>)"
  shows "ack_inv onwire sk pa (g\<lparr>sys_B := m, sys_io := w, sys_read := read_bytes c (sys_B g) (sys_read g)\<rparr>)"
proof -
  let ?A = "sys_A g" and ?B = "sys_B g" and ?W = "sys_written g" and ?rd = "sys_read g"
  let ?rd' = "read_bytes c ?B ?rd"
  have ci: "conn_inv onwire sk pa g"
    and net: "\<forall>x \<in> onwire (io_rt (sys_io g)). pkt_sat (seg_fine sk pa ?W ?rd ?A ?B) x"
    using inv by (auto simp: ack_inv_def)
  note i = conn_inv_parts[OF ci]
  have wf: "man_wf ?B" using i(3) by (simp add: receiver_inv_def)
  have ad: "tm_addr m = tm_addr ?B" using tcp_do_addr[OF wf, of rt c "sys_io g"] r by simp
  have auth: "seg_in ?W (tp_seqNum t) (tp_payload t)"
    if "c = CallReceive src t" "src = tm_addr ?A" "tp_type t = DATA" "tp_srcPort t = pa" for src t
    using genuine_authentic[OF gen, of pa] that ci by (auto simp: conn_inv_def data_ok_def)
  have held: "held (tm_addr ?A) pa ?W ?rd' m q" if "held (tm_addr ?A) pa ?W ?rd ?B q" for q
    using held_step[OF that wf ok(2) i(5) ok(1) r] auth by blast
  have recv: "receiver_inv (tm_addr ?A) pa ?W ?rd' m" using ci' by (simp add: conn_inv_def)
  have ad_all: "adds onwire (pkt_sat (seg_fine sk pa ?W ?rd' ?A m)) (sys_io g) w"
    by (rule receiver_sat[OF wf ok(1) r i(4) gen _ recv i(5)]) (use net in blast)
  have "\<forall>x \<in> onwire (io_rt w). pkt_sat (seg_fine sk pa ?W ?rd' ?A m) x"
    by (rule adds_all[OF ad_all net]) (use ad held in \<open>auto elim!: pkt_sat_mono intro: seg_fine_step simp: frozen_def\<close>)
  then show ?thesis using inv ci' ad held by (auto simp: ack_inv_def)
qed

lemma ack_inv_step:
  assumes step: "reliable_step rt onwire sk pa g g'" and inv: "ack_inv onwire sk pa g"
  shows "ack_inv onwire sk pa g'"
proof -
  have ci: "conn_inv onwire sk pa g'"
    using conn_inv_step[OF reliable_conn_step[OF step]] inv by (simp add: ack_inv_def)
  from step show ?thesis
  proof cases
    case (sender c m w)
    then show ?thesis using ack_inv_sender[OF inv] ci by simp
  next
    case (receiver c m w)
    then show ?thesis using ack_inv_receiver[OF inv] ci by simp
  next
    case (wire w)
    then show ?thesis using inv ci by (auto simp: ack_inv_def)
  qed
qed

lemma ack_inv_run:
  assumes "(reliable_step rt onwire sk pa)\<^sup>*\<^sup>* g g'" "ack_inv onwire sk pa g"
  shows "ack_inv onwire sk pa g'"
  using assms by (induction rule: rtranclp_induct) (auto intro: ack_inv_step)

end


section \<open>Properties\<close>

lemma ack_inv_handshake:
  assumes v: "validAddress a" "validAddress b" "valid_port pa" "valid_port pb" and ab: "a \<noteq> b"
  shows "ack_inv (\<lambda>m. set (wr_log m)) 0 pa (handshake a pa b pb backlog)"
proof -
  let ?g = "handshake a pa b pb backlog"
  obtain w bs bs' src t src' t' B where h: "sys_A ?g = \<lparr>tm_addr = a, allSockets = [client_sock pa b pb], listenersByPort = [],
        synPendingByKey = [], establishedByKey = [(mk_key b pb pa, 0)]\<rparr>" "tm_addr (sys_B ?g) = b" "sys_io ?g = w"
    and log: "wr_log (io_rt w) = [(a, b, bs), (b, a, bs')]" "decode_pkt bs = Some (src, t)" "tp_type t = SYN"
      "decode_pkt bs' = Some (src', t')" "tp_type t' = ACK" "tp_seqNum t = 0" "tp_seqNum t' = 1"
    by (rule handshake_state[OF v, of backlog]) auto
  have "pkt_sat (seg_fine 0 pa W rd A B) (a, b, bs)" "pkt_sat (seg_fine 0 pa W rd A B) (b, a, bs')" for W rd A B
    using log by (auto simp: pkt_sat_def seg_fine_def cxx_const dest!: seg_of_decode)
  then show ?thesis
    using conn_inv_handshake[OF v ab, of backlog] h log(1)
    by (auto simp: ack_inv_def queued_def get_sock_def client_sock_def tcp_socket_ctor_def)
qed

text \<open>C2. No acknowledged byte is lost. Two nodes have shaken hands; whatever calls they make
  afterwards, the opening of further connections and the closing of this one included, and
  whichever packets the network loses, duplicates or reorders, as long as it invents none: the
  bytes that the sending socket counts as acknowledged, and may have discarded, have been
  received by a socket of the other node, which holds them or has handed them over.\<close>

theorem acknowledged_data_received:
  assumes "validAddress a" "validAddress b" "valid_port pa" "valid_port pb" "a \<noteq> b"
    and "(reliable_step wire_rt (\<lambda>m. set (wr_log m)) 0 pa)\<^sup>*\<^sup>* (handshake a pa b pb backlog) g"
    and "1 < sndUna (get_sock 0 (sys_A g))"
  shows "\<exists>i < length (allSockets (sys_B g)).
    prefix (take (nat (sndUna (get_sock 0 (sys_A g)) - 1)) (sys_written g)) (sys_read g i @ recvBuf (get_sock i (sys_B g)))"
proof -
  let ?q = "sndUna (get_sock 0 (sys_A g))" and ?W = "sys_written g"
  have "ack_inv (\<lambda>m. set (wr_log m)) 0 pa g"
    using wire.ack_inv_run[OF assms(6) ack_inv_handshake[OF assms(1-5)]] .
  then have "held (tm_addr (sys_A g)) pa ?W (sys_read g) (sys_B g) ?q" using assms(7) by (auto simp: ack_inv_def)
  then obtain i where i: "i < length (allSockets (sys_B g))" "recv_ok ?W (sys_read g i) (get_sock i (sys_B g))"
    "?q \<le> rcvNxt (get_sock i (sys_B g))" by (auto simp: held_def)
  have "take (nat (?q - 1)) ?W = take (nat (?q - 1)) (take (nat (rcvNxt (get_sock i (sys_B g)) - 1)) ?W)"
    using i(3) by (simp add: min_def)
  also have "prefix \<dots> (sys_read g i @ recvBuf (get_sock i (sys_B g)))"
    using i(2) by (simp add: recv_ok_def take_is_prefix del: take_take)
  finally show ?thesis using i(1) by blast
qed

text \<open>A run: three bytes are written, the segment arrives, the acknowledgement comes back.\<close>

definition ack_seg :: transport where
  "ack_seg = \<lparr>tp_srcPort = 20, tp_destPort = 10, tp_type = ACK, tp_window = RECV_BUF_CAP - 3, tp_seqNum = 4, tp_payload = []\<rparr>"

definition acked_run :: "wire conn_sys" where
  "acked_run = sender_do wire_rt 0 (CallReceive 2 ack_seg) run2"

lemma acked_run_reached: "(reliable_step wire_rt (\<lambda>m. set (wr_log m)) 0 10)\<^sup>*\<^sup>* (handshake 1 10 2 20 5) acked_run"
proof -
  have g1: "genuine (tm_addr (sys_A run1)) None (set (wr_log (io_rt (sys_io run1)))) (CallReceive 1 run_seg)" by code_simp
  have g2: "genuine (tm_addr (sys_B run2)) (Some (tm_addr (sys_A run2))) (set (wr_log (io_rt (sys_io run2)))) (CallReceive 2 ack_seg)"
    by code_simp
  have "reliable_step wire_rt (\<lambda>m. set (wr_log m)) 0 10 run0 run1"
    unfolding run1_def sender_do_def split_beta Let_def
    by (rule reliable_step.sender[OF prod.collapse[symmetric]]; code_simp)
  moreover have "reliable_step wire_rt (\<lambda>m. set (wr_log m)) 0 10 run1 run2"
    unfolding run2_def receiver_do_def split_beta Let_def
    by (rule reliable_step.receiver[where onwire = "\<lambda>m. set (wr_log m)", OF prod.collapse[symmetric]]) (code_simp, code_simp, rule g1)
  moreover have "reliable_step wire_rt (\<lambda>m. set (wr_log m)) 0 10 run2 acked_run"
    unfolding acked_run_def sender_do_def split_beta Let_def
    by (rule reliable_step.sender[where onwire = "\<lambda>m. set (wr_log m)", OF prod.collapse[symmetric]])
       (code_simp, code_simp, simp, rule g2)
  ultimately show ?thesis unfolding run0_def[symmetric] by (meson converse_rtranclp_into_rtranclp rtranclp.rtrancl_refl)
qed

theorem acknowledged_data_received_witness:
  "sndUna (get_sock 0 (sys_A acked_run)) = 4 \<and> outstanding (get_sock 0 (sys_A acked_run)) = [] \<and>
   (\<exists>i < length (allSockets (sys_B acked_run)).
      prefix [7, 8, 9] (sys_read acked_run i @ recvBuf (get_sock i (sys_B acked_run))))"
proof -
  have u: "sndUna (get_sock 0 (sys_A acked_run)) = 4" "outstanding (get_sock 0 (sys_A acked_run)) = []"
    "take 3 (sys_written acked_run) = [7, 8, 9]" by code_simp+
  moreover have "validAddress 1" "validAddress 2" "valid_port 10" "valid_port 20"
    by (simp_all add: validAddress_def valid_port_def cxx_const)
  ultimately show ?thesis using acknowledged_data_received[OF _ _ _ _ _ acked_run_reached] by auto
qed

end
