(* ===== verification/Transfer_App.thy ===== *)
theory Transfer_App
  imports Tcp_Invariant
begin

text \<open>
  The transfer application (\<open>apps/\<close>): \<open>TimerTask\<close>, a callback that runs again and
  again, and its subclasses \<open>TransferClient\<close>, \<open>TransferServer\<close> and
  \<open>TransferWorker\<close>. A task is named by its index in its node's list of tasks. An
  exception that leaves \<open>execute\<close>, or a division by zero in it, is an \<open>Inl\<close>, with
  the state in which it left; the task is not scheduled again. The \<open>double\<close> of the client's report is an exact rational.
\<close>

definition DEFAULT_CLIENT_INTERVAL :: int where [cxx_const]: "DEFAULT_CLIENT_INTERVAL = 1000"
definition DEFAULT_SERVER_INTERVAL :: int where [cxx_const]: "DEFAULT_SERVER_INTERVAL = 1000"
definition DEFAULT_WORKER_INTERVAL :: int where [cxx_const]: "DEFAULT_WORKER_INTERVAL = 1000"
definition DEFAULT_BUFFER_SZ :: int where [cxx_const]: "DEFAULT_BUFFER_SZ = 65536"

record transfer_client =
  tc_interval :: int
  tc_sock :: nat
  tc_buf :: "byte list"
  tc_amount :: int
  tc_startTime :: int
  tc_finishTime :: int
  tc_pos :: int

record transfer_server =
  ts_interval :: int
  ts_serverSock :: nat
  ts_workerInterval :: int
  ts_bufSize :: int

record transfer_worker =
  tw_interval :: int
  tw_sock :: nat
  tw_buf :: "byte list"
  tw_pos :: int

datatype task = Client transfer_client | Server transfer_server | Worker transfer_worker

section \<open>TimerTask\<close>

definition setInterval :: "int \<Rightarrow> int \<Rightarrow> int" where
  "setInterval intervalMs old = (if intervalMs > 0 then intervalMs else old)"

fun task_interval :: "task \<Rightarrow> int" where
  "task_interval (Client c) = tc_interval c"
| "task_interval (Server s) = ts_interval s"
| "task_interval (Worker k) = tw_interval k"

text \<open>\<open>schedule\<close>; \<open>start\<close> is the same.\<close>

definition task_schedule :: "'m runtime \<Rightarrow> int \<Rightarrow> nat \<Rightarrow> int \<Rightarrow> 'm io \<Rightarrow> 'm io" where
  "task_schedule rt addr idx interval w =
     (if interval \<le> 0 then w
      else addTimer_io rt addr interval (Some (CbTaskTick addr idx)) w)"

section \<open>Constructors\<close>

text \<open>\<open>std::vector<uint8_t> buf(n)\<close> of a negative \<open>n\<close> throws.\<close>

definition mk_buf :: "int \<Rightarrow> exn + byte list" where
  "mk_buf n = (if n < 0 then Inl (LengthError ''cannot create std::vector larger than max_size()'')
               else Inr (replicate (nat n) 0))"

definition transfer_client_ctor :: "nat \<Rightarrow> int \<Rightarrow> int \<Rightarrow> int \<Rightarrow> exn + transfer_client" where
  "transfer_client_ctor sock amount intervalMs bufSize =
     (case mk_buf bufSize of
        Inl e \<Rightarrow> Inl e
      | Inr b \<Rightarrow> Inr \<lparr>tc_interval = setInterval intervalMs intervalMs, tc_sock = sock, tc_buf = b,
                       tc_amount = amount, tc_startTime = 0, tc_finishTime = 0, tc_pos = 0\<rparr>)"

definition transfer_server_ctor :: "nat \<Rightarrow> int \<Rightarrow> int \<Rightarrow> int \<Rightarrow> transfer_server" where
  "transfer_server_ctor sock serverInterval workerInterval bufSize =
     \<lparr>ts_interval = setInterval serverInterval serverInterval, ts_serverSock = sock,
      ts_workerInterval = workerInterval, ts_bufSize = bufSize\<rparr>"

definition transfer_worker_ctor :: "nat \<Rightarrow> int \<Rightarrow> int \<Rightarrow> exn + transfer_worker" where
  "transfer_worker_ctor sock intervalMs bufSize =
     (case mk_buf bufSize of
        Inl e \<Rightarrow> Inl e
      | Inr b \<Rightarrow> Inr \<lparr>tw_interval = setInterval intervalMs intervalMs, tw_sock = sock, tw_buf = b,
                       tw_pos = 0\<rparr>)"

section \<open>Logging\<close>

definition log_lines :: "(string \<Rightarrow> 'm io \<Rightarrow> 'm io) \<Rightarrow> string list \<Rightarrow> 'm io \<Rightarrow> 'm io" where
  "log_lines lg ls w = fold lg ls w"

definition now_str :: "'m runtime \<Rightarrow> 'm io \<Rightarrow> string" where
  "now_str rt w = string_of_int (rt_now rt (io_rt w))"

text \<open>\<open>std::to_string(double)\<close> of a value that is not negative: six decimals.\<close>

definition string_of_double6 :: "rat \<Rightarrow> string" where
  "string_of_double6 x =
     (let n = round (x * 1000000); frac = string_of_int (n mod 1000000)
      in string_of_int (n div 1000000) @ ''.'' @ replicate (6 - length frac) (CHR ''0'') @ frac)"

section \<open>TransferClient\<close>

text \<open>The bytes the client sends: byte \<open>i\<close> of the buffer is \<open>i\<close> modulo 256.\<close>

definition pattern_buf :: "nat \<Rightarrow> byte list" where
  "pattern_buf n = map (\<lambda>i. u8_of_int (int i)) [0..<n]"

text \<open>The three parts of \<open>execute\<close> on a connected socket: the lines printed the first time, one
  write, and the choice between closing and writing.\<close>

definition client_begin :: "'m runtime \<Rightarrow> int \<Rightarrow> transfer_client \<Rightarrow> 'm io \<Rightarrow> transfer_client \<times> 'm io" where
  "client_begin rt addr c w =
     (if tc_startTime c = 0 then
        let c1 = c\<lparr>tc_startTime := rt_now rt (io_rt w)\<rparr>
        in (c1, log_lines (logOutput addr)
                  [''time = '' @ string_of_int (tc_startTime c1) @ '' msec'', ''started'',
                   ''bytes to send = '' @ string_of_int (tc_amount c1)] w)
      else (c, w))"

definition client_send ::
  "'m runtime \<Rightarrow> int \<Rightarrow> transfer_client \<Rightarrow> tcp_manager \<Rightarrow> 'm io
     \<Rightarrow> (exn + transfer_client) \<times> tcp_manager \<times> 'm io" where
  "client_send rt addr c m w =
     (if tc_buf c = [] then (Inl (Fault ''division by zero''), m, w)
      else
        let size' = int (length (tc_buf c));
            index = tc_pos c smod size';
            c1 = (if index = 0 then c\<lparr>tc_buf := pattern_buf (length (tc_buf c))\<rparr> else c);
            len = min (size' - index) (tc_amount c1);
            (count, m1, w1) = tm_write rt (tc_sock c1) (Some (tc_buf c1)) index len m w
        in if count = - 1 then
             (Inr (c1\<lparr>tc_interval := 0\<rparr>), tm_release (tc_sock c1) m1,
              log_lines (logError addr)
                [''time = '' @ now_str rt w1 @ '' msec'', ''sending aborted'',
                 ''position = '' @ string_of_int (tc_pos c1), ''releasing connection...''] w1)
           else (Inr (c1\<lparr>tc_pos := i32 (tc_pos c1 + count), tc_amount := i32 (tc_amount c1 - count)\<rparr>),
                 m1, w1))"

definition client_connected ::
  "'m runtime \<Rightarrow> int \<Rightarrow> transfer_client \<Rightarrow> tcp_manager \<Rightarrow> 'm io
     \<Rightarrow> (exn + transfer_client) \<times> tcp_manager \<times> 'm io" where
  "client_connected rt addr c m w =
     (let (c1, w1) = client_begin rt addr c w
      in if tc_amount c1 = 0 then
           let w2 = log_lines (logOutput addr)
                      [''time = '' @ now_str rt w1, ''sending completed'', ''closing connection...''] w1;
               (m1, w3) = tm_close rt (tc_sock c1) m w2
           in (Inr c1, m1, w3)
         else client_send rt addr c1 m w1)"

definition client_closed ::
  "'m runtime \<Rightarrow> int \<Rightarrow> transfer_client \<Rightarrow> tcp_manager \<Rightarrow> 'm io
     \<Rightarrow> transfer_client \<times> tcp_manager \<times> 'm io" where
  "client_closed rt addr c m w =
     (let c1 = c\<lparr>tc_finishTime := rt_now rt (io_rt w)\<rparr>;
          elapsed = i64 (tc_finishTime c1 - tc_startTime c1);
          w1 = log_lines (logOutput addr)
                 ([''time = '' @ now_str rt w @ '' msec'', ''connection closed'',
                   ''total bytes sent = '' @ string_of_int (tc_pos c1),
                   ''time elapsed = '' @ string_of_int elapsed @ '' msec''] @
                  (if elapsed > 0
                   then [''Bps = '' @ string_of_double6 (of_int (tc_pos c1 * 1000) / of_int elapsed)] else [])) w
      in (c1\<lparr>tc_interval := 0\<rparr>, tm_release (tc_sock c1) m, w1))"

definition client_execute ::
  "'m runtime \<Rightarrow> int \<Rightarrow> transfer_client \<Rightarrow> tcp_manager \<Rightarrow> 'm io
     \<Rightarrow> (exn + transfer_client) \<times> tcp_manager \<times> 'm io" where
  "client_execute rt addr c m w =
     (let s = get_sock (tc_sock c) m
      in if isConnectionPending s then (Inr c, m, w)
         else if isConnected s then client_connected rt addr c m w
         else if isClosurePending s then (Inr c, m, w)
         else if isClosed s then (case client_closed rt addr c m w of (c1, m1, w1) \<Rightarrow> (Inr c1, m1, w1))
         else (Inr c, m, logError addr ''TransferClient: unexpected socket state'' w))"

section \<open>TransferServer\<close>

text \<open>The result has the worker for the connection accepted, if any; \<open>idx\<close> is the index
  the worker will have.\<close>

definition server_execute ::
  "'m runtime \<Rightarrow> int \<Rightarrow> nat \<Rightarrow> transfer_server \<Rightarrow> tcp_manager \<Rightarrow> 'm io
     \<Rightarrow> (exn + transfer_server \<times> transfer_worker option) \<times> tcp_manager \<times> 'm io" where
  "server_execute rt addr idx s m w =
     (if \<not> isClosed (get_sock (ts_serverSock s) m) then
        (case tm_accept (ts_serverSock s) m of
           (None, m1) \<Rightarrow> (Inr (s, None), m1, w)
         | (Some conn, m1) \<Rightarrow>
             let w1 = log_lines (logOutput addr)
                        [''time = '' @ now_str rt w @ '' msec'', ''connection accepted''] w
             in (case transfer_worker_ctor conn (ts_workerInterval s) (ts_bufSize s) of
                   Inl e \<Rightarrow> (Inl e, m1, w1)
                 | Inr k \<Rightarrow> (Inr (s, Some k), m1, task_schedule rt addr idx (tw_interval k) w1)))
      else
        (Inr (s\<lparr>ts_interval := 0\<rparr>, None), m,
         log_lines (logOutput addr) [''time = '' @ now_str rt w @ '' msec'', ''server shutdown''] w))"

section \<open>TransferWorker\<close>

text \<open>The bytes stored from \<open>index\<close> on must follow the client's pattern.\<close>

fun pattern_at :: "int \<Rightarrow> byte list \<Rightarrow> bool" where
  "pattern_at i [] \<longleftrightarrow> True"
| "pattern_at i (b # bs) \<longleftrightarrow> b = u8_of_int i \<and> pattern_at (i + 1) bs"

definition worker_execute ::
  "'m runtime \<Rightarrow> int \<Rightarrow> transfer_worker \<Rightarrow> tcp_manager \<Rightarrow> 'm io
     \<Rightarrow> (exn + transfer_worker) \<times> tcp_manager \<times> 'm io" where
  "worker_execute rt addr k m w =
     (if \<not> isClosed (get_sock (tw_sock k) m) then
        if tw_buf k = [] then (Inl (Fault ''division by zero''), m, w)
        else
          let size' = int (length (tw_buf k));
              index = tw_pos k smod size';
              len = size' - index;
              ((count, bs), m1) = tm_read (tw_sock k) True index len m;
              k1 = k\<lparr>tw_buf := take (nat index) (tw_buf k) @ bs @ drop (nat index + length bs) (tw_buf k)\<rparr>;
              abort = (\<lambda>msg. (Inr (k1\<lparr>tw_interval := 0\<rparr>), tm_release (tw_sock k1) m1,
                log_lines (logError addr)
                  [''time = '' @ now_str rt w @ '' msec'', msg,
                   ''position = '' @ string_of_int (tw_pos k1), ''releasing connection...''] w))
          in if count = - 1 then abort ''receiving aborted''
             else if \<not> pattern_at index (take (nat count) (drop (nat index) (tw_buf k1)))
             then abort ''data corruption detected''
             else (Inr (k1\<lparr>tw_pos := i32 (tw_pos k1 + count)\<rparr>), m1, w)
      else
        (Inr (k\<lparr>tw_interval := 0\<rparr>), m,
         log_lines (logOutput addr)
           [''time = '' @ now_str rt w @ '' msec'', ''connection closed'',
            ''total bytes received = '' @ string_of_int (tw_pos k)] w))"

section \<open>tick\<close>

text \<open>\<open>tick\<close> of the task \<open>idx\<close> of a node: \<open>execute\<close>, then \<open>schedule\<close>. The result is the
  node's tasks and TCP manager.\<close>

definition task_tick ::
  "'m runtime \<Rightarrow> int \<Rightarrow> nat \<Rightarrow> task list \<Rightarrow> tcp_manager \<Rightarrow> 'm io
     \<Rightarrow> (exn + task list) \<times> tcp_manager \<times> 'm io" where
  "task_tick rt addr idx ts m w =
     (case ts ! idx of
        Client c \<Rightarrow>
          (case client_execute rt addr c m w of
             (Inl e, m1, w1) \<Rightarrow> (Inl e, m1, w1)
           | (Inr c1, m1, w1) \<Rightarrow> (Inr (ts[idx := Client c1]), m1, task_schedule rt addr idx (tc_interval c1) w1))
      | Server s \<Rightarrow>
          (case server_execute rt addr (length ts) s m w of
             (Inl e, m1, w1) \<Rightarrow> (Inl e, m1, w1)
           | (Inr (s1, k), m1, w1) \<Rightarrow>
               (Inr (ts[idx := Server s1] @ (case k of None \<Rightarrow> [] | Some k \<Rightarrow> [Worker k])), m1,
                task_schedule rt addr idx (ts_interval s1) w1))
      | Worker k \<Rightarrow>
          (case worker_execute rt addr k m w of
             (Inl e, m1, w1) \<Rightarrow> (Inl e, m1, w1)
           | (Inr k1, m1, w1) \<Rightarrow> (Inr (ts[idx := Worker k1]), m1, task_schedule rt addr idx (tw_interval k1) w1)))"

section \<open>The stream of the application\<close>

text \<open>The bytes \<open>p\<close>, ..., \<open>p + n - 1\<close> of the stream a client with a buffer of \<open>size\<close> bytes sends.\<close>

definition pattern_slice :: "nat \<Rightarrow> nat \<Rightarrow> nat \<Rightarrow> byte list" where
  "pattern_slice size' p n = map (\<lambda>i. u8_of_int (int ((p + i) mod size'))) [0..<n]"

lemma length_pattern_slice [simp]: "length (pattern_slice size' p n) = n"
  by (simp add: pattern_slice_def)

lemma pattern_slice_append:
  "pattern_slice size' p (n + k) = pattern_slice size' p n @ pattern_slice size' (p + n) k"
  by (rule nth_equalityI) (auto simp: pattern_slice_def nth_append add.assoc)

lemma mod_add_small: "(i :: nat) + p mod s < s \<Longrightarrow> (p + i) mod s = p mod s + i"
  by (metis add.commute mod_add_left_eq mod_less)

lemma pattern_slice_buf:
  assumes "n + p mod size' \<le> size'"
  shows "take n (drop (p mod size') (pattern_buf size')) = pattern_slice size' p n"
  using assms
  by (intro nth_equalityI) (auto simp: pattern_slice_def pattern_buf_def mod_add_small)

lemma pattern_at_iff: "pattern_at i bs \<longleftrightarrow> (\<forall>j < length bs. bs ! j = u8_of_int (i + int j))"
proof (induction bs arbitrary: i)
  case (Cons b bs)
  show ?case unfolding pattern_at.simps Cons.IH
    by (auto simp: All_less_Suc2 add.assoc)
qed simp

lemma pattern_at_slice:
  assumes "length bs + p mod size' \<le> size'"
  shows "pattern_at (int (p mod size')) bs \<longleftrightarrow> bs = pattern_slice size' p (length bs)"
proof -
  have nth: "pattern_slice size' p (length bs) ! j = u8_of_int (int (p mod size') + int j)" if "j < length bs" for j
  proof -
    have "(p + j) mod size' = p mod size' + j" using that assms by (intro mod_add_small) simp
    then show ?thesis using that by (simp add: pattern_slice_def)
  qed
  have "bs = pattern_slice size' p (length bs) \<longleftrightarrow> (\<forall>j < length bs. bs ! j = pattern_slice size' p (length bs) ! j)"
    by (subst list_eq_iff_nth_eq) simp
  then show ?thesis using nth by (simp add: pattern_at_iff)
qed

lemma smod_nonneg: "0 \<le> a \<Longrightarrow> 0 < b \<Longrightarrow> a smod b = a mod (b :: int)"
  by (simp add: signed_modulo_int_def sgn_if)

definition client_wf :: "transfer_client \<Rightarrow> bool" where
  "client_wf c \<longleftrightarrow> tc_buf c \<noteq> [] \<and> 0 \<le> tc_pos c \<and> in_i32 (tc_pos c) \<and>
     (tc_pos c = 0 \<or> tc_buf c = pattern_buf (length (tc_buf c)))"

lemma client_begin_sel:
  "client_begin rt addr c w = (c1, w1) \<Longrightarrow> c1 = c\<lparr>tc_startTime := tc_startTime c1\<rparr>"
  by (auto simp: client_begin_def Let_def split: if_splits)

lemma io_rt_log_lines [simp]:
  "io_rt (log_lines (logOutput x) ls w) = io_rt w" "io_rt (log_lines (logError x) ls w) = io_rt w"
  unfolding log_lines_def by (induction ls arbitrary: w) auto

text \<open>What \<open>client_send\<close> asks of the socket and does with the answer.\<close>

lemma client_send_call:
  assumes r: "client_send rt addr c m w = (Inr c', m', w')" and wf: "client_wf c"
  obtains count m1 w1 where
    "tm_write rt (tc_sock c) (Some (pattern_buf (length (tc_buf c)))) (int (nat (tc_pos c) mod length (tc_buf c)))
       (min (int (length (tc_buf c)) - int (nat (tc_pos c) mod length (tc_buf c))) (tc_amount c)) m w = (count, m1, w1)"
    "io_rt w' = io_rt w1" "tc_sock c' = tc_sock c" "tc_buf c' = pattern_buf (length (tc_buf c))"
    "if count = - 1 then m' = tm_release (tc_sock c) m1 \<and> tc_interval c' = 0 \<and> tc_pos c' = tc_pos c
     else m' = m1 \<and> tc_interval c' = tc_interval c \<and> tc_pos c' = i32 (tc_pos c + count) \<and> tc_amount c' = i32 (tc_amount c - count)"
proof -
  let ?sz = "length (tc_buf c)"
  have sz: "0 < ?sz" using wf by (simp add: client_wf_def)
  have idx: "tc_pos c smod int ?sz = int (nat (tc_pos c) mod ?sz)"
    using wf sz by (simp add: smod_nonneg client_wf_def zmod_int)
  obtain count m1 w1 where w: "tm_write rt (tc_sock c) (Some (pattern_buf ?sz)) (int (nat (tc_pos c) mod ?sz))
       (min (int ?sz - int (nat (tc_pos c) mod ?sz)) (tc_amount c)) m w = (count, m1, w1)" using prod_cases3 by blast
  have buf: "int (nat (tc_pos c) mod ?sz) \<noteq> 0 \<Longrightarrow> tc_buf c = pattern_buf ?sz" using wf by (auto simp: client_wf_def)
  show thesis
    by (rule that[OF w]; use r w sz idx buf in \<open>auto simp: client_send_def Let_def split: if_splits\<close>)
qed

text \<open>A write of a connected client: it stays well formed, and the socket gets the next
  bytes of its stream.\<close>

lemma client_send_writes:
  assumes r: "client_send rt addr c m w = (Inr c', m', w')"
    and wf: "client_wf c" and amt: "0 < tc_amount c" "in_i32 (tc_pos c + tc_amount c)"
    and s: "tc_sock c < length (allSockets m)" "sock_wf (get_sock (tc_sock c) m)" "room (get_sock (tc_sock c) m)"
    and ok: "tc_interval c' > 0"
  shows "\<exists>n segs. tc_pos c' = tc_pos c + int n \<and> tc_amount c' = tc_amount c - int n \<and> int n \<le> tc_amount c \<and>
     client_wf c' \<and> length (tc_buf c') = length (tc_buf c) \<and>
     outstanding (get_sock (tc_sock c) m') = outstanding (get_sock (tc_sock c) m) @ segs \<and>
     concat (map seg_data segs) = pattern_slice (length (tc_buf c)) (nat (tc_pos c)) n"
proof -
  let ?sz = "length (tc_buf c)" and ?p = "nat (tc_pos c)" and ?s = "get_sock (tc_sock c) m"
  have sz: "0 < ?sz" using wf by (auto simp: client_wf_def)
  let ?index = "int (?p mod ?sz)"
  let ?buf = "pattern_buf ?sz"
  have lb: "length ?buf = ?sz" by (simp add: pattern_buf_def)
  let ?len = "min (int ?sz - ?index) (tc_amount c)"
  obtain count m1 w2 where w: "tm_write rt (tc_sock c) (Some ?buf) ?index ?len m w = (count, m1, w2)"
    and res: "if count = -1 then tc_interval c' = 0
      else tc_pos c' = i32 (tc_pos c + count) \<and> tc_amount c' = i32 (tc_amount c - count) \<and> m' = m1 \<and> tc_buf c' = ?buf"
    by (rule client_send_call[OF r wf]) (auto split: if_splits)
  obtain s' where s': "sk_write rt (tm_addr m) (Some ?buf) ?index ?len ?s w = (count, s', w2)"
    and m1: "m1 = upd_sock (tc_sock c) (\<lambda>_. s') m"
    using w by (auto simp: tm_write_def split: prod.splits)
  have "?p mod ?sz < ?sz" using sz by simp
  then have fits: "?index + ?len \<le> int (length ?buf)" by (simp add: lb)
  obtain n segs where n: "0 \<le> n" "n \<le> max 0 ?len" "count = -1 \<or> count = n"
    and wb: "written_by ?buf ?index ?s n segs (s'\<lparr>nextRtoDeadlineMs := nextRtoDeadlineMs ?s\<rparr>)"
    using sk_write_spec[OF s' s(2,3) fits] by blast
  have cnt: "count = n" "c' = c'" using n(3) res ok by (auto split: if_splits)
  have "outstanding s' = outstanding ?s @ segs"
    using written_by_sel[OF wb] by simp
  then have out: "outstanding (get_sock (tc_sock c) m1) = outstanding ?s @ segs"
    using s(1) by (simp add: m1)
  have nn: "n \<le> int ?sz - ?index" "n \<le> tc_amount c" using n(1,2) \<open>?p mod ?sz < ?sz\<close> amt(1) by auto
  have "concat (map seg_data segs) = take (nat n) (drop (?p mod ?sz) ?buf)"
    using wb by (simp add: written_by_def)
  also have "\<dots> = pattern_slice ?sz ?p (nat n)"
    using nn(1) n(1) by (intro pattern_slice_buf) (simp add: nat_le_iff le_diff_eq flip: of_nat_le_iff)
  finally have dat: "concat (map seg_data segs) = pattern_slice ?sz ?p (nat n)" .
  have pos: "i32 (tc_pos c + n) = tc_pos c + n" "i32 (tc_amount c - n) = tc_amount c - n"
    using n(1) nn(2) amt wf by (auto intro!: i32_id simp: in_i32_def client_wf_def)
  have neq: "count \<noteq> -1" using cnt n by auto
  have ne: "?buf \<noteq> []" using sz by (simp add: pattern_buf_def)
  show ?thesis
    using res neq ne pos nn n(1) cnt out dat wf amt sz
    by (intro exI[of _ "nat n"] exI[of _ segs]) (auto simp: client_wf_def lb in_i32_def)
qed


text \<open>A read stores as many bytes as it reports, and no more than it was asked for.\<close>

lemma sk_read_count:
  assumes "sock_wf s" "sk_read nn pos len s = ((n, bs), s')"
  shows "n = -1 \<and> bs = [] \<or> n = int (length bs) \<and> length bs \<le> nat len"
  using assms by (auto simp: sk_read_def sock_wf_defs Let_def split: if_splits)

definition worker_wf :: "transfer_worker \<Rightarrow> bool" where
  "worker_wf k \<longleftrightarrow> tw_buf k \<noteq> [] \<and> 0 \<le> tw_pos k \<and> 0 < tw_interval k"

text \<open>One round of a worker: it goes on exactly when the bytes it read are the next bytes of
  the stream of a client with a buffer of the same size.\<close>

lemma worker_execute_checks:
  assumes wf: "worker_wf k" "sock_wf (get_sock (tw_sock k) m)"
    and open': "\<not> isClosed (get_sock (tw_sock k) m)"
    and rd: "tm_read (tw_sock k) True (int (nat (tw_pos k) mod length (tw_buf k)))
       (int (length (tw_buf k)) - int (nat (tw_pos k) mod length (tw_buf k))) m = ((int (length bs), bs), m1)"
    and r: "worker_execute rt addr k m w = (r', m', w')"
  shows "\<exists>k'. r' = Inr k' \<and> length (tw_buf k') = length (tw_buf k) \<and>
    (if bs = pattern_slice (length (tw_buf k)) (nat (tw_pos k)) (length bs)
     then m' = m1 \<and> tw_pos k' = i32 (tw_pos k + int (length bs)) \<and> tw_interval k' = tw_interval k
     else m' = tm_release (tw_sock k) m1 \<and> tw_interval k' = 0)"
proof -
  let ?sz = "length (tw_buf k)" and ?p = "nat (tw_pos k)"
  have sz: "0 < ?sz" using wf by (simp add: worker_wf_def)
  have idx: "tw_pos k smod int ?sz = int (?p mod ?sz)"
    using wf sz by (simp add: smod_nonneg worker_wf_def zmod_int)
  have lt: "?p mod ?sz < ?sz" using sz by simp
  have "length bs \<le> nat (int ?sz - int (?p mod ?sz))"
    using rd sk_read_count[OF wf(2)] by (fastforce simp: tm_read_def split: prod.splits)
  then have fits: "length bs + ?p mod ?sz \<le> ?sz" using lt by linarith
  have tk: "take (length bs) (drop (?p mod ?sz) (take (?p mod ?sz) (tw_buf k) @ bs @ X)) = bs" for X
    using lt by simp
  show ?thesis
    using r open' wf sz rd idx fits tk pattern_at_slice[OF fits]
    by (auto simp: worker_execute_def Let_def worker_wf_def split: if_splits)
qed

section \<open>Properties\<close>

text \<open>A connected \<open>TransferClient\<close>: each round hands the socket the next bytes of the repeating
  pattern, as many as the position advances and the amount left goes down, in consecutive
  segments behind those already outstanding.\<close>

theorem client_streams_pattern:
  assumes "client_execute rt addr c m w = (Inr c', m', w')"
    and "isConnected (get_sock (tc_sock c) m)" "client_wf c" "0 < tc_amount c" "in_i32 (tc_pos c + tc_amount c)"
    and "tc_sock c < length (allSockets m)" "sock_wf (get_sock (tc_sock c) m)" "room (get_sock (tc_sock c) m)"
    and "0 < tc_interval c'"
  shows "\<exists>n segs. tc_pos c' = tc_pos c + int n \<and> tc_amount c' = tc_amount c - int n \<and> int n \<le> tc_amount c \<and>
     client_wf c' \<and> length (tc_buf c') = length (tc_buf c) \<and>
     outstanding (get_sock (tc_sock c) m') = outstanding (get_sock (tc_sock c) m) @ segs \<and>
     concat (map seg_data segs) = pattern_slice (length (tc_buf c)) (nat (tc_pos c)) n"
proof -
  obtain c1 w1 where b: "client_begin rt addr c w = (c1, w1)" by fastforce
  obtain t where c1: "c1 = c\<lparr>tc_startTime := t\<rparr>" using client_begin_sel[OF b] by blast
  have "client_send rt addr c1 m w1 = (Inr c', m', w')"
    using assms(1,2,4) b by (simp add: c1 client_execute_def client_connected_def isConnected_def isConnectionPending_def)
  from client_send_writes[OF this] assms show ?thesis by (simp add: c1 client_wf_def)
qed

definition demo_client :: transfer_client where
  "demo_client = \<lparr>tc_interval = 1000, tc_sock = 0, tc_buf = [0, 0, 0, 0], tc_amount = 6, tc_startTime = 0,
     tc_finishTime = 0, tc_pos = 0\<rparr>"

definition one_socket :: "tcp_socket \<Rightarrow> tcp_manager" where
  "one_socket s = (tcp_manager_ctor 1)\<lparr>allSockets := [s]\<rparr>"

lemma sock_wf_demo_sock: "sock_wf demo_sock"
  unfolding demo_sock_def by (intro sock_wf_initAccepted sock_wf_ctor) simp

theorem client_streams_pattern_witness:
  "let r = client_execute null_rt 1 demo_client (one_socket demo_sock) \<lparr>io_rt = (), io_out = []\<rparr>
   in \<exists>n segs. outstanding (get_sock 0 (fst (snd r))) = outstanding demo_sock @ segs \<and>
     concat (map seg_data segs) = pattern_slice 4 0 n \<and> n \<le> 6"
proof -
  let ?r = "client_execute null_rt 1 demo_client (one_socket demo_sock) \<lparr>io_rt = (), io_out = []\<rparr>"
  have r: "(case fst ?r of Inl _ \<Rightarrow> False | Inr c \<Rightarrow> tc_interval c = 1000)" by code_simp
  then obtain c' where c': "fst ?r = Inr c'" "0 < tc_interval c'" by (auto split: sum.splits)
  then have e: "?r = (Inr c', fst (snd ?r), snd (snd ?r))" by (metis prod.collapse)
  have s: "get_sock (tc_sock demo_client) (one_socket demo_sock) = demo_sock"
    by (simp add: get_sock_def one_socket_def demo_client_def)
  have h: "isConnected demo_sock" "client_wf demo_client" "0 < tc_amount demo_client"
    "in_i32 (tc_pos demo_client + tc_amount demo_client)" "tc_sock demo_client < length (allSockets (one_socket demo_sock))"
    "room demo_sock" "tc_sock demo_client = 0" "length (tc_buf demo_client) = 4" "tc_pos demo_client = 0" "tc_amount demo_client = 6"
    by code_simp+
  from client_streams_pattern[OF e] h c' s sock_wf_demo_sock show ?thesis by (auto simp: Let_def)
qed

text \<open>C35. \<open>TransferWorker\<close>: a round goes on exactly when the bytes read are the next bytes of the
  client's pattern; any other byte stops the worker and releases the connection.\<close>

theorem worker_checks_stream:
  assumes "worker_wf k" "sock_wf (get_sock (tw_sock k) m)" "\<not> isClosed (get_sock (tw_sock k) m)"
    and "tm_read (tw_sock k) True (int (nat (tw_pos k) mod length (tw_buf k)))
       (int (length (tw_buf k)) - int (nat (tw_pos k) mod length (tw_buf k))) m = ((int (length bs), bs), m1)"
    and "worker_execute rt addr k m w = (r', m', w')"
  shows "\<exists>k'. r' = Inr k' \<and> length (tw_buf k') = length (tw_buf k) \<and>
    (if bs = pattern_slice (length (tw_buf k)) (nat (tw_pos k)) (length bs)
     then m' = m1 \<and> tw_pos k' = i32 (tw_pos k + int (length bs)) \<and> tw_interval k' = tw_interval k
     else m' = tm_release (tw_sock k) m1 \<and> tw_interval k' = 0)"
  by (rule worker_execute_checks[OF assms])

definition demo_worker :: transfer_worker where
  "demo_worker = \<lparr>tw_interval = 1000, tw_sock = 0, tw_buf = [0, 0, 0, 0], tw_pos = 6\<rparr>"

text \<open>Byte 7 of the stream is damaged.\<close>

definition damaged_sock :: tcp_socket where
  "damaged_sock = snd (appendToRecvBuf (Some [2, 9]) 0 2 demo_sock)"

theorem worker_checks_stream_witness:
  "\<exists>k'. fst (worker_execute null_rt 1 demo_worker (one_socket damaged_sock) \<lparr>io_rt = (), io_out = []\<rparr>) = Inr k' \<and>
     tw_interval k' = 0"
proof -
  let ?m = "one_socket damaged_sock" 
  let ?rd = "tm_read (tw_sock demo_worker) True (int (nat (tw_pos demo_worker) mod length (tw_buf demo_worker)))
       (int (length (tw_buf demo_worker)) - int (nat (tw_pos demo_worker) mod length (tw_buf demo_worker))) ?m"
  let ?r = "worker_execute null_rt 1 demo_worker ?m \<lparr>io_rt = (), io_out = []\<rparr>"
  have rd: "fst ?rd = (int (length [2, 9 :: byte]), [2, 9])" by code_simp
  have e: "?rd = ((int (length [2, 9 :: byte]), [2, 9]), snd ?rd)" unfolding rd[symmetric] by (rule prod.collapse[symmetric])
  have p: "[2, 9] \<noteq> pattern_slice (length (tw_buf demo_worker)) (nat (tw_pos demo_worker)) (length [2, 9 :: byte])"
    by code_simp
  have wk: "worker_wf demo_worker" by code_simp
  have s: "get_sock (tw_sock demo_worker) ?m = damaged_sock"
    by (simp add: get_sock_def one_socket_def demo_worker_def)
  have wf: "sock_wf damaged_sock" unfolding damaged_sock_def
    by (rule sock_wf_appendToRecvBuf[OF sock_wf_demo_sock]) simp
  have cl: "\<not> isClosed damaged_sock" by code_simp
  have "?r = (fst ?r, fst (snd ?r), snd (snd ?r))" by simp
  from worker_checks_stream[OF wk _ _ e this] wf cl s p show ?thesis by auto
qed

end
