(* ===== verification/Stack_Node.thy ===== *)
theory Stack_Node
  imports Transfer_App
begin

text \<open>
  \<open>StackNode\<close> (\<open>node/stack_node.cpp\<close>): the protocol stack of one node. It dispatches packets
  to the ping handlers and to the TCP manager, and turns the commands of the user into
  pings, transfers and servers. The tasks of the transfer application, which the source
  keeps alive through the timers that refer to them, are a list in the node.
\<close>

definition PING_TIMEOUT_MS :: int where [cxx_const]: "PING_TIMEOUT_MS = 10000"

record ping_request =
  pr_destAddr :: int
  pr_msg :: "byte list"
  pr_timeSentMs :: int

record stack_node =
  sn_addr :: int
  sn_pings :: "ping_request list"
  sn_tcp :: tcp_manager
  sn_tasks :: "task list"

definition stack_node_ctor :: "int \<Rightarrow> stack_node" where
  "stack_node_ctor addr =
     \<lparr>sn_addr = addr, sn_pings = [], sn_tcp = tcp_manager_ctor addr, sn_tasks = []\<rparr>"

definition sn_start :: "'m runtime \<Rightarrow> stack_node \<Rightarrow> 'm io \<Rightarrow> 'm io" where
  "sn_start rt n w =
     tm_start rt (sn_tcp n)
       (addTimer_io rt (sn_addr n) PING_TIMEOUT_MS (Some (CbPingTimedOut (sn_addr n)))
          (logOutput (sn_addr n) ''started'' w))"

section \<open>Sending\<close>

definition sendPacket :: "'m runtime \<Rightarrow> stack_node \<Rightarrow> int \<Rightarrow> packet \<Rightarrow> 'm io \<Rightarrow> 'm io" where
  "sendPacket rt n destAddr p w =
     (case rt_sendPkt rt (sn_addr n) destAddr (packet_pack p) (io_rt w) of
        (Inl e, m) \<Rightarrow> logError (sn_addr n) (''Exception: '' @ what e) (w\<lparr>io_rt := m\<rparr>)
      | (Inr _, m) \<Rightarrow> w\<lparr>io_rt := m\<rparr>)"

definition sendSegment ::
  "'m runtime \<Rightarrow> stack_node \<Rightarrow> int \<Rightarrow> int \<Rightarrow> int \<Rightarrow> byte list \<Rightarrow> 'm io \<Rightarrow> (exn + unit) \<times> 'm io" where
  "sendSegment rt n srcAddr destAddr protocol payload w =
     (case packet_ctor destAddr srcAddr MAX_TTL protocol 0 payload of
        Inl e \<Rightarrow> (Inl e, w)
      | Inr p \<Rightarrow> (Inr (), sendPacket rt n destAddr p w))"

section \<open>Pings\<close>

definition ping_expired :: "int \<Rightarrow> ping_request \<Rightarrow> bool" where
  "ping_expired now r \<longleftrightarrow> i64 (pr_timeSentMs r + PING_TIMEOUT_MS) < now"

definition timeout_msg :: "ping_request \<Rightarrow> string" where
  "timeout_msg r =
     ''Timing out ping: Dest: '' @ string_of_int (pr_destAddr r) @ '' Send Time: '' @
     string_of_int (pr_timeSentMs r) @ '' Message: '' @ bytesToString (pr_msg r)"

fun expire_pings :: "int \<Rightarrow> int \<Rightarrow> ping_request list \<Rightarrow> 'm io \<Rightarrow> ping_request list \<times> 'm io" where
  "expire_pings addr now [] w = ([], w)"
| "expire_pings addr now (r # rs) w =
     (if ping_expired now r then expire_pings addr now rs (logOutput addr (timeout_msg r) w)
      else (case expire_pings addr now rs w of (rs', w') \<Rightarrow> (r # rs', w')))"

definition pingTimedOut :: "'m runtime \<Rightarrow> stack_node \<Rightarrow> 'm io \<Rightarrow> stack_node \<times> 'm io" where
  "pingTimedOut rt n w =
     (let (ps, w1) = expire_pings (sn_addr n) (rt_now rt (io_rt w)) (sn_pings n) w
      in (n\<lparr>sn_pings := ps\<rparr>,
          addTimer_io rt (sn_addr n) PING_TIMEOUT_MS (Some (CbPingTimedOut (sn_addr n))) w1))"

definition receivePing :: "'m runtime \<Rightarrow> stack_node \<Rightarrow> packet \<Rightarrow> 'm io \<Rightarrow> 'm io" where
  "receivePing rt n p w =
     (let w1 = logOutput (sn_addr n)
                 (''Received Ping from '' @ string_of_int (pk_src p) @ '' with message: '' @
                  bytesToString (pk_payload p)) w
      in (case packet_ctor (pk_src p) (sn_addr n) MAX_TTL PING_REPLY_PKT 0 (pk_payload p) of
            Inl e \<Rightarrow> logError (sn_addr n) (''Exception while sending Ping Reply: '' @ what e) w1
          | Inr reply \<Rightarrow> sendPacket rt n (pk_src p) reply w1))"

text \<open>Remove the first request that the reply answers.\<close>

fun take_ping :: "int \<Rightarrow> byte list \<Rightarrow> ping_request list \<Rightarrow> ping_request list option" where
  "take_ping src payload [] = None"
| "take_ping src payload (r # rs) =
     (if pr_destAddr r = src \<and> bytesToString (pr_msg r) = bytesToString payload then Some rs
      else map_option ((#) r) (take_ping src payload rs))"

definition receivePingReply :: "stack_node \<Rightarrow> packet \<Rightarrow> 'm io \<Rightarrow> stack_node \<times> 'm io" where
  "receivePingReply n p w =
     (let tail = string_of_int (pk_src p) @ '': '' @ bytesToString (pk_payload p)
      in (case take_ping (pk_src p) (pk_payload p) (sn_pings n) of
            Some ps \<Rightarrow> (n\<lparr>sn_pings := ps\<rparr>, logOutput (sn_addr n) (''Got Ping Reply from '' @ tail) w)
          | None \<Rightarrow> (n, logError (sn_addr n) (''Unexpected Ping Reply from '' @ tail) w)))"

section \<open>Receiving\<close>

definition sn_receiveTransport :: "'m runtime \<Rightarrow> stack_node \<Rightarrow> packet \<Rightarrow> 'm io \<Rightarrow> stack_node \<times> 'm io" where
  "sn_receiveTransport rt n p w =
     (case transport_unpack (pk_payload p) of
        None \<Rightarrow> (n, logError (sn_addr n)
                     (''Unable to unpack Transport packet from '' @ string_of_int (pk_src p)) w)
      | Some t \<Rightarrow>
          (case tm_receiveTransport rt (pk_src p) t (sn_tcp n) w of
             (m, w1) \<Rightarrow> (n\<lparr>sn_tcp := m\<rparr>, w1)))"

definition receivePacket :: "'m runtime \<Rightarrow> int \<Rightarrow> stack_node \<Rightarrow> packet \<Rightarrow> 'm io \<Rightarrow> stack_node \<times> 'm io" where
  "receivePacket rt from n p w =
     (if pk_protocol p = PING_PKT then (n, receivePing rt n p w)
      else if pk_protocol p = PING_REPLY_PKT then receivePingReply n p w
      else if pk_protocol p = TRANSPORT_PKT then sn_receiveTransport rt n p w
      else (n, logError (sn_addr n)
                 (''Packet with unknown protocol received. Protocol: '' @ string_of_int (pk_protocol p)) w))"

definition onReceive :: "'m runtime \<Rightarrow> int \<Rightarrow> byte list \<Rightarrow> stack_node \<Rightarrow> 'm io \<Rightarrow> stack_node \<times> 'm io" where
  "onReceive rt from msg n w =
     (case packet_unpack msg of
        None \<Rightarrow> (n, logError (sn_addr n)
                     (''Unable to unpack message received from '' @ string_of_int from) w)
      | Some p \<Rightarrow> receivePacket rt from n p w)"

section \<open>Commands\<close>

record transfer_args =
  ta_destAddr :: int
  ta_port :: int
  ta_localPort :: int
  ta_amount :: int
  ta_interval :: int
  ta_sz :: int

definition parse_transfer :: "string list \<Rightarrow> exn + transfer_args" where
  "parse_transfer args =
     ebind (stoi (args ! 1)) (\<lambda>destAddr. ebind (stoi (args ! 2)) (\<lambda>port.
     ebind (stoi (args ! 3)) (\<lambda>lport. ebind (stoi (args ! 4)) (\<lambda>amount.
     ebind (if length args \<ge> 6 then stol (args ! 5) else Inr DEFAULT_CLIENT_INTERVAL) (\<lambda>interval.
     ebind (if length args = 7 then stoi (args ! 6) else Inr DEFAULT_BUFFER_SZ) (\<lambda>sz.
       Inr \<lparr>ta_destAddr = destAddr, ta_port = port, ta_localPort = lport, ta_amount = amount,
            ta_interval = interval, ta_sz = sz\<rparr>))))))"

definition matchTransferCommand ::
  "'m runtime \<Rightarrow> string \<Rightarrow> stack_node \<Rightarrow> 'm io \<Rightarrow> bool \<times> stack_node \<times> 'm io" where
  "matchTransferCommand rt command n w =
     (let args = splitSpaceVec command
      in if length args < 5 \<or> length args > 7 \<or> args ! 0 \<noteq> ''transfer'' then (False, n, w)
         else
           (case parse_transfer args of
              Inl e \<Rightarrow> (False, n, logError (sn_addr n) (''Exception: '' @ what e) w)
            | Inr a \<Rightarrow>
                let (sock, m1) = tm_socket (sn_tcp n);
                    (_, m2) = tm_bind sock (ta_localPort a) m1;
                    (_, m3, w1) = tm_connect rt sock (ta_destAddr a) (ta_port a) m2 w;
                    n1 = n\<lparr>sn_tcp := m3\<rparr>
                in (case transfer_client_ctor sock (ta_amount a) (ta_interval a) (ta_sz a) of
                      Inl e \<Rightarrow> (False, n1, logError (sn_addr n) (''Exception: '' @ what e) w1)
                    | Inr c \<Rightarrow>
                        (True, n1\<lparr>sn_tasks := sn_tasks n1 @ [Client c]\<rparr>,
                         task_schedule rt (sn_addr n) (length (sn_tasks n1)) (tc_interval c) w1))))"

record server_args =
  sa_port :: int
  sa_backlog :: int
  sa_servint :: int
  sa_workint :: int
  sa_sz :: int

definition parse_server :: "string list \<Rightarrow> exn + server_args" where
  "parse_server args =
     ebind (stoi (args ! 1)) (\<lambda>port. ebind (stoi (args ! 2)) (\<lambda>backlog.
     ebind (if length args \<ge> 4 then stol (args ! 3) else Inr DEFAULT_SERVER_INTERVAL) (\<lambda>servint.
     ebind (if length args \<ge> 5 then stol (args ! 4) else Inr DEFAULT_WORKER_INTERVAL) (\<lambda>workint.
     ebind (if length args = 6 then stoi (args ! 5) else Inr DEFAULT_BUFFER_SZ) (\<lambda>sz.
       Inr \<lparr>sa_port = port, sa_backlog = backlog, sa_servint = servint, sa_workint = workint, sa_sz = sz\<rparr>)))))"

definition matchServerCommand ::
  "'m runtime \<Rightarrow> string \<Rightarrow> stack_node \<Rightarrow> 'm io \<Rightarrow> bool \<times> stack_node \<times> 'm io" where
  "matchServerCommand rt command n w =
     (let args = splitSpaceVec command
      in if length args < 3 \<or> length args > 6 \<or> args ! 0 \<noteq> ''server'' then (False, n, w)
         else
           (case parse_server args of
              Inl e \<Rightarrow> (False, n, logError (sn_addr n) (''Exception: '' @ what e) w)
            | Inr a \<Rightarrow>
                let (sock, m1) = tm_socket (sn_tcp n);
                    (_, m2) = tm_bind sock (sa_port a) m1;
                    (_, m3) = tm_listen sock (sa_backlog a) m2;
                    s = transfer_server_ctor sock (sa_servint a) (sa_workint a) (sa_sz a);
                    w1 = task_schedule rt (sn_addr n) (length (sn_tasks n)) (ts_interval s) w
                in (True, n\<lparr>sn_tcp := m3, sn_tasks := sn_tasks n @ [Server s]\<rparr>,
                    logOutput (sn_addr n) (''server started, port = '' @ string_of_int (sa_port a)) w1)))"

definition matchPingCommand ::
  "'m runtime \<Rightarrow> string \<Rightarrow> stack_node \<Rightarrow> 'm io \<Rightarrow> bool \<times> stack_node \<times> 'm io" where
  "matchPingCommand rt command n w =
     (let head = takeWhile (\<lambda>c. c \<noteq> CHR '' '') command; rest = dropWhile (\<lambda>c. c \<noteq> CHR '' '') command
      in if rest = [] then (False, n, w)
         else
           let failed = (\<lambda>e. (False, n, logError (sn_addr n) (''Exception: '' @ what e) w))
           in (case stoi head of
                 Inl e \<Rightarrow> failed e
               | Inr dest \<Rightarrow>
                   let bytes = stringToBytes (tl rest)
                   in (case packet_ctor dest (sn_addr n) MAX_TTL PING_PKT 0 bytes of
                         Inl e \<Rightarrow> failed e
                       | Inr p \<Rightarrow>
                           let w1 = sendPacket rt n dest p w
                           in (True,
                               n\<lparr>sn_pings := sn_pings n @
                                   [\<lparr>pr_destAddr = dest, pr_msg = bytes, pr_timeSentMs = rt_now rt (io_rt w1)\<rparr>]\<rparr>,
                               w1))))"

definition onCommand :: "'m runtime \<Rightarrow> string \<Rightarrow> stack_node \<Rightarrow> 'm io \<Rightarrow> stack_node \<times> 'm io" where
  "onCommand rt command n w =
     (case matchTransferCommand rt command n w of
        (True, n1, w1) \<Rightarrow> (n1, w1)
      | (False, n1, w1) \<Rightarrow>
          (case matchServerCommand rt command n1 w1 of
             (True, n2, w2) \<Rightarrow> (n2, w2)
           | (False, n2, w2) \<Rightarrow>
               (case matchPingCommand rt command n2 w2 of
                  (True, n3, w3) \<Rightarrow> (n3, w3)
                | (False, n3, w3) \<Rightarrow>
                    (n3, logError (sn_addr n) (''Unrecognized command: '' @ command) w3))))"

section \<open>Timers\<close>

text \<open>The timer callbacks of a node; \<open>Inl\<close> where an exception leaves one, with the node as it
  was then.\<close>

definition sn_callback ::
  "'m runtime \<Rightarrow> callback \<Rightarrow> stack_node \<Rightarrow> 'm io \<Rightarrow> (exn + unit) \<times> stack_node \<times> 'm io" where
  "sn_callback rt cb n w =
     (case cb of
        CbPingTimedOut _ \<Rightarrow> (case pingTimedOut rt n w of (n1, w1) \<Rightarrow> (Inr (), n1, w1))
      | CbRetransmissionTick _ \<Rightarrow>
          (case retransmissionTick rt (sn_tcp n) w of (m, w1) \<Rightarrow> (Inr (), n\<lparr>sn_tcp := m\<rparr>, w1))
      | CbTaskTick _ idx \<Rightarrow>
          (case task_tick rt (sn_addr n) idx (sn_tasks n) (sn_tcp n) w of
             (Inl e, m, w1) \<Rightarrow> (Inl e, n\<lparr>sn_tcp := m\<rparr>, w1)
           | (Inr ts, m, w1) \<Rightarrow> (Inr (), n\<lparr>sn_tasks := ts, sn_tcp := m\<rparr>, w1))
      | _ \<Rightarrow> (Inr (), n, w))"

end
