(* ===== verification/Node_Invariant.thy ===== *)
theory Node_Invariant
  imports Stack_Node Delivery
begin

text \<open>
  The invariant of \<open>StackNode\<close>: its TCP manager is well formed and its tasks refer to sockets
  it has. Every packet, command and timer keeps it. Packets that carry a segment reach the
  TCP manager exactly as the system of \<open>Delivery\<close> delivers them.
\<close>

fun task_ok :: "tcp_manager \<Rightarrow> task \<Rightarrow> bool" where
  "task_ok m (Client c) \<longleftrightarrow> tc_sock c < length (allSockets m) \<and> 0 \<le> tc_pos c"
| "task_ok m (Server s) \<longleftrightarrow> ts_serverSock s < length (allSockets m)"
| "task_ok m (Worker k) \<longleftrightarrow> tw_sock k < length (allSockets m) \<and> 0 \<le> tw_pos k"

fun task_room :: "task \<Rightarrow> bool" where
  "task_room (Client c) \<longleftrightarrow> tc_pos c < 2 ^ 30"
| "task_room (Server s) \<longleftrightarrow> True"
| "task_room (Worker k) \<longleftrightarrow> tw_pos k < 2 ^ 30"

definition node_wf :: "stack_node \<Rightarrow> bool" where
  "node_wf n \<longleftrightarrow> tm_addr (sn_tcp n) = sn_addr n \<and> man_wf (sn_tcp n) \<and>
     (\<forall>t \<in> set (sn_tasks n). task_ok (sn_tcp n) t)"

text \<open>Fewer than \<open>2 ^ 30\<close> bytes through each socket and task.\<close>

definition node_room :: "stack_node \<Rightarrow> bool" where
  "node_room n \<longleftrightarrow> man_room (sn_tcp n) \<and> (\<forall>t \<in> set (sn_tasks n). task_room t)"

section \<open>Managers that grow\<close>

definition grows :: "tcp_manager \<Rightarrow> tcp_manager \<Rightarrow> bool" where
  "grows m m' \<longleftrightarrow> man_wf m' \<and> length (allSockets m) \<le> length (allSockets m') \<and> tm_addr m' = tm_addr m"

lemma grows_refl: "man_wf m \<Longrightarrow> grows m m"
  by (simp add: grows_def)

lemma grows_trans: "grows m n \<Longrightarrow> grows n k \<Longrightarrow> grows m k"
  by (auto simp: grows_def)

lemma task_ok_grows: "task_ok m t \<Longrightarrow> grows m m' \<Longrightarrow> task_ok m' t"
  by (cases t) (auto simp: grows_def)

lemma calm_all_len: "calm_all m m' \<Longrightarrow> length (allSockets m') = length (allSockets m)"
  by (simp add: calm_all_def)

lemma opens_len: "opens port m m' \<Longrightarrow> length (allSockets m') = Suc (length (allSockets m))"
  by (simp add: opens_def Let_def)

lemmas call_len = calm_all_accept[THEN calm_all_len] calm_all_close[THEN calm_all_len]
  calm_all_release[THEN calm_all_len] calm_all_tick[THEN calm_all_len] calm_all_onFin[THEN calm_all_len]
  opens_server[THEN opens_len] opens_client[THEN opens_len]

lemma receive_len:
  assumes wf: "man_wf m"
  shows "length (allSockets m) \<le> length (allSockets (fst (tm_receiveTransport rt src t m w)))"
proof -
  have "length (allSockets m) \<le> length (allSockets (fst (onAck rt src t m w)))" for w
    using onAck_effect[OF wf, of rt src t w] by (auto simp: calm_all_len)
  moreover have "length (allSockets m) \<le> length (allSockets (fst (onSyn rt src t m w)))" for w
    using onSyn_effect[OF wf, of rt src t w] by (auto simp: opens_len)
  moreover have "length (allSockets m) \<le> length (allSockets (fst (onData rt src t m w)))" for w
    using onData_effect[OF wf, of rt src t w] by auto
  ultimately show ?thesis by (simp add: tm_receiveTransport_def call_len)
qed

lemma tcp_do_grows:
  assumes "man_wf m" "man_room m" "call_ok c m"
  shows "grows m (fst (tcp_do rt c m w))"
proof -
  have "length (allSockets m) \<le> length (allSockets (fst (tcp_do rt c m w)))"
    using receive_len[OF assms(1)]
    by (cases c) (simp_all add: call_len tm_write_def tm_read_def split_beta)
  then show ?thesis using assms by (simp add: grows_def man_wf_tcp_do tcp_do_addr)
qed

text \<open>The operations the node and its tasks call.\<close>

lemma grows_close: "man_wf m \<Longrightarrow> grows m (fst (tm_close rt i m w))"
  by (simp add: grows_def wf_intro call_len call_addr)

lemma grows_release: "man_wf m \<Longrightarrow> grows m (tm_release i m)"
  by (simp add: grows_def wf_intro call_len call_addr)

lemma grows_accept: "man_wf m \<Longrightarrow> i < length (allSockets m) \<Longrightarrow> grows m (snd (tm_accept i m))"
  by (simp add: grows_def man_wf_accept call_len call_addr)

lemma grows_read: "man_wf m \<Longrightarrow> grows m (snd (tm_read i nn pos len m))"
  by (simp add: grows_def man_wf_read) (simp add: tm_read_def split_beta)

lemma grows_write:
  assumes "man_wf m" "man_room m" "pos + len \<le> int (length buf)" "tm_write rt i (Some buf) pos len m w = (r, m', w')"
  shows "grows m m'"
  using man_wf_write[OF assms] assms(4) by (auto simp: grows_def tm_write_def split: prod.splits)

lemma grows_open_client:
  assumes "man_wf m" "open_client rt port da dp m w = (r, i, m', w')"
  shows "grows m m' \<and> i < length (allSockets m')"
proof -
  have "m' = fst (snd (snd (open_client rt port da dp m w)))" "i = length (allSockets m)"
    using assms(2) by (auto simp: open_client_def tm_socket_def split: prod.splits)
  then show ?thesis using man_wf_open_client[OF assms] by (simp add: grows_def call_len call_addr)
qed

lemma grows_open_server:
  assumes "man_wf m" "open_server port backlog m = (r, i, m')"
  shows "grows m m' \<and> i < length (allSockets m')"
proof -
  have "m' = snd (snd (open_server port backlog m))" "i = length (allSockets m)"
    using assms(2) by (auto simp: open_server_def tm_socket_def split: prod.splits)
  then show ?thesis using man_wf_open_server[OF assms(1)] by (simp add: grows_def call_len call_addr)
qed

section \<open>Tasks\<close>

text \<open>A write reports at most the window, so positions do not wrap.\<close>

lemma tm_write_count:
  assumes "man_wf m" "man_room m" "i < length (allSockets m)" "pos + len \<le> int (length buf)"
    and w: "tm_write rt i (Some buf) pos len m w = (r, m', w')"
  shows "r = -1 \<or> 0 \<le> r \<and> r < 2 ^ 30"
proof -
  have s: "sock_wf (get_sock i m)" "room (get_sock i m)"
    using assms(1-3) man_wfD(1) by (auto simp: man_room_def get_sock_def dest: sock_okD)
  obtain s' where "sk_write rt (tm_addr m) (Some buf) pos len (get_sock i m) w = (r, s', w')"
    using w by (auto simp: tm_write_def split: prod.splits)
  then obtain n segs where n: "0 \<le> n" "r = -1 \<or> r = n"
    and wb: "written_by buf pos (get_sock i m) n segs (s'\<lparr>nextRtoDeadlineMs := nextRtoDeadlineMs (get_sock i m)\<rparr>)"
    using sk_write_spec[OF _ s assms(4)] by blast
  have "n > 0 \<longrightarrow> n \<le> effectiveWindow (get_sock i m)"
    using wb s(1) by (auto simp: written_by_def sock_wf_defs)
  then have "n < 2 ^ 30" using s(2) n(1) by (cases "n = 0") (auto simp: effectiveWindow_def room_def)
  with n show ?thesis by auto
qed

lemma client_send_ok:
  assumes r: "client_send rt addr c m w = (Inr c', m', w')" and m: "man_wf m" "man_room m"
    and ok: "task_ok m (Client c)" "task_room (Client c)"
  shows "grows m m' \<and> task_ok m' (Client c')"
proof -
  let ?sz = "int (length (tc_buf c))" let ?i = "tc_pos c smod ?sz"
  define c1 where "c1 = (if ?i = 0 then c\<lparr>tc_buf := pattern_buf (length (tc_buf c))\<rparr> else c)"
  have sel: "tc_sock c1 = tc_sock c" "tc_pos c1 = tc_pos c" "length (tc_buf c1) = length (tc_buf c)"
    by (simp_all add: c1_def pattern_buf_def)
  have sz: "tc_buf c \<noteq> []" using r by (auto simp: client_send_def split: if_splits)
  obtain n m1 w1 where w: "tm_write rt (tc_sock c1) (Some (tc_buf c1)) ?i (min (?sz - ?i) (tc_amount c1)) m w = (n, m1, w1)"
    by (metis prod_cases3)
  have fits: "?i + min (?sz - ?i) (tc_amount c1) \<le> int (length (tc_buf c1))" using sel by simp
  have sock: "tc_sock c1 < length (allSockets m)" using ok sel by simp
  have g: "grows m m1" using grows_write[OF m fits w] .
  have n: "n = -1 \<or> 0 \<le> n \<and> n < 2 ^ 30" using tm_write_count[OF m sock fits w] .
  have res: "if n = -1 then c' = c1\<lparr>tc_interval := 0\<rparr> \<and> m' = tm_release (tc_sock c1) m1
    else c' = c1\<lparr>tc_pos := i32 (tc_pos c1 + n), tc_amount := i32 (tc_amount c1 - n)\<rparr> \<and> m' = m1"
    using r sz w unfolding client_send_def Let_def c1_def[symmetric] by (auto split: if_splits)
  show ?thesis
  proof (cases "n = -1")
    case True
    moreover have "grows m (tm_release (tc_sock c1) m1)"
      using g grows_release grows_trans by (metis grows_def)
    ultimately show ?thesis using ok res sel by (auto simp: grows_def)
  next
    case False
    moreover have "i32 (tc_pos c + n) = tc_pos c + n"
      using n False ok by (intro i32_id) (auto simp: in_i32_def)
    ultimately show ?thesis using g ok n res sel by (auto simp: grows_def)
  qed
qed

lemma client_execute_ok:
  assumes r: "client_execute rt addr c m w = (Inr c', m', w')" and m: "man_wf m" "man_room m"
    and ok: "task_ok m (Client c)" "task_room (Client c)"
  shows "grows m m' \<and> task_ok m' (Client c')"
proof -
  have same: ?thesis if "tc_sock c' = tc_sock c" "tc_pos c' = tc_pos c" "grows m m'"
    using that ok by (auto simp: grows_def)
  obtain c1 w1 where b: "client_begin rt addr c w = (c1, w1)" by fastforce
  note c1 = client_begin_sel[OF b]
  have sel: "tc_sock c1 = tc_sock c" "tc_pos c1 = tc_pos c"
    by (subst c1, simp)+
  consider (idle) "c' = c" "m' = m"
    | (closed) "client_closed rt addr c m w = (c', m', w')"
    | (fin) w2 where "c' = c1" "m' = fst (tm_close rt (tc_sock c1) m w2)"
    | (wr) "client_send rt addr c1 m w1 = (Inr c', m', w')"
    using r b
    by (auto simp: client_execute_def client_connected_def Let_def split: if_splits prod.splits) (metis fst_conv)
  then show ?thesis
  proof cases
    case idle then show ?thesis using ok m by (simp add: grows_refl)
  next
    case closed
    then show ?thesis using grows_release[OF m(1)] by (intro same) (auto simp: client_closed_def Let_def)
  next
    case fin then show ?thesis using sel grows_close[OF m(1)] by (intro same) auto
  next
    case wr
    then show ?thesis using client_send_ok[OF wr m] ok sel by auto
  qed
qed

lemma server_execute_ok:
  assumes r: "server_execute rt addr idx s m w = (Inr (s', k), m', w')" and m: "man_wf m"
    and ok: "task_ok m (Server s)"
  shows "grows m m' \<and> task_ok m' (Server s') \<and> (\<forall>k'. k = Some k' \<longrightarrow> task_ok m' (Worker k'))"
proof -
  have s: "ts_serverSock s < length (allSockets m)" using ok by simp
  obtain c m1 where a: "tm_accept (ts_serverSock s) m = (c, m1)" by fastforce
  have g: "grows m m1" using grows_accept[OF m s] a by simp
  have child: "c' < length (allSockets m)" if "c = Some c'" for c'
    using a that man_wfD(1)[OF m s]
    by (auto simp: tm_accept_def sock_ok_def Let_def split: if_splits list.splits)
  have len: "length (allSockets m) \<le> length (allSockets m1)" using g by (simp add: grows_def)
  show ?thesis
    using r a g child len s grows_refl[OF m]
    by (auto simp: server_execute_def transfer_worker_ctor_def Let_def split: if_splits option.splits sum.splits)
qed

lemma worker_execute_ok:
  assumes r: "worker_execute rt addr k m w = (Inr k', m', w')" and m: "man_wf m"
    and ok: "task_ok m (Worker k)" "task_room (Worker k)"
  shows "grows m m' \<and> task_ok m' (Worker k')"
proof (cases "isClosed (get_sock (tw_sock k) m)")
  case True
  then show ?thesis using r ok m by (auto simp: worker_execute_def grows_refl)
next
  case False
  let ?sz = "int (length (tw_buf k))" let ?i = "tw_pos k smod ?sz"
  obtain n bs m1 where rd: "tm_read (tw_sock k) True ?i (?sz - ?i) m = ((n, bs), m1)" by (metis prod.collapse)
  have sz: "tw_buf k \<noteq> []" using r False by (auto simp: worker_execute_def split: if_splits)
  have g: "grows m m1" using grows_read[OF m, of "tw_sock k" True ?i "?sz - ?i"] rd by simp
  have rel: "grows m (tm_release (tw_sock k) m1)"
    using g grows_release grows_trans by (metis grows_def)
  have wf: "sock_wf (get_sock (tw_sock k) m)" using man_wfD(1)[OF m] ok by (auto dest: sock_okD)
  have n: "n = -1 \<or> 0 \<le> n \<and> n \<le> RECV_BUF_CAP"
    using rd wf by (auto simp: tm_read_def sk_read_def sock_wf_defs Let_def min_def split: prod.splits if_splits)
  have "n \<noteq> -1 \<Longrightarrow> i32 (tw_pos k + n) = tw_pos k + n"
    using n ok by (intro i32_id) (auto simp: in_i32_def cxx_const)
  then show ?thesis
    using r False sz rd g rel n ok
    by (auto simp: worker_execute_def Let_def grows_def split: if_splits)
qed

section \<open>Every event keeps the node's invariant\<close>

lemma node_wf_grows:
  assumes "node_wf n" "grows (sn_tcp n) m"
  shows "node_wf (n\<lparr>sn_tcp := m\<rparr>)"
  using assms task_ok_grows by (auto simp: node_wf_def grows_def)

lemma node_wf_ctor [wf_intro]: "node_wf (stack_node_ctor a)"
  by (simp add: node_wf_def stack_node_ctor_def man_wf_ctor) (simp add: tcp_manager_ctor_def)

lemma node_wf_pings [simp]: "node_wf (n\<lparr>sn_pings := ps\<rparr>) = node_wf n"
  by (simp add: node_wf_def)

lemma node_wf_onReceive:
  assumes "node_wf n" "node_room n"
  shows "node_wf (fst (onReceive rt from msg n w))"
proof -
  have m: "man_wf (sn_tcp n)" "man_room (sn_tcp n)" using assms by (auto simp: node_wf_def node_room_def)
  have "node_wf (fst (sn_receiveTransport rt n p w))" for p
  proof (cases "transport_unpack (pk_payload p)")
    case (Some t)
    then have "grows (sn_tcp n) (fst (tm_receiveTransport rt (pk_src p) t (sn_tcp n) w))"
      using tcp_do_grows[OF m, of "CallReceive (pk_src p) t"] transport_unpack_valid by simp
    then show ?thesis using Some node_wf_grows[OF assms(1)]
      by (simp add: sn_receiveTransport_def split_beta)
  qed (simp add: sn_receiveTransport_def assms)
  then show ?thesis using assms(1)
    by (auto simp: onReceive_def receivePacket_def receivePingReply_def Let_def split: option.split)
qed

lemma matchTransfer_open_client:
  assumes "parse_transfer (splitSpaceVec command) = Inr a"
    "open_client rt (ta_localPort a) (ta_destAddr a) (ta_port a) (sn_tcp n) w = (r, i, m, w1)"
    "\<not> (length (splitSpaceVec command) < 5 \<or> length (splitSpaceVec command) > 7)" "splitSpaceVec command ! 0 = ''transfer''"
  shows "matchTransferCommand rt command n w =
    (case transfer_client_ctor i (ta_amount a) (ta_interval a) (ta_sz a) of
       Inl e \<Rightarrow> (False, n\<lparr>sn_tcp := m\<rparr>, logError (sn_addr n) (''Exception: '' @ what e) w1)
     | Inr c \<Rightarrow> (True, n\<lparr>sn_tcp := m, sn_tasks := sn_tasks n @ [Client c]\<rparr>,
                task_schedule rt (sn_addr n) (length (sn_tasks n)) (tc_interval c) w1))"
proof -
  obtain s m1 where s: "tm_socket (sn_tcp n) = (s, m1)" by fastforce
  obtain x m2 where b: "tm_bind s (ta_localPort a) m1 = (x, m2)" by fastforce
  obtain y m3 w3 where c: "tm_connect rt s (ta_destAddr a) (ta_port a) m2 w = (y, m3, w3)" by (metis prod_cases3)
  have "(r, i, m, w1) = (y, s, m3, w3)" using assms(2) s b c by (simp add: open_client_def Let_def)
  then show ?thesis using assms(1,3,4) s b c
    by (simp add: matchTransferCommand_def Let_def split: sum.split)
qed

lemma node_wf_matchTransfer:
  assumes wf: "node_wf n"
  shows "node_wf (fst (snd (matchTransferCommand rt command n w)))"
proof -
  let ?args = "splitSpaceVec command"
  show ?thesis
  proof (cases "length ?args < 5 \<or> length ?args > 7 \<or> ?args ! 0 \<noteq> ''transfer'' \<or> (\<exists>e. parse_transfer ?args = Inl e)")
    case True
    then show ?thesis using wf by (auto simp: matchTransferCommand_def Let_def split: sum.split)
  next
    case False
    then obtain a where a: "parse_transfer ?args = Inr a" by (metis sumE)
    obtain r i m w1 where o: "open_client rt (ta_localPort a) (ta_destAddr a) (ta_port a) (sn_tcp n) w = (r, i, m, w1)"
      by (metis prod_cases4)
    have g: "grows (sn_tcp n) m" "i < length (allSockets m)"
      using grows_open_client[OF _ o] wf by (auto simp: node_wf_def)
    have wf1: "node_wf (n\<lparr>sn_tcp := m\<rparr>)" using node_wf_grows[OF wf g(1)] .
    have "node_wf (n\<lparr>sn_tcp := m, sn_tasks := sn_tasks n @ [Client c]\<rparr>)"
      if "transfer_client_ctor i x y z = Inr c" for x y z c
      using that wf1 g(2) by (auto simp: node_wf_def transfer_client_ctor_def split: sum.splits)
    then show ?thesis using False wf1
      by (subst matchTransfer_open_client[OF a o]) (auto split: sum.split)
  qed
qed

lemma node_wf_matchServer:
  assumes wf: "node_wf n"
  shows "node_wf (fst (snd (matchServerCommand rt command n w)))"
proof -
  let ?args = "splitSpaceVec command"
  show ?thesis
  proof (cases "length ?args < 3 \<or> length ?args > 6 \<or> ?args ! 0 \<noteq> ''server'' \<or> (\<exists>e. parse_server ?args = Inl e)")
    case True
    then show ?thesis using wf by (auto simp: matchServerCommand_def Let_def split: sum.split)
  next
    case False
    then obtain a where a: "parse_server ?args = Inr a" by (metis sumE)
    obtain r i m where o: "open_server (sa_port a) (sa_backlog a) (sn_tcp n) = (r, i, m)" by (metis prod_cases3)
    have g: "grows (sn_tcp n) m" "i < length (allSockets m)"
      using grows_open_server[OF _ o] wf by (auto simp: node_wf_def)
    let ?s = "transfer_server_ctor i (sa_servint a) (sa_workint a) (sa_sz a)"
    have "node_wf (n\<lparr>sn_tcp := m, sn_tasks := sn_tasks n @ [Server ?s]\<rparr>)"
      using node_wf_grows[OF wf g(1)] g(2) by (auto simp: node_wf_def transfer_server_ctor_def)
    moreover have "fst (snd (matchServerCommand rt command n w)) = n\<lparr>sn_tcp := m, sn_tasks := sn_tasks n @ [Server ?s]\<rparr>"
      using False a o by (auto simp: matchServerCommand_def open_server_def Let_def split: prod.splits)
    ultimately show ?thesis by simp
  qed
qed

lemma node_wf_onCommand:
  assumes wf: "node_wf n"
  shows "node_wf (fst (onCommand rt command n w))"
proof -
  have ping: "node_wf (fst (snd (matchPingCommand rt command n' w')))" if "node_wf n'" for n' w'
    using that by (auto simp: matchPingCommand_def Let_def split: sum.split)
  obtain b1 n1 w1 where 1: "matchTransferCommand rt command n w = (b1, n1, w1)" by (metis prod_cases3)
  obtain b2 n2 w2 where 2: "matchServerCommand rt command n1 w1 = (b2, n2, w2)" by (metis prod_cases3)
  obtain b3 n3 w3 where 3: "matchPingCommand rt command n2 w2 = (b3, n3, w3)" by (metis prod_cases3)
  have n1: "node_wf n1" using node_wf_matchTransfer[OF wf, of rt command w] 1 by simp
  have n2: "node_wf n2" using node_wf_matchServer[OF n1, of rt command w1] 2 by simp
  have n3: "node_wf n3" using ping[OF n2, of w2] 3 by simp
  show ?thesis using n1 n2 n3 by (simp add: onCommand_def 1 2 3 split: bool.split)
qed

lemma node_wf_update_task:
  assumes "node_wf n" "grows (sn_tcp n) m" "\<forall>t \<in> set ts. task_ok m t"
  shows "node_wf (n\<lparr>sn_tasks := ts, sn_tcp := m\<rparr>)"
  using assms by (auto simp: node_wf_def grows_def)

lemma task_tick_ok:
  assumes r: "task_tick rt addr idx ts m w = (Inr ts', m', w')" and m: "man_wf m" "man_room m"
    and idx: "idx < length ts" and ok: "\<forall>t \<in> set ts. task_ok m t" "\<forall>t \<in> set ts. task_room t"
  shows "grows m m' \<and> (\<forall>t \<in> set ts'. task_ok m' t)"
proof -
  have upd: "\<forall>t \<in> set (ts[idx := t1]). task_ok m' t" if "grows m m'" "task_ok m' t1" for t1
    using that ok(1) task_ok_grows by (metis insert_iff set_update_subset_insert subsetD)
  have ti: "task_ok m (ts ! idx)" "task_room (ts ! idx)" using ok idx by auto
  show ?thesis
  proof (cases "ts ! idx")
    case (Client c)
    then obtain c1 w1 where c: "client_execute rt addr c m w = (Inr c1, m', w1)" "ts' = ts[idx := Client c1]"
      using r by (auto simp: task_tick_def split: prod.splits sum.splits)
    then show ?thesis using client_execute_ok[OF c(1) m] ti Client upd by metis
  next
    case (Server s)
    then obtain s1 k w1 where c: "server_execute rt addr (length ts) s m w = (Inr (s1, k), m', w1)"
      "ts' = ts[idx := Server s1] @ (case k of None \<Rightarrow> [] | Some k \<Rightarrow> [Worker k])"
      using r by (auto simp: task_tick_def split: prod.splits sum.splits)
    then have "grows m m'" "task_ok m' (Server s1)" "\<forall>k'. k = Some k' \<longrightarrow> task_ok m' (Worker k')"
      using server_execute_ok[OF c(1) m(1)] ti Server by auto
    with upd[of "Server s1"] c(2) show ?thesis by (auto split: option.splits simp del: task_ok.simps)
  next
    case (Worker k)
    then obtain k1 w1 where c: "worker_execute rt addr k m w = (Inr k1, m', w1)" "ts' = ts[idx := Worker k1]"
      using r by (auto simp: task_tick_def split: prod.splits sum.splits)
    then show ?thesis using worker_execute_ok[OF c(1) m(1)] ti Worker upd by metis
  qed
qed

lemma task_tick_raises:
  assumes r: "task_tick rt addr idx ts m w = (Inl e, m', w')" and m: "man_wf m"
    and idx: "idx < length ts" and ok: "\<forall>t \<in> set ts. task_ok m t"
  shows "grows m m'"
proof -
  have ti: "task_ok m (ts ! idx)" using ok idx by auto
  show ?thesis
  proof (cases "ts ! idx")
    case (Client c)
    then have "m' = m"
      using r by (auto simp: task_tick_def client_execute_def client_connected_def client_send_def Let_def
          split: prod.splits sum.splits if_splits)
    then show ?thesis using m by (simp add: grows_refl)
  next
    case (Server s)
    then have "m' = snd (tm_accept (ts_serverSock s) m)"
      using r by (auto simp: task_tick_def server_execute_def Let_def split: prod.splits sum.splits if_splits option.splits)
    then show ?thesis using grows_accept[OF m] ti Server by simp
  next
    case (Worker k)
    then have "m' = m"
      using r by (auto simp: task_tick_def worker_execute_def Let_def split: prod.splits sum.splits if_splits)
    then show ?thesis using m by (simp add: grows_refl)
  qed
qed

fun callback_ok :: "stack_node \<Rightarrow> callback \<Rightarrow> bool" where
  "callback_ok n (CbTaskTick _ idx) \<longleftrightarrow> idx < length (sn_tasks n)"
| "callback_ok n _ \<longleftrightarrow> True"

lemma node_wf_callback:
  assumes wf: "node_wf n" "node_room n" "callback_ok n cb" and r: "sn_callback rt cb n w = (x, n', w')"
  shows "node_wf n'"
proof -
  have m: "man_wf (sn_tcp n)" "man_room (sn_tcp n)" using wf by (auto simp: node_wf_def node_room_def)
  show ?thesis
  proof (cases cb)
    case (CbPingTimedOut a)
    then show ?thesis using r wf by (auto simp: sn_callback_def pingTimedOut_def Let_def split: prod.splits)
  next
    case (CbRetransmissionTick a)
    then show ?thesis using r node_wf_grows[OF wf(1)] tcp_do_grows[OF m, of CallTick rt w]
      by (auto simp: sn_callback_def split: prod.splits)
  next
    case (CbTaskTick a idx)
    obtain r1 m1 w1 where t: "task_tick rt (sn_addr n) idx (sn_tasks n) (sn_tcp n) w = (r1, m1, w1)"
      by (metis prod_cases3)
    have ok: "idx < length (sn_tasks n)" "\<forall>t \<in> set (sn_tasks n). task_ok (sn_tcp n) t" "\<forall>t \<in> set (sn_tasks n). task_room t"
      using wf CbTaskTick by (auto simp: node_wf_def node_room_def)
    show ?thesis
    proof (cases r1)
      case (Inl e)
      then have "grows (sn_tcp n) m1" using task_tick_raises[OF _ m(1) ok(1,2)] t by blast
      then show ?thesis using node_wf_grows[OF wf(1)] r t CbTaskTick Inl by (auto simp: sn_callback_def)
    next
      case (Inr ts)
      then have "grows (sn_tcp n) m1 \<and> (\<forall>t \<in> set ts. task_ok m1 t)"
        using task_tick_ok[OF _ m ok(1,2,3)] t by blast
      then show ?thesis using r t CbTaskTick Inr node_wf_update_task[OF wf(1)] by (auto simp: sn_callback_def)
    qed
  qed (use r wf in \<open>auto simp: sn_callback_def\<close>)
qed

inductive node_reachable :: "'m runtime \<Rightarrow> int \<Rightarrow> stack_node \<Rightarrow> bool" for rt a where
  start: "node_reachable rt a (stack_node_ctor a)"
| receive: "node_reachable rt a n \<Longrightarrow> node_room n \<Longrightarrow> node_reachable rt a (fst (onReceive rt from msg n w))"
| command: "node_reachable rt a n \<Longrightarrow> node_reachable rt a (fst (onCommand rt cmd n w))"
| timer: "node_reachable rt a n \<Longrightarrow> node_room n \<Longrightarrow> callback_ok n cb \<Longrightarrow>
     sn_callback rt cb n w = (x, n', w') \<Longrightarrow> node_reachable rt a n'"

inductive_cases node_reachableE: "node_reachable rt a n"

lemma reachable_node_wf: "node_reachable rt a n \<Longrightarrow> node_wf n"
  by (induction rule: node_reachable.induct)
     (auto intro: node_wf_ctor node_wf_onReceive node_wf_onCommand node_wf_callback)

section \<open>Dispatch\<close>

text \<open>A packet that carries a segment reaches the TCP manager with the source address and the
  segment that \<open>decode_pkt\<close> finds.\<close>

lemma onReceive_segment:
  assumes "decode_pkt bs = Some (src, t)"
  shows "onReceive rt from bs n w =
    (n\<lparr>sn_tcp := fst (tm_receiveTransport rt src t (sn_tcp n) w)\<rparr>, snd (tm_receiveTransport rt src t (sn_tcp n) w))"
proof -
  obtain p where p: "packet_unpack bs = Some p" "pk_protocol p = TRANSPORT_PKT" "pk_src p = src"
    "transport_unpack (pk_payload p) = Some t"
    using assms by (auto simp: decode_pkt_def split: option.splits if_splits)
  then show ?thesis
    by (simp add: onReceive_def receivePacket_def sn_receiveTransport_def split_beta cxx_const)
qed

lemma onReceive_other:
  assumes "decode_pkt bs = None"
  shows "sn_tcp (fst (onReceive rt from bs n w)) = sn_tcp n \<and> sn_tasks (fst (onReceive rt from bs n w)) = sn_tasks n"
  using assms
  by (auto simp: decode_pkt_def onReceive_def receivePacket_def sn_receiveTransport_def receivePingReply_def Let_def
      split: option.splits if_splits)

section \<open>Pings\<close>

lemma expire_pings_filter:
  "fst (expire_pings addr now rs w) = filter (\<lambda>r. \<not> ping_expired now r) rs"
  by (induction addr now rs w rule: expire_pings.induct) (auto split: prod.split)

lemma expire_pings_out:
  "io_out (snd (expire_pings addr now rs w)) =
     io_out w @ map (\<lambda>r. Cout (''Node '' @ string_of_int addr @ '': '' @ timeout_msg r)) (filter (ping_expired now) rs)"
  by (induction addr now rs w rule: expire_pings.induct)
     (auto simp: logOutput_def cout_def split: prod.split)

lemma take_ping_remove1:
  "take_ping src payload rs = None \<longleftrightarrow> (\<forall>r \<in> set rs. \<not> (pr_destAddr r = src \<and> pr_msg r = payload))"
  "take_ping src payload rs = Some rs' \<Longrightarrow>
     \<exists>r. r \<in> set rs \<and> pr_destAddr r = src \<and> pr_msg r = payload \<and> rs' = remove1 r rs"
proof -
  have inj: "bytesToString x = bytesToString y \<longleftrightarrow> x = y" for x y
    by (metis stringToBytes_bytesToString)
  show "take_ping src payload rs = None \<longleftrightarrow> (\<forall>r \<in> set rs. \<not> (pr_destAddr r = src \<and> pr_msg r = payload))"
    by (induction rs) (auto simp: inj)
  show "take_ping src payload rs = Some rs' \<Longrightarrow>
     \<exists>r. r \<in> set rs \<and> pr_destAddr r = src \<and> pr_msg r = payload \<and> rs' = remove1 r rs"
  proof (induction rs arbitrary: rs')
    case (Cons r rs)
    then show ?case by (fastforce simp: inj split: if_splits)
  qed simp
qed

text \<open>The bytes of a ping and of its reply.\<close>

definition ping_pkt :: "int \<Rightarrow> int \<Rightarrow> int \<Rightarrow> byte list \<Rightarrow> packet" where
  "ping_pkt proto src dest msg =
     \<lparr>pk_dest = dest, pk_src = src, pk_ttl = MAX_TTL, pk_protocol = proto, pk_seq = 0, pk_payload = msg\<rparr>"

lemma ping_pkt_ok:
  assumes "validAddress src" "validAddress dest" "Protocol_isValid proto" "int (length msg) \<le> PKT_MAX_PAYLOAD_SIZE"
  shows "packet_ok (ping_pkt proto src dest msg)"
    "packet_ctor dest src MAX_TTL proto 0 msg = Inr (ping_pkt proto src dest msg)"
  using assms
  by (auto simp: ping_pkt_def packet_ok_def packet_isValid_def packet_args_valid_def packet_ctor_def validAddress_def
      cxx_const in_i32_def)

lemma matchPingCommand_sends:
  assumes v: "validAddress (sn_addr n)" "validAddress dest" "int (length msg) \<le> PKT_MAX_PAYLOAD_SIZE"
    and cmd: "cmd = string_of_int dest @ '' '' @ bytesToString msg"
  shows "matchPingCommand rt cmd n w =
    (let w1 = sendPacket rt n dest (ping_pkt PING_PKT (sn_addr n) dest msg) w
     in (True, n\<lparr>sn_pings := sn_pings n @ [\<lparr>pr_destAddr = dest, pr_msg = msg, pr_timeSentMs = rt_now rt (io_rt w1)\<rparr>]\<rparr>, w1))"
proof -
  have ns: "CHR '' '' \<notin> set (string_of_int dest)" by (rule string_of_int_no_space)
  have tw: "takeWhile (\<lambda>c. c \<noteq> CHR '' '') cmd = string_of_int dest"
    using ns by (auto simp: cmd takeWhile_append2 takeWhile_tail)
  have dw: "dropWhile (\<lambda>c. c \<noteq> CHR '' '') cmd = CHR '' '' # bytesToString msg"
    using ns by (auto simp: cmd dropWhile_append3)
  have dest: "in_i32 dest" using v(2) by (simp add: validAddress_def in_i32_def cxx_const)
  have "Protocol_isValid PING_PKT" by (simp add: Protocol_isValid_def)
  note p = ping_pkt_ok(2)[OF v(1,2) this v(3)]
  show ?thesis
    by (simp add: matchPingCommand_def tw dw stoi_string_of_int[OF dest] p Let_def)
qed

lemma ping_answered:
  assumes v: "validAddress a" "validAddress (sn_addr n)" "int (length msg) \<le> PKT_MAX_PAYLOAD_SIZE"
  shows "onReceive rt from (packet_pack (ping_pkt PING_PKT a (sn_addr n) msg)) n w =
    (n, sendPacket rt n a (ping_pkt PING_REPLY_PKT (sn_addr n) a msg)
          (logOutput (sn_addr n) (''Received Ping from '' @ string_of_int a @ '' with message: '' @ bytesToString msg) w))"
proof -
  have "packet_unpack (packet_pack (ping_pkt PING_PKT a (sn_addr n) msg)) = Some (ping_pkt PING_PKT a (sn_addr n) msg)"
    using ping_pkt_ok(1)[of a "sn_addr n" PING_PKT msg] v pkt.unpack_pack by (simp add: Protocol_isValid_def)
  moreover have "packet_ctor a (sn_addr n) MAX_TTL PING_REPLY_PKT 0 msg = Inr (ping_pkt PING_REPLY_PKT (sn_addr n) a msg)"
    using v by (intro ping_pkt_ok(2)) (auto simp: Protocol_isValid_def)
  ultimately show ?thesis
    by (simp add: onReceive_def receivePacket_def receivePing_def Let_def) (simp add: ping_pkt_def)
qed

lemma ping_reply_matched:
  assumes v: "validAddress b" "validAddress (sn_addr n)" "int (length msg) \<le> PKT_MAX_PAYLOAD_SIZE"
    and mem: "take_ping b msg (sn_pings n) = Some ps"
  shows "onReceive rt from (packet_pack (ping_pkt PING_REPLY_PKT b (sn_addr n) msg)) n w =
    (n\<lparr>sn_pings := ps\<rparr>,
     logOutput (sn_addr n) (''Got Ping Reply from '' @ string_of_int b @ '': '' @ bytesToString msg) w)"
proof -
  have "packet_unpack (packet_pack (ping_pkt PING_REPLY_PKT b (sn_addr n) msg)) = Some (ping_pkt PING_REPLY_PKT b (sn_addr n) msg)"
    using ping_pkt_ok(1)[of b "sn_addr n" PING_REPLY_PKT msg] v pkt.unpack_pack by (simp add: Protocol_isValid_def)
  then show ?thesis using mem
    by (simp add: onReceive_def receivePacket_def receivePingReply_def Let_def ping_pkt_def cxx_const)
qed

section \<open>Commands\<close>

lemma parse_transfer_print:
  assumes "in_i32 d" "in_i32 p" "in_i32 l" "in_i32 a" "in_i64 iv" "in_i32 sz"
  shows "parse_transfer (splitSpaceVec (unwords [''transfer'', string_of_int d, string_of_int p, string_of_int l,
      string_of_int a, string_of_int iv, string_of_int sz])) =
    Inr \<lparr>ta_destAddr = d, ta_port = p, ta_localPort = l, ta_amount = a, ta_interval = iv, ta_sz = sz\<rparr>"
proof -
  have stol: "stol (string_of_int v) = Inr v" if "in_i64 v" for v using that by (simp add: stol_def)
  let ?ws = "[''transfer'', string_of_int d, string_of_int p, string_of_int l, string_of_int a, string_of_int iv, string_of_int sz]"
  have ws: "splitSpaceVec (unwords ?ws) = ?ws"
    unfolding splitSpaceVec_words_of by (rule words_of_unwords) (simp_all add: string_of_int_no_space)
  show ?thesis unfolding ws using assms
    by (simp add: parse_transfer_def stoi_string_of_int stol ebind_def)
qed

lemma string_of_int_not_word: "in_i32 d \<Longrightarrow> \<not> isl (stoi (string_of_int d))"
  by (simp add: stoi_string_of_int)

lemma take_ping_snoc:
  assumes "pr_destAddr r = src" "pr_msg r = payload"
  obtains ps where "take_ping src payload (rs @ [r]) = Some ps" "length ps = length rs"
proof -
  have "\<exists>ps. take_ping src payload (rs @ [r]) = Some ps \<and> length ps = length rs"
    using assms by (induction rs) auto
  then show thesis using that by blast
qed

lemma onCommand_ping:
  assumes v: "validAddress (sn_addr n)" "validAddress dest" "int (length msg) \<le> PKT_MAX_PAYLOAD_SIZE"
    and cmd: "cmd = string_of_int dest @ '' '' @ bytesToString msg"
  shows "onCommand rt cmd n w =
    (let w1 = sendPacket rt n dest (ping_pkt PING_PKT (sn_addr n) dest msg) w
     in (n\<lparr>sn_pings := sn_pings n @ [\<lparr>pr_destAddr = dest, pr_msg = msg, pr_timeSentMs = rt_now rt (io_rt w1)\<rparr>]\<rparr>, w1))"
proof -
  have ws: "splitSpaceVec cmd ! 0 = string_of_int dest"
    using words_of_append_space[OF string_of_int_no_space] by (simp add: cmd splitSpaceVec_words_of)
  have "in_i32 dest" using v(2) by (simp add: validAddress_def in_i32_def cxx_const)
  moreover have "isl (stoi ''transfer'')" "isl (stoi ''server'')" by code_simp+
  ultimately have "string_of_int dest \<noteq> ''transfer''" "string_of_int dest \<noteq> ''server''"
    using string_of_int_not_word by metis+
  then show ?thesis
    by (simp add: onCommand_def matchTransferCommand_def matchServerCommand_def ws matchPingCommand_sends[OF v cmd] Let_def)
qed

section \<open>Properties\<close>

text \<open>C12. Every state a node reaches, by packets of any content, user commands and timers, is
  well formed: its TCP manager satisfies the manager's invariant and every task refers to a
  socket that exists.\<close>

theorem node_invariant:
  assumes "node_reachable rt a n"
  shows "node_wf n"
  using assms by (rule reachable_node_wf)

theorem node_invariant_witness:
  "node_wf (fst (onCommand null_rt ''server 20 5'' (stack_node_ctor 2) \<lparr>io_rt = (), io_out = []\<rparr>))"
  by (rule node_invariant[OF node_reachable.command[OF node_reachable.start]])

text \<open>C34. Dispatch: \<open>onReceive\<close> passes exactly the segments of well-formed transport packets to the
  TCP manager, with their source address; no other message changes the manager or the tasks.\<close>

theorem packets_dispatched:
  "case decode_pkt bs of
     Some (src, t) \<Rightarrow> (let (m, w1) = tm_receiveTransport rt src t (sn_tcp n) w
                      in onReceive rt from bs n w = (n\<lparr>sn_tcp := m\<rparr>, w1))
   | None \<Rightarrow> (let n' = fst (onReceive rt from bs n w) in sn_tcp n' = sn_tcp n \<and> sn_tasks n' = sn_tasks n)"
  using onReceive_segment[of bs _ _ rt "from" n w] onReceive_other[of bs rt "from" n w]
  by (auto simp: Let_def split: option.split prod.split)

text \<open>C36. A ping and its reply: the command sends the ping and records it, the other node answers
  with the same bytes, and the reply is matched against a recorded request, which is
  removed.\<close>

theorem ping_round_trip:
  assumes "validAddress (sn_addr a)" "validAddress (sn_addr b)" "int (length msg) \<le> PKT_MAX_PAYLOAD_SIZE"
  shows "let ping = ping_pkt PING_PKT (sn_addr a) (sn_addr b) msg;
      reply = ping_pkt PING_REPLY_PKT (sn_addr b) (sn_addr a) msg;
      (a1, w1) = onCommand rt (string_of_int (sn_addr b) @ '' '' @ bytesToString msg) a w
    in w1 = sendPacket rt a (sn_addr b) ping w \<and> length (sn_pings a1) = Suc (length (sn_pings a)) \<and>
       onReceive rt2 f2 (packet_pack ping) b w2 =
         (b, sendPacket rt2 b (sn_addr a) reply (logOutput (sn_addr b)
            (''Received Ping from '' @ string_of_int (sn_addr a) @ '' with message: '' @ bytesToString msg) w2)) \<and>
       (\<exists>ps. length ps = length (sn_pings a) \<and> onReceive rt3 f3 (packet_pack reply) a1 w3 =
          (a1\<lparr>sn_pings := ps\<rparr>, logOutput (sn_addr a)
             (''Got Ping Reply from '' @ string_of_int (sn_addr b) @ '': '' @ bytesToString msg) w3))"
proof -
  let ?w1 = "sendPacket rt a (sn_addr b) (ping_pkt PING_PKT (sn_addr a) (sn_addr b) msg) w"
  let ?req = "\<lparr>pr_destAddr = sn_addr b, pr_msg = msg, pr_timeSentMs = rt_now rt (io_rt ?w1)\<rparr>"
  let ?a1 = "a\<lparr>sn_pings := sn_pings a @ [?req]\<rparr>"
  have c: "onCommand rt (string_of_int (sn_addr b) @ '' '' @ bytesToString msg) a w = (?a1, ?w1)"
    using onCommand_ping[OF assms refl, of rt w] by (simp add: Let_def)
  obtain ps where ps: "take_ping (sn_addr b) msg (sn_pings a @ [?req]) = Some ps" "length ps = length (sn_pings a)"
    using take_ping_snoc[of ?req "sn_addr b" msg "sn_pings a"] by auto
  then have "take_ping (sn_addr b) msg (sn_pings ?a1) = Some ps" by simp
  note r = ping_reply_matched[OF assms(2) _ assms(3) this, of rt3 f3 w3]
  show ?thesis
    using c ping_answered[OF assms, of rt2 f2 w2] r assms(1) ps(2)
    by (auto simp: Let_def intro!: exI[of _ ps])
qed

theorem ping_round_trip_witness:
  "fst (onReceive null_rt 2 (packet_pack (ping_pkt PING_REPLY_PKT 2 1 [104, 105]))
      (fst (onCommand null_rt ''2 hi'' (stack_node_ctor 1) \<lparr>io_rt = (), io_out = []\<rparr>)) \<lparr>io_rt = (), io_out = []\<rparr>) =
    stack_node_ctor 1"
proof -
  let ?a1 = "fst (onCommand null_rt ''2 hi'' (stack_node_ctor 1) \<lparr>io_rt = (), io_out = []\<rparr>)"
  have a: "sn_addr (stack_node_ctor x) = x" for x by (simp add: stack_node_ctor_def)
  have h: "validAddress (sn_addr (stack_node_ctor 1))" "validAddress (sn_addr (stack_node_ctor 2))"
    "int (length [104, 105 :: byte]) \<le> PKT_MAX_PAYLOAD_SIZE"
    by (simp_all add: a validAddress_def cxx_const)
  have cmd: "string_of_int 2 @ '' '' @ bytesToString [104, 105] = ''2 hi''" by code_simp
  have "\<exists>ps :: ping_request list. length ps = 0 \<and> fst (onReceive null_rt 2 (packet_pack (ping_pkt PING_REPLY_PKT 2 1 [104, 105])) ?a1
      \<lparr>io_rt = (), io_out = []\<rparr>) = ?a1\<lparr>sn_pings := ps\<rparr>"
    using ping_round_trip[OF h, of null_rt "\<lparr>io_rt = (), io_out = []\<rparr>" null_rt 2 "\<lparr>io_rt = (), io_out = []\<rparr>"
        null_rt 2 "\<lparr>io_rt = (), io_out = []\<rparr>"]
    unfolding a cmd by (auto simp: Let_def a stack_node_ctor_def split: prod.splits)
  moreover have "?a1\<lparr>sn_pings := []\<rparr> = stack_node_ctor 1" by code_simp
  ultimately show ?thesis by auto
qed

text \<open>\<open>pingTimedOut\<close> reports and removes exactly the pings that are overdue, keeps the others in
  order, and rearms its timer.\<close>

theorem pings_expire:
  "let now = rt_now rt (io_rt w); (n', w') = pingTimedOut rt n w in
     sn_pings n' = filter (\<lambda>r. \<not> ping_expired now r) (sn_pings n) \<and>
     io_out w' = io_out w @ map (\<lambda>r. Cout (''Node '' @ string_of_int (sn_addr n) @ '': '' @ timeout_msg r))
                               (filter (ping_expired now) (sn_pings n)) \<and>
     io_rt w' = rt_addTimer rt (sn_addr n) PING_TIMEOUT_MS (Some (CbPingTimedOut (sn_addr n))) (io_rt w)"
proof -
  have io: "io_rt (snd (expire_pings a now rs w)) = io_rt w" for a now rs and w :: "'m io"
    by (induction a now rs w rule: expire_pings.induct) (auto simp: logOutput_def cout_def split: prod.split)
  show ?thesis
    using expire_pings_filter[of "sn_addr n" "rt_now rt (io_rt w)" "sn_pings n" w]
      expire_pings_out[of "sn_addr n" "rt_now rt (io_rt w)" "sn_pings n" w]
      io[of "sn_addr n" "rt_now rt (io_rt w)" "sn_pings n" w]
    by (auto simp: pingTimedOut_def Let_def addTimer_io_def split: prod.split)
qed

text \<open>The \<open>transfer\<close> command, printed from its arguments, parses back to them: it opens a
  connection from the local port and starts one client task on its socket.\<close>

theorem transfer_command_starts_client:
  assumes "in_i32 d" "in_i32 p" "in_i32 l" "in_i32 amt" "in_i64 iv" "in_i32 sz" "0 \<le> sz"
    and "open_client rt l d p (sn_tcp n) w = (r, i, m, w1)"
  shows "onCommand rt (unwords (''transfer'' # map string_of_int [d, p, l, amt, iv, sz])) n w =
    (n\<lparr>sn_tcp := m, sn_tasks := sn_tasks n @ [Client \<lparr>tc_interval = iv, tc_sock = i, tc_buf = replicate (nat sz) 0,
         tc_amount = amt, tc_startTime = 0, tc_finishTime = 0, tc_pos = 0\<rparr>]\<rparr>,
     task_schedule rt (sn_addr n) (length (sn_tasks n)) iv w1)"
proof -
  let ?cmd = "unwords (''transfer'' # map string_of_int [d, p, l, amt, iv, sz])"
  let ?a = "\<lparr>ta_destAddr = d, ta_port = p, ta_localPort = l, ta_amount = amt, ta_interval = iv, ta_sz = sz\<rparr>"
  have ws: "splitSpaceVec ?cmd = ''transfer'' # map string_of_int [d, p, l, amt, iv, sz]"
    unfolding splitSpaceVec_words_of by (rule words_of_unwords) (simp_all add: string_of_int_no_space)
  have pa: "parse_transfer (splitSpaceVec ?cmd) = Inr ?a"
    using parse_transfer_print[OF assms(1-6)] by simp
  have op: "open_client rt (ta_localPort ?a) (ta_destAddr ?a) (ta_port ?a) (sn_tcp n) w = (r, i, m, w1)"
    using assms(8) by simp
  have "matchTransferCommand rt ?cmd n w =
    (True, n\<lparr>sn_tcp := m, sn_tasks := sn_tasks n @ [Client \<lparr>tc_interval = iv, tc_sock = i, tc_buf = replicate (nat sz) 0,
         tc_amount = amt, tc_startTime = 0, tc_finishTime = 0, tc_pos = 0\<rparr>]\<rparr>,
     task_schedule rt (sn_addr n) (length (sn_tasks n)) iv w1)"
    using assms(7) by (subst matchTransfer_open_client[OF pa op])
      (simp_all only: ws, simp_all add: transfer_client_ctor_def mk_buf_def setInterval_def)
  then show ?thesis by (simp only: onCommand_def prod.case bool.case)
qed

theorem transfer_command_starts_client_witness:
  "length (sn_tasks (fst (onCommand null_rt ''transfer 2 20 10 6 1000 4'' (stack_node_ctor 1) \<lparr>io_rt = (), io_out = []\<rparr>))) = 1"
proof -
  have c: "unwords (''transfer'' # map string_of_int [2, 20, 10, 6, 1000, 4]) = ''transfer 2 20 10 6 1000 4''" by code_simp
  obtain r i m w1 where o: "open_client null_rt 10 2 20 (sn_tcp (stack_node_ctor 1)) \<lparr>io_rt = (), io_out = []\<rparr> = (r, i, m, w1)"
    by (metis prod_cases4)
  from transfer_command_starts_client[OF _ _ _ _ _ _ _ o, of 6 1000 4]
  show ?thesis unfolding c by (simp add: in_i32_def in_i64_def stack_node_ctor_def)
qed

end
