(* ===== verification/Node_Effects.thy ===== *)
theory Node_Effects
  imports Node_Invariant
begin

text \<open>
  What a node does to the runtime it runs on. It only sends packets in its own name and sets
  its own timers, so a property of the runtime's state that \<open>sendPkt\<close> and \<open>addTimer\<close> keep is
  kept by everything the node does. The locale \<open>runtime_keeper\<close> states this interface; the
  simulator and the emulator are instances.
\<close>

text \<open>The timers of node \<open>a\<close>, whose tasks have indices below \<open>k\<close>.\<close>

fun own_timer :: "int \<Rightarrow> nat \<Rightarrow> callback \<Rightarrow> bool" where
  "own_timer a k (CbPingTimedOut b) \<longleftrightarrow> b = a"
| "own_timer a k (CbRetransmissionTick b) \<longleftrightarrow> b = a"
| "own_timer a k (CbTaskTick b i) \<longleftrightarrow> b = a \<and> i < k"
| "own_timer a k _ \<longleftrightarrow> False"

lemma tm_addr_retransmit_each [simp]: "tm_addr (fst (retransmit_each rt now es m w)) = tm_addr m"
  by (induction es arbitrary: m w) (auto simp: split_beta)

locale runtime_keeper =
  fixes rt :: "'m runtime" and a :: int and k :: nat and keep :: "'m \<Rightarrow> bool"
  assumes send_keeps: "keep m \<Longrightarrow> keep (snd (rt_sendPkt rt a t bs m))"
    and timer_keeps: "keep m \<Longrightarrow> own_timer a k cb \<Longrightarrow> keep (rt_addTimer rt a d (Some cb) m)"
begin

definition keeps :: "'m io \<Rightarrow> 'm io \<Rightarrow> bool" where
  "keeps w w' \<longleftrightarrow> (keep (io_rt w) \<longrightarrow> keep (io_rt w'))"

lemma keeps_refl [simp]: "keeps w w"
  by (simp add: keeps_def)

lemma keeps_trans: "keeps w w1 \<Longrightarrow> keeps w1 w2 \<Longrightarrow> keeps w w2"
  by (simp add: keeps_def)

lemma keeps_out [simp]:
  "keeps w (cout s w') = keeps w w'" "keeps (cout s w) w' = keeps w w'"
  "keeps w (logError x s w') = keeps w w'" "keeps (logError x s w) w' = keeps w w'"
  "keeps w (logOutput x s w') = keeps w w'" "keeps (logOutput x s w) w' = keeps w w'"
  by (simp_all add: keeps_def)

lemma keeps_timer: "keeps w w' \<Longrightarrow> own_timer a k cb \<Longrightarrow> keeps w (addTimer_io rt a d (Some cb) w')"
  by (simp add: keeps_def addTimer_io_def timer_keeps)

lemma keeps_send_segment [simp]: "keeps w (snd (send_segment rt a sp dest dp ty win q d mark failed w))"
proof -
  have "keep m \<Longrightarrow> rt_sendPkt rt a t bs m = (r, m') \<Longrightarrow> keep m'" for m t bs r m'
    using send_keeps[of m t bs] by simp
  then show ?thesis
    by (auto simp: send_segment_def keeps_def split: sum.splits prod.splits)
qed

lemma keeps_sends [simp]:
  "keeps w (snd (sendSyn rt a s da dp w))" "keeps w (snd (sendFin rt a s da dp w))"
  "keeps w (snd (sendAck rt a sp da dp n adv win w))" "keeps w (snd (sendFinFromPorts rt a sp da dp w))"
  "keeps w (snd (sendData rt a s da dp q d re w))"
  by (simp_all add: sendSyn_def sendFin_def sendAck_def sendFinFromPorts_def sendData_def)

subsection \<open>The TCP manager\<close>

lemma keeps_maybeFin: "tm_addr m = a \<Longrightarrow> keeps w (snd (maybeSendFinOnDrain rt i m w))"
  by (auto simp: maybeSendFinOnDrain_def Let_def split_beta split: bool.split)

lemma keeps_close: "tm_addr m = a \<Longrightarrow> keeps w (snd (tm_close rt i m w))"
  by (simp add: tm_close_def Let_def keeps_maybeFin)

lemma keeps_connect: "tm_addr m = a \<Longrightarrow> keeps w (snd (snd (tm_connect rt i da dp m w)))"
  by (auto simp: tm_connect_def Let_def split_beta split: bool.split)

lemma keeps_write_loop: "keeps w (snd (snd (write_loop rt a buf pos len tot s w)))"
proof (induction "nat len" arbitrary: pos len tot s w rule: less_induct)
  case less
  let ?c = "min len (min (i32 (effectiveWindow s - i32 (sndNxt s - sndUna s))) TP_MAX_PAYLOAD_SIZE)"
  obtain ok w1 where sd: "sendData rt a s (remoteAddr s) (remotePort s) (sndNxt s)
      (take (nat ?c) (drop (nat pos) buf)) False w = (ok, w1)" by fastforce
  have k1: "keeps w w1"
    using keeps_sends(5)[of w s "remoteAddr s" "remotePort s" "sndNxt s" "take (nat ?c) (drop (nat pos) buf)" False] sd by simp
  show ?case
  proof (cases "0 < len \<and> 0 < ?c")
    case True
    then have "nat (len - ?c) < nat len" by simp
    from keeps_trans[OF k1 less[OF this]] k1 show ?thesis
      by (subst write_loop.simps) (simp add: Let_def sd split: bool.split del: min_less_iff_conj)
  next
    case False
    then have "len \<le> 0 \<or> ?c \<le> 0" by linarith
    then show ?thesis by (subst write_loop.simps) (auto simp: Let_def simp del: min_le_iff_disj)
  qed
qed

lemma keeps_write: "tm_addr m = a \<Longrightarrow> keeps w (snd (snd (tm_write rt i buf pos len m w)))"
  using keeps_write_loop[of w "the buf" pos len 0 "get_sock i m"]
  by (auto simp: tm_write_def sk_write_def Let_def split_beta split: option.split prod.split)

lemma keeps_receive:
  assumes "tm_addr m = a"
  shows "keeps w (snd (tm_receiveTransport rt src t m w))"
proof -
  have 1: "keeps w (snd (onSyn rt src t m w))" for w
    using assms by (auto simp: onSyn_def tm_socket_def upd_sock_def registerEstablished_def Let_def split: option.split)
  have 2: "keeps w (snd (onFin rt src t m w))" "keeps w (snd (onAck rt src t m w))" for w
    using assms keeps_maybeFin
    by (auto simp: onFin_def onAck_def onAck_established_def Let_def split_beta split: option.split)
  have "keeps w (snd (sendAck rt a sp da dp n adv win (cout s w)))" for w sp da dp n adv win s
    using keeps_sends(3)[of "cout s w" sp da dp n adv win] by (simp only: keeps_out)
  then have 3: "keeps w (snd (onData rt src t m w))" for w
    using assms by (auto simp: onData_def Let_def split_beta split: option.split)
  from 1[of "cout ''S'' w"] 2(1)[of "cout ''F'' w"] 2(2)[of w] 3[of w] show ?thesis
    by (simp add: tm_receiveTransport_def)
qed

lemma keeps_resend: "keeps w (snd (resend_all rt a s gs w))"
proof (induction gs arbitrary: w)
  case (Cons g gs)
  show ?case by (auto simp: Let_def split_beta intro: keeps_trans[OF keeps_sends(5) Cons])
qed simp

lemma keeps_retransmit_each: "tm_addr m = a \<Longrightarrow> keeps w (snd (retransmit_each rt now es m w))"
proof (induction es arbitrary: m w)
  case (Cons e es)
  obtain x i where e: "e = (x, i)" by fastforce
  obtain s w1 where r: "retransmit_socket rt a now (get_sock i m) w = (s, w1)" by fastforce
  have "keeps w w1" using r keeps_resend by (auto simp: retransmit_socket_def Let_def split_beta split: if_splits)
  with Cons show ?case by (auto simp: e r split_beta intro: keeps_trans)
qed simp

lemma keeps_tick: "tm_addr m = a \<Longrightarrow> keeps w (snd (retransmissionTick rt m w))"
  using keeps_timer[OF keeps_retransmit_each, of m "CbRetransmissionTick a"]
  by (simp add: retransmissionTick_def Let_def split_beta)

subsection \<open>The node\<close>

lemma keeps_sendPacket [simp]: "sn_addr n = a \<Longrightarrow> keeps w (sendPacket rt n dest p w)"
  using send_keeps[of "io_rt w" dest "packet_pack p"]
  by (auto simp: sendPacket_def keeps_def split: prod.split sum.split)

lemma keeps_onReceive:
  assumes "sn_addr n = a" "tm_addr (sn_tcp n) = a"
  shows "keeps w (snd (onReceive rt from msg n w))"
proof -
  have ping: "keeps w (receivePing rt n p w)" for p
    using keeps_sendPacket[OF assms(1), of "logOutput (sn_addr n) x w" for x]
    by (auto simp: receivePing_def Let_def split: sum.split)
  have tp: "keeps w (snd (sn_receiveTransport rt n p w))" for p
    using keeps_receive[OF assms(2)] by (auto simp: sn_receiveTransport_def split_beta split: option.split)
  show ?thesis using ping tp
    by (auto simp: onReceive_def receivePacket_def receivePingReply_def Let_def split: option.split)
qed

lemma keeps_log_lines [simp]:
  "keeps w (log_lines (logOutput x) ls w') = keeps w w'" "keeps w (log_lines (logError x) ls w') = keeps w w'"
  "keeps (log_lines (logOutput x) ls w) w' = keeps w w'"
  by (simp_all add: keeps_def)

lemma keeps_schedule: "keeps w w' \<Longrightarrow> idx < k \<Longrightarrow> keeps w (task_schedule rt a idx iv w')"
  by (simp add: task_schedule_def keeps_timer)

lemma keeps_client:
  assumes "tm_addr m = a"
  shows "keeps w (snd (snd (client_execute rt addr c m w)))"
proof -
  have snd': "keeps w (snd (snd (client_send rt addr c m w)))" for c w
    using keeps_write[OF assms, of w]
    by (auto simp: client_send_def Let_def split_beta)
  have start: "keeps w (snd (client_begin rt addr c w))"
    by (auto simp: client_begin_def Let_def)
  have "keeps w (snd (tm_close rt i m (log_lines (logOutput addr) ls w1)))" if "keeps w w1" for i ls w1
    using keeps_trans[OF that] keeps_close[OF assms, of "log_lines (logOutput addr) ls w1"] by simp
  then have con: "keeps w (snd (snd (client_connected rt addr c m w)))"
    using start keeps_trans[OF start snd'] by (simp add: client_connected_def Let_def split_beta)
  show ?thesis using con
    by (auto simp: client_execute_def client_closed_def Let_def split_beta)
qed

lemma keeps_server:
  "idx < k \<Longrightarrow> keeps w (snd (snd (server_execute rt a idx s m w)))"
  "fst (server_execute rt a idx s m w) = Inr (s', None) \<Longrightarrow> keeps w (snd (snd (server_execute rt a idx s m w)))"
  "isl (fst (server_execute rt a idx s m w)) \<Longrightarrow> keeps w (snd (snd (server_execute rt a idx s m w)))"
  by (auto simp: server_execute_def Let_def split: prod.split option.split sum.split intro!: keeps_schedule)

lemma keeps_worker: "keeps w (snd (snd (worker_execute rt addr x m w)))"
  by (auto simp: worker_execute_def Let_def split: prod.split)

lemma keeps_task_tick:
  assumes m: "tm_addr m = a" and r: "task_tick rt a idx ts m w = (r, m', w')" and idx: "idx < length ts" "length ts \<le> k"
    and fit: "\<And>ts'. r = Inr ts' \<Longrightarrow> length ts' \<le> k"
  shows "keeps w w'"
proof (cases "ts ! idx")
  case (Client c)
  then show ?thesis using r keeps_client[OF m, of w a c] idx
    by (auto simp: task_tick_def split: prod.splits sum.splits intro!: keeps_schedule)
next
  case (Worker x)
  then show ?thesis using r keeps_worker[of w a x m] idx
    by (auto simp: task_tick_def split: prod.splits sum.splits intro!: keeps_schedule)
next
  case (Server s)
  obtain q m1 w1 where e: "server_execute rt a (length ts) s m w = (q, m1, w1)" by (metis prod_cases3)
  consider (bad) x where "q = Inl x" | (none) s' where "q = Inr (s', None)" | (some) s' x where "q = Inr (s', Some x)"
    by (metis option.exhaust prod.collapse sumE)
  then show ?thesis
  proof cases
    case bad
    then show ?thesis using r e Server keeps_server(3)[of "length ts" s m w] by (simp add: task_tick_def)
  next
    case none
    then have "keeps w w1" using e keeps_server(2)[of "length ts" s m w] by simp
    then show ?thesis using r e Server none idx by (auto simp: task_tick_def intro!: keeps_schedule)
  next
    case some
    then have "r = Inr (ts[idx := Server s'] @ [Worker x])" using r e Server by (simp add: task_tick_def)
    then have "length ts < k" using fit by fastforce
    then have "keeps w w1" using e keeps_server(1)[of "length ts" w s m] by simp
    then show ?thesis using r e Server some idx by (auto simp: task_tick_def intro!: keeps_schedule)
  qed
qed

lemma keeps_open_client: "tm_addr m = a \<Longrightarrow> keeps w (snd (snd (snd (open_client rt port da dp m w))))"
  using keeps_connect[of "upd_sock i f m1" for i f m1]
  by (auto simp: open_client_def tm_socket_def tm_bind_def upd_sock_def Let_def split_beta intro!: keeps_connect)

lemma keeps_matchTransfer:
  assumes n: "sn_addr n = a" "tm_addr (sn_tcp n) = a" and r: "matchTransferCommand rt command n w = (b, n', w')"
    and fit: "length (sn_tasks n') \<le> k"
  shows "keeps w w'"
proof (cases "length (splitSpaceVec command) < 5 \<or> length (splitSpaceVec command) > 7 \<or>
    splitSpaceVec command ! 0 \<noteq> ''transfer'' \<or> isl (parse_transfer (splitSpaceVec command))")
  case True
  then show ?thesis using r by (auto simp: matchTransferCommand_def Let_def split: sum.splits if_splits)
next
  case False
  then obtain x where x: "parse_transfer (splitSpaceVec command) = Inr x" by (cases "parse_transfer (splitSpaceVec command)") auto
  obtain y i m w1 where o: "open_client rt (ta_localPort x) (ta_destAddr x) (ta_port x) (sn_tcp n) w = (y, i, m, w1)"
    by (metis prod_cases4)
  have k1: "keeps w w1" using keeps_open_client[OF n(2)] o by (metis snd_conv)
  show ?thesis
    using r fit False n(1) keeps_schedule[OF k1] k1 by (auto simp: matchTransfer_open_client[OF x o] split: sum.splits)
qed

lemma keeps_matchServer:
  assumes n: "sn_addr n = a" and r: "matchServerCommand rt command n w = (b, n', w')"
    and fit: "length (sn_tasks n') \<le> k"
  shows "keeps w w'"
proof -
  have "Suc (length (sn_tasks n)) \<le> k \<Longrightarrow> keeps w (task_schedule rt (sn_addr n) (length (sn_tasks n)) iv w)" for iv
    using keeps_schedule[of w w] n by simp
  then show ?thesis
    using r fit by (auto simp: matchServerCommand_def Let_def split: sum.splits if_splits prod.splits)
qed

lemma keeps_matchPing:
  assumes n: "sn_addr n = a" and r: "matchPingCommand rt command n w = (b, n', w')"
  shows "keeps w w'"
  using r n by (auto simp: matchPingCommand_def Let_def split: sum.splits if_splits)

end

text \<open>The commands add tasks and leave the address alone.\<close>

lemma match_grows:
  "matchTransferCommand rt command n w = (b, n', w') \<Longrightarrow> sn_addr n' = sn_addr n \<and> length (sn_tasks n) \<le> length (sn_tasks n')"
  "matchServerCommand rt command n w = (b, n', w') \<Longrightarrow> sn_addr n' = sn_addr n \<and> length (sn_tasks n) \<le> length (sn_tasks n')"
  "matchPingCommand rt command n w = (b, n', w') \<Longrightarrow> sn_addr n' = sn_addr n \<and> length (sn_tasks n) \<le> length (sn_tasks n')"
  by (auto simp: matchTransferCommand_def matchServerCommand_def matchPingCommand_def Let_def
      split: if_splits sum.splits prod.splits)

lemma task_tick_grows: "task_tick rt addr idx ts m w = (Inr ts', m', w') \<Longrightarrow> length ts \<le> length ts'"
  by (auto simp: task_tick_def split: task.splits prod.splits sum.splits option.splits)

lemma node_ops_grow:
  "sn_addr (fst (onCommand rt command n w)) = sn_addr n"
  "length (sn_tasks n) \<le> length (sn_tasks (fst (onCommand rt command n w)))"
  "sn_callback rt cb n w = (r, n', w') \<Longrightarrow> sn_addr n' = sn_addr n \<and> length (sn_tasks n) \<le> length (sn_tasks n')"
  "sn_addr (fst (onReceive rt from msg n w)) = sn_addr n"
  "sn_tasks (fst (onReceive rt from msg n w)) = sn_tasks n"
proof -
  obtain b1 n1 w1 where 1: "matchTransferCommand rt command n w = (b1, n1, w1)" by (metis prod_cases3)
  obtain b2 n2 w2 where 2: "matchServerCommand rt command n1 w1 = (b2, n2, w2)" by (metis prod_cases3)
  obtain b3 n3 w3 where 3: "matchPingCommand rt command n2 w2 = (b3, n3, w3)" by (metis prod_cases3)
  show "sn_addr (fst (onCommand rt command n w)) = sn_addr n"
    "length (sn_tasks n) \<le> length (sn_tasks (fst (onCommand rt command n w)))"
    using match_grows(1)[OF 1] match_grows(2)[OF 2] match_grows(3)[OF 3]
    by (auto simp: onCommand_def 1 2 3 split: bool.split)
  show "sn_callback rt cb n w = (r, n', w') \<Longrightarrow> sn_addr n' = sn_addr n \<and> length (sn_tasks n) \<le> length (sn_tasks n')"
    using task_tick_grows by (auto simp: sn_callback_def pingTimedOut_def Let_def split: callback.splits prod.splits sum.splits)
  show "sn_addr (fst (onReceive rt from msg n w)) = sn_addr n" "sn_tasks (fst (onReceive rt from msg n w)) = sn_tasks n"
    by (auto simp: onReceive_def receivePacket_def receivePingReply_def sn_receiveTransport_def Let_def
        split: option.split prod.split)
qed

context runtime_keeper
begin

lemma keeps_onCommand:
  assumes n: "node_wf n" "sn_addr n = a" and fit: "length (sn_tasks (fst (onCommand rt command n w))) \<le> k"
  shows "keeps w (snd (onCommand rt command n w))"
proof -
  obtain b1 n1 w1 where 1: "matchTransferCommand rt command n w = (b1, n1, w1)" by (metis prod_cases3)
  obtain b2 n2 w2 where 2: "matchServerCommand rt command n1 w1 = (b2, n2, w2)" by (metis prod_cases3)
  obtain b3 n3 w3 where 3: "matchPingCommand rt command n2 w2 = (b3, n3, w3)" by (metis prod_cases3)
  note g1 = match_grows(1)[OF 1] and g2 = match_grows(2)[OF 2] and g3 = match_grows(3)[OF 3]
  have tcp: "tm_addr (sn_tcp n) = a" using n by (simp add: node_wf_def)
  have f1: "length (sn_tasks n1) \<le> k" and f2: "\<not> b1 \<Longrightarrow> length (sn_tasks n2) \<le> k"
    using fit g1 g2 g3 by (auto simp: onCommand_def 1 2 3 split: bool.splits)
  have "keeps w w1" using keeps_matchTransfer[OF n(2) tcp 1 f1] .
  moreover have "keeps w1 w2" if "\<not> b1" using keeps_matchServer[OF _ 2 f2[OF that]] g1 n(2) by simp
  moreover have "keeps w2 w3" using keeps_matchPing[OF _ 3] g1 g2 n(2) by simp
  ultimately show ?thesis by (auto simp: onCommand_def 1 2 3 keeps_def split: bool.split)
qed

lemma keeps_expire: "keeps w (snd (expire_pings addr now rs w))"
  by (induction addr now rs w rule: expire_pings.induct) (auto split: prod.split)

lemma keeps_callback:
  assumes n: "node_wf n" "sn_addr n = a" and cb: "callback_ok n cb" "length (sn_tasks n) \<le> k"
    and r: "sn_callback rt cb n w = (r, n', w')" and fit: "length (sn_tasks n') \<le> k"
  shows "keeps w w'"
proof -
  have tcp: "tm_addr (sn_tcp n) = a" using n by (simp add: node_wf_def)
  show ?thesis
  proof (cases cb)
    case (CbPingTimedOut b)
    then show ?thesis using r n(2) keeps_timer[OF keeps_expire, of "CbPingTimedOut a"]
      by (auto simp: sn_callback_def pingTimedOut_def Let_def split: prod.splits) (metis snd_conv)
  next
    case (CbRetransmissionTick b)
    then show ?thesis using r keeps_tick[OF tcp, of w] by (auto simp: sn_callback_def split: prod.splits)
  next
    case (CbTaskTick b idx)
    obtain q m1 w1 where t: "task_tick rt a idx (sn_tasks n) (sn_tcp n) w = (q, m1, w1)" by (metis prod_cases3)
    have "keeps w w1"
      using cb r fit n(2) CbTaskTick t by (intro keeps_task_tick[OF tcp t]) (auto simp: sn_callback_def)
    then show ?thesis using r n(2) CbTaskTick t by (auto simp: sn_callback_def split: sum.splits)
  qed (use r in \<open>auto simp: sn_callback_def\<close>)
qed

lemma keeps_start: "sn_addr n = a \<Longrightarrow> tm_addr (sn_tcp n) = a \<Longrightarrow> keeps w (sn_start rt n w)"
  by (simp add: sn_start_def tm_start_def keeps_timer)

end

end
