(* ===== verification/Progress.thy ===== *)
theory Progress
  imports Node_Effects
begin

text \<open>
  That data does get through: the complement of the theories \<open>Delivery\<close> and \<open>Acknowledgement\<close>, which
  say what arrives if anything does. A sender and a receiver are followed move by move through
  write, loss, retransmission, arrival, acknowledgement and read.
\<close>

section \<open>The two ends\<close>

definition sender_of :: "int \<Rightarrow> int \<Rightarrow> int \<Rightarrow> int \<Rightarrow> tcp_socket \<Rightarrow> tcp_manager" where
  "sender_of a pa b pb s =
     \<lparr>tm_addr = a, allSockets = [s], listenersByPort = [], synPendingByKey = [], establishedByKey = [(mk_key b pb pa, 0)]\<rparr>"

definition receiver_of :: "int \<Rightarrow> int \<Rightarrow> int \<Rightarrow> int \<Rightarrow> tcp_socket \<Rightarrow> tcp_socket \<Rightarrow> tcp_manager" where
  "receiver_of a pa b pb l s =
     \<lparr>tm_addr = b, allSockets = [l, s], listenersByPort = [(pb, 0)], synPendingByKey = [], establishedByKey = [(mk_key a pa pb, 1)]\<rparr>"

text \<open>A sending socket with \<open>n\<close> bytes acknowledged, after at most \<open>M\<close> acknowledgements; either
  nothing is outstanding, or one segment that must be sent again by the time \<open>dl\<close>.\<close>

definition snd_ok :: "int \<Rightarrow> int \<Rightarrow> int \<Rightarrow> int \<Rightarrow> int \<Rightarrow> tcp_socket \<Rightarrow> bool" where
  "snd_ok pa b pb n M s \<longleftrightarrow> sock_wf s \<and> sk_state s = ESTABLISHED \<and> localPort s = pa \<and> remoteAddr s = b \<and> remotePort s = pb \<and>
     sndUna s = 1 + n \<and> cwnd s \<le> (M + 1) * TP_MAX_PAYLOAD_SIZE \<and> TP_MAX_PAYLOAD_SIZE \<le> rwnd s"

definition waiting :: "int \<Rightarrow> byte list \<Rightarrow> int \<Rightarrow> tcp_socket \<Rightarrow> bool" where
  "waiting n d dl s \<longleftrightarrow> (\<exists>g. outstanding s = [g] \<and> seqStart g = 1 + n \<and> seg_data g = d \<and> seg_len g = int (length d)) \<and>
     sndNxt s = 1 + n + int (length d) \<and> 0 < nextRtoDeadlineMs s \<and> nextRtoDeadlineMs s \<le> dl"

text \<open>A receiving socket with \<open>n\<close> bytes handed over and \<open>d\<close> in its buffer.\<close>

definition rcv_ok :: "int \<Rightarrow> int \<Rightarrow> int \<Rightarrow> int \<Rightarrow> byte list \<Rightarrow> tcp_socket \<Rightarrow> bool" where
  "rcv_ok a pa pb n d s \<longleftrightarrow> sk_state s = ESTABLISHED \<and> localPort s = pb \<and> remoteAddr s = a \<and> remotePort s = pa \<and>
     rcvNxt s = 1 + n + int (length d) \<and> recvBuf s = d \<and> recvBufUsed s = int (length d) \<and> \<not> peerFinReceived s"

definition data_seg :: "int \<Rightarrow> int \<Rightarrow> int \<Rightarrow> byte list \<Rightarrow> transport" where
  "data_seg pa pb n d = \<lparr>tp_srcPort = pa, tp_destPort = pb, tp_type = DATA, tp_window = 0, tp_seqNum = 1 + n, tp_payload = d\<rparr>"

definition ack_of :: "int \<Rightarrow> int \<Rightarrow> int \<Rightarrow> byte list \<Rightarrow> transport" where
  "ack_of pa pb n d = \<lparr>tp_srcPort = pb, tp_destPort = pa, tp_type = ACK, tp_window = RECV_BUF_CAP - int (length d),
     tp_seqNum = 1 + n + int (length d), tp_payload = []\<rparr>"

definition clock_ok :: "int \<Rightarrow> wire io \<Rightarrow> bool" where
  "clock_ok K w \<longleftrightarrow> 0 \<le> wr_clock (io_rt w) \<and> wr_clock (io_rt w) \<le> K * RTO_MAX_MS"

text \<open>The size of a chunk, and where all numbers of the run stay small.\<close>

definition chunk_ok :: "int \<Rightarrow> byte list \<Rightarrow> bool" where
  "chunk_ok n d \<longleftrightarrow> d \<noteq> [] \<and> int (length d) \<le> TP_MAX_PAYLOAD_SIZE \<and> 0 \<le> n \<and> n + int (length d) < 2 ^ 29"

lemma wire_clock: "wr_clock (io_rt (snd (send_segment wire_rt addr sp dest dp ty win q d mark failed w))) = wr_clock (io_rt w)"
  by (auto simp: send_segment_def wire_rt_def split: sum.split prod.split)

lemma rt_now_wire [simp]: "rt_now wire_rt m = wr_clock m" "addTimer_io wire_rt addr dt cb w = w"
  by (simp_all add: wire_rt_def addTimer_io_def)

lemma sendData_wire:
  assumes "validAddress a" "validAddress (remoteAddr s)" "valid_port (localPort s)" "valid_port (remotePort s)"
    "int (length d) \<le> TP_MAX_PAYLOAD_SIZE" "in_i32 q"
  obtains w' where "sendData wire_rt a s (remoteAddr s) (remotePort s) q d re w = (True, w')"
    "decode_pkt (last_pkt w') = Some (a, data_seg (localPort s) (remotePort s) (q - 1) d)" "wr_clock (io_rt w') = wr_clock (io_rt w)"
proof -
  let ?mark = "if re then ''!'' else ''.''" and ?f = "''Failed to send DATA: ''"
  obtain w' bs where w': "send_segment wire_rt a (localPort s) (remoteAddr s) (remotePort s) DATA 0 q d ?mark ?f w = (True, w')"
    "last_pkt w' = bs" "decode_pkt bs = Some (a, \<lparr>tp_srcPort = localPort s, tp_destPort = remotePort s, tp_type = DATA, tp_window = i32 0,
       tp_seqNum = i32 q, tp_payload = d\<rparr>)"
    by (rule wire_send[OF assms(1-4) _ _ assms(5), of DATA 0 q ?mark ?f w]) (simp_all add: cxx_const)
  show thesis
    by (rule that[of w']) (use w' assms(6) wire_clock[of a "localPort s" "remoteAddr s" "remotePort s" DATA 0 q d ?mark ?f w]
        in \<open>simp_all add: sendData_def data_seg_def i32_def[of 0]\<close>)
qed

section \<open>The moves\<close>

lemma write_moves:
  assumes v: "validAddress a" "validAddress b" "valid_port pa" "valid_port pb"
    and s: "snd_ok pa b pb n M s" "outstanding s = []" and d: "chunk_ok n d" and M: "0 \<le> M" "M < 2 ^ 20"
    and K: "clock_ok K w" "0 \<le> K" "K < 2 ^ 30"
  obtains s' w' where "tcp_do wire_rt (CallWrite 0 d 0 (int (length d))) (sender_of a pa b pb s) w = (sender_of a pa b pb s', w')"
    "snd_ok pa b pb n M s'" "waiting n d ((K + 1) * RTO_MAX_MS) s'"
    "decode_pkt (last_pkt w') = Some (a, data_seg pa pb n d)" "clock_ok K w'" "sndNxt s = 1 + n"
proof -
  let ?L = "int (length d)"
  have L: "0 < ?L" "?L \<le> TP_MAX_PAYLOAD_SIZE" using d by (auto simp: chunk_ok_def)
  have wf: "sock_wf s" and st: "sk_state s = ESTABLISHED" "localPort s = pa" "remoteAddr s = b" "remotePort s = pb" "sndUna s = 1 + n"
    and cw: "cwnd s < 2 ^ 30" "TP_MAX_PAYLOAD_SIZE \<le> cwnd s" "TP_MAX_PAYLOAD_SIZE \<le> rwnd s" "sndNxt s = 1 + n"
    using s M by (auto simp: snd_ok_def sock_wf_defs cxx_const)
  have win: "?L \<le> effectiveWindow s" "effectiveWindow s < 2 ^ 30" using cw L by (auto simp: effectiveWindow_def)
  have n: "0 \<le> n" "n + ?L < 2 ^ 29" "in_i32 (1 + n)" using d by (auto simp: chunk_ok_def in_i32_def)
  obtain w1 where w1: "sendData wire_rt a s (remoteAddr s) (remotePort s) (1 + n) d False w = (True, w1)"
    "decode_pkt (last_pkt w1) = Some (a, data_seg pa pb n d)" "wr_clock (io_rt w1) = wr_clock (io_rt w)"
    using sendData_wire[of a s d "1 + n" False w] v st L(2) n(3) by auto
  let ?g = "\<lparr>seqStart = 1 + n, seg_len = ?L, seg_data = d, firstSentAtMs = wr_clock (io_rt w), retransmitted = False\<rparr>"
  let ?s1 = "s\<lparr>outstanding := [?g], sndNxt := 1 + n + ?L\<rparr>"
  have nx: "i32 (1 + n + ?L) = 1 + n + ?L" using n by (intro i32_id) (auto simp: in_i32_def)
  have sp: "i32 (effectiveWindow s) = effectiveWindow s" using win L by (intro i32_id) (auto simp: in_i32_def)
  have open': "\<not> effectiveWindow s \<le> 0" using win(1) L(1) by linarith
  have mn: "min ?L (min (effectiveWindow s) TP_MAX_PAYLOAD_SIZE) = ?L" using win L by simp
  have stop: "write_loop wire_rt a d ?L 0 ?L ?s1 w1 = (Some ?L, ?s1, w1)" by (subst write_loop.simps) simp
  have "write_loop wire_rt a d 0 ?L 0 s w = write_loop wire_rt a d ?L 0 ?L ?s1 w1"
    using L win w1(1,3) st cw(4) s(2) nx sp mn open'
    by (subst write_loop.simps) (simp add: Let_def i32_def[of 0])
  then have lp: "write_loop wire_rt a d 0 ?L 0 s w = (Some ?L, ?s1, w1)" using stop by simp
  let ?dl = "wr_clock (io_rt w) + rtoMs s"
  have rto: "RTO_INITIAL_MS \<le> rtoMs s" "rtoMs s \<le> RTO_MAX_MS" using wf by (auto simp: sock_wf_defs)
  have dl: "i64 ?dl = ?dl" "0 < ?dl" "?dl \<le> (K + 1) * RTO_MAX_MS"
    using rto K by (auto simp: clock_ok_def cxx_const in_i64_def intro!: i64_id)
  let ?s2 = "?s1\<lparr>nextRtoDeadlineMs := ?dl\<rparr>"
  have sw: "sk_write wire_rt a (Some d) 0 ?L s w = (?L, ?s2, w1)"
    using lp st L s(2) w1(3) dl(1) by (simp add: sk_write_def hasOutstanding_def)
  have "sock_wf ?s2"
    using sk_write_spec[OF sw wf] cw(1) n by (auto simp: room_def cw(4))
  then have ok: "snd_ok pa b pb n M ?s2" "waiting n d ((K + 1) * RTO_MAX_MS) ?s2"
    using s dl by (auto simp: snd_ok_def waiting_def)
  show thesis
    by (rule that[of ?s2 w1]) (use sw ok w1 K(1) cw(4) in \<open>simp_all add: sender_of_def tm_write_def upd_sock_def get_sock_def clock_ok_def\<close>)
qed


lemma retry_moves:
  assumes v: "validAddress a" "validAddress b" "valid_port pa" "valid_port pb"
    and s: "snd_ok pa b pb n M s" "waiting n d (wr_clock (io_rt w)) s" and d: "chunk_ok n d"
    and K: "clock_ok K w" "0 \<le> K" "K < 2 ^ 30"
  obtains s' w' where "tcp_do wire_rt CallTick (sender_of a pa b pb s) w = (sender_of a pa b pb s', w')"
    "snd_ok pa b pb n M s'" "waiting n d ((K + 1) * RTO_MAX_MS) s'"
    "decode_pkt (last_pkt w') = Some (a, data_seg pa pb n d)" "clock_ok K w'"
proof -
  let ?now = "wr_clock (io_rt w)"
  obtain g where g: "outstanding s = [g]" "seqStart g = 1 + n" "seg_data g = d" "seg_len g = int (length d)"
    and dl: "0 < nextRtoDeadlineMs s" "nextRtoDeadlineMs s \<le> ?now" using s(2) by (auto simp: waiting_def)
  have wf: "sock_wf s" and st: "localPort s = pa" "remoteAddr s = b" "remotePort s = pb" using s(1) by (auto simp: snd_ok_def)
  have L: "int (length d) \<le> TP_MAX_PAYLOAD_SIZE" "in_i32 (1 + n)" using d by (auto simp: chunk_ok_def in_i32_def)
  let ?s1 = "multiplicativeDecreaseCwnd (doubleRto (s\<lparr>timeoutCount := i32 (timeoutCount s + 1)\<rparr>))"
  have s1: "sock_wf ?s1" using wf by (auto intro!: wf_intro)
  have f: "localPort ?s1 = pa" "remoteAddr ?s1 = b" "remotePort ?s1 = pb" "outstanding ?s1 = [g]"
    using st g by (simp_all add: multiplicativeDecreaseCwnd_def doubleRto_def)
  obtain w1 where w1: "sendData wire_rt a ?s1 b pb (1 + n) d True w = (True, w1)"
    "decode_pkt (last_pkt w1) = Some (a, data_seg pa pb n d)" "wr_clock (io_rt w1) = ?now"
    using sendData_wire[of a ?s1 d "1 + n" True w] v f L by auto
  let ?dl = "?now + rtoMs ?s1"
  have rto: "RTO_INITIAL_MS \<le> rtoMs ?s1" "rtoMs ?s1 \<le> RTO_MAX_MS" using s1 by (auto simp: sock_wf_defs)
  have dl': "i64 ?dl = ?dl" "0 < ?dl" "?dl \<le> (K + 1) * RTO_MAX_MS"
    using rto K by (auto simp: clock_ok_def cxx_const in_i64_def intro!: i64_id)
  let ?s2 = "?s1\<lparr>outstanding := [g\<lparr>retransmitted := True\<rparr>], nextRtoDeadlineMs := ?dl\<rparr>"
  have r: "retransmit_socket wire_rt a ?now s w = (?s2, w1)"
    using dl g f w1(1) dl'(1) by (simp add: retransmit_socket_def hasOutstanding_def Let_def)
  have "\<lfloor>rat_of_int (cwnd s) / 2\<rfloor> \<le> cwnd s" using wf by (simp add: floor_le_iff sock_wf_defs cxx_const)
  then have cw: "cwnd ?s1 \<le> cwnd s"
    using wf by (auto simp: multiplicativeDecreaseCwnd_def doubleRto_def sock_wf_defs cxx_const)
  have "snd_ok pa b pb n M ?s2"
    using s(1) sock_wf_retransmit_socket[OF wf r] f cw
    by (auto simp: snd_ok_def multiplicativeDecreaseCwnd_def doubleRto_def)
  moreover have "waiting n d ((K + 1) * RTO_MAX_MS) ?s2"
    using s(2) g dl' by (auto simp: waiting_def multiplicativeDecreaseCwnd_def doubleRto_def)
  ultimately show thesis
    by (intro that[of ?s2 w1])
       (use r w1 K(1) in \<open>simp_all add: sender_of_def retransmissionTick_def upd_sock_def get_sock_def clock_ok_def\<close>)
qed

lemma deliver_eq: "decode_pkt bs = Some (src, t) \<Longrightarrow> deliver rt bs m w = tm_receiveTransport rt src t m w"
  by (simp add: deliver_def)

text \<open>The segment arrives, for the first time or again: it is answered by the same
  acknowledgement.\<close>

lemma arrive_moves:
  assumes v: "validAddress a" "validAddress b" "valid_port pa" "valid_port pb"
    and s: "rcv_ok a pa pb n e s" "e = [] \<or> e = d" and d: "chunk_ok n d"
    and p: "decode_pkt bs = Some (a, data_seg pa pb n d)"
  obtains s' w' where "deliver wire_rt bs (receiver_of a pa b pb l s) w = (receiver_of a pa b pb l s', w')"
    "rcv_ok a pa pb n d s'" "decode_pkt (last_pkt w') = Some (b, ack_of pa pb n d)" "wr_clock (io_rt w') = wr_clock (io_rt w)"
proof -
  let ?L = "int (length d)"
  have L: "0 < ?L" "?L \<le> TP_MAX_PAYLOAD_SIZE" and q: "i32 (1 + n + ?L) = 1 + n + ?L" "i32 (RECV_BUF_CAP - ?L) = RECV_BUF_CAP - ?L"
    using d by (auto simp: chunk_ok_def in_i32_def cxx_const intro!: i32_id)
  let ?s' = "s\<lparr>recvBuf := d, recvBufUsed := ?L, rcvNxt := 1 + n + ?L\<rparr>"
  have ok: "rcv_ok a pa pb n d ?s'" using s(1) by (simp add: rcv_ok_def)
  have ack: "\<exists>w'. sendAck wire_rt b pb a pa (1 + n + ?L) adv (RECV_BUF_CAP - ?L) w1 = (True, w') \<and>
      decode_pkt (last_pkt w') = Some (b, ack_of pa pb n d) \<and> wr_clock (io_rt w') = wr_clock (io_rt w1)" for adv w1
  proof -
    let ?mark = "if adv then '':'' else ''?''" and ?f = "''Failed to send ACK: ''"
    obtain w' where w': "send_segment wire_rt b pb a pa ACK (RECV_BUF_CAP - ?L) (1 + n + ?L) [] ?mark ?f w1 = (True, w')"
      "decode_pkt (last_pkt w') = Some (b, ack_of pa pb n d)"
      by (rule wire_send[OF v(2,1,4,3), of ACK "[]" "RECV_BUF_CAP - ?L" "1 + n + ?L" ?mark ?f w1])
         (use q in \<open>simp_all add: cxx_const ack_of_def\<close>)
    with wire_clock[of b pb a pa ACK "RECV_BUF_CAP - ?L" "1 + n + ?L" "[]" ?mark ?f w1] show ?thesis by (auto simp: sendAck_def)
  qed
  note defs = deliver_eq[OF p] tm_receiveTransport_def data_seg_def receiver_of_def onData_def Let_def get_sock_def upd_sock_def
    isConnected_def getRecvBufAvailable_def
  show thesis
  proof (cases "e = []")
    case True
    obtain w' where w': "sendAck wire_rt b pb a pa (1 + n + ?L) True (RECV_BUF_CAP - ?L) (cout ''.'' w) = (True, w')"
      "decode_pkt (last_pkt w') = Some (b, ack_of pa pb n d)" "wr_clock (io_rt w') = wr_clock (io_rt w)" using ack[of True "cout ''.'' w"] by auto
    have "deliver wire_rt bs (receiver_of a pa b pb l s) w = (receiver_of a pa b pb l ?s', w')"
      using s(1) True L q(1) w'(1)
      by (simp add: defs rcv_ok_def appendToRecvBuf_def cxx_const)
    then show thesis using that ok w' by blast
  next
    case False
    then have e: "e = d" using s(2) by simp
    obtain w' where w': "sendAck wire_rt b pb a pa (1 + n + ?L) False (RECV_BUF_CAP - ?L) (cout ''!'' w) = (True, w')"
      "decode_pkt (last_pkt w') = Some (b, ack_of pa pb n d)" "wr_clock (io_rt w') = wr_clock (io_rt w)" using ack[of False "cout ''!'' w"] by auto
    have "deliver wire_rt bs (receiver_of a pa b pb l s) w = (receiver_of a pa b pb l s, w')"
      using s(1) e L w'(1) by (simp add: defs rcv_ok_def cxx_const)
    then show thesis using that s(1) e w' by blast
  qed
qed


lemma acked_socket_windows:
  assumes "CWND_MIN_BYTES \<le> cwnd s" "cwnd s < 2 ^ 30"
  shows "cwnd (acked_socket now t s) \<le> cwnd s + TP_MAX_PAYLOAD_SIZE" "rwnd (acked_socket now t s) = max 0 (tp_window t)"
proof -
  obtain p s2 where p: "popAckedThrough now (tp_seqNum t) (setRwnd (tp_window t) s) = (p, s2)" by fastforce
  then have s2: "cwnd s2 = cwnd s" "rwnd s2 = max 0 (tp_window t)"
    by (auto simp: popAckedThrough_def setRwnd_def Let_def split: prod.splits if_splits)
  have "cwnd (additiveIncreaseCwnd s2) \<le> cwnd s + TP_MAX_PAYLOAD_SIZE"
    using additiveIncrease_bounds[of s2] assms s2(1) by simp
  moreover have "cwnd (acked_socket now t s) = cwnd (additiveIncreaseCwnd s2)" "rwnd (acked_socket now t s) = rwnd s2"
    using p by (auto simp: acked_socket_def onSampleRTT_def additiveIncreaseCwnd_def Let_def split: option.split)
  ultimately show "cwnd (acked_socket now t s) \<le> cwnd s + TP_MAX_PAYLOAD_SIZE" "rwnd (acked_socket now t s) = max 0 (tp_window t)"
    using s2 by auto
qed

lemma ack_moves:
  assumes s: "snd_ok pa b pb n M s" "waiting n d dl s" and d: "chunk_ok n d" and M: "0 \<le> M" "M < 2 ^ 20"
    and p: "decode_pkt bs = Some (b, ack_of pa pb n d)"
  obtains s' w' where "deliver wire_rt bs (sender_of a pa b pb s) w = (sender_of a pa b pb s', w')"
    "snd_ok pa b pb (n + int (length d)) (M + 1) s'" "outstanding s' = []" "wr_clock (io_rt w') = wr_clock (io_rt w)"
proof -
  let ?L = "int (length d)" and ?t = "ack_of pa pb n d"
  have L: "0 < ?L" "?L \<le> TP_MAX_PAYLOAD_SIZE" and n: "0 \<le> n" "n + ?L < 2 ^ 29" using d by (auto simp: chunk_ok_def)
  obtain g where g: "outstanding s = [g]" "seqStart g = 1 + n" "seg_len g = ?L" and nx: "sndNxt s = 1 + n + ?L"
    using s(2) by (auto simp: waiting_def)
  have st: "sock_wf s" "sk_state s = ESTABLISHED" "localPort s = pa" "remoteAddr s = b" "remotePort s = pb" "sndUna s = 1 + n"
    "cwnd s \<le> (M + 1) * TP_MAX_PAYLOAD_SIZE" using s(1) by (auto simp: snd_ok_def)
  have cw: "CWND_MIN_BYTES \<le> cwnd s" "cwnd s < 2 ^ 30" using st(1,7) M by (auto simp: sock_wf_defs cxx_const)
  let ?s' = "acked_socket (wr_clock (io_rt w)) ?t s"
  have q: "tp_seqNum ?t = 1 + n + ?L" "tp_window ?t = RECV_BUF_CAP - ?L" by (simp_all add: ack_of_def)
  have out: "outstanding ?s' = []"
    using g n by (simp add: acked_socket_frame q i32_id in_i32_def)
  have wf: "sock_wf ?s'"
    using st cw nx n L by (intro sock_wf_acked_socket) (auto simp: q room_def in_i32_def cxx_const)
  have "cwnd ?s' \<le> (M + 1 + 1) * TP_MAX_PAYLOAD_SIZE"
    using acked_socket_windows(1)[OF cw, of "wr_clock (io_rt w)" ?t] st(7) by (simp add: distrib_right)
  then have ok: "snd_ok pa b pb (n + ?L) (M + 1) ?s'"
    using wf st L acked_socket_windows(2)[OF cw, of "wr_clock (io_rt w)" ?t]
    by (simp add: snd_ok_def acked_socket_frame q cxx_const)
  let ?m = "sender_of a pa b pb s"
  have m: "get_sock 0 (sender_of a pa b pb x) = x" "0 < length (allSockets ?m)" "upd_sock 0 f ?m = sender_of a pa b pb (f s)" for f x
    by (simp_all add: sender_of_def get_sock_def upd_sock_def)
  have "onAck_established wire_rt 0 ?t ?m w = (sender_of a pa b pb ?s', cout '':'' w)"
    using m(2)
  proof (cases rule: onAck_established_cases[of 0 ?m ?t wire_rt w])
    case (new m2 w2)
    then have "(m2, w2) = (sender_of a pa b pb ?s', w)"
      using st(2) by (auto simp: m maybeSendFinOnDrain_def Let_def acked_socket_frame)
    with new show ?thesis by simp
  qed (use nx st L in \<open>auto simp: m q\<close>)
  then have "deliver wire_rt bs ?m w = (sender_of a pa b pb ?s', cout '':'' w)"
    using st(2) m(1) by (simp add: deliver_eq[OF p] tm_receiveTransport_def onAck_def Let_def ack_of_def cxx_const isConnected_def
        isClosurePending_def sender_of_def)
  then show thesis using that ok out by simp
qed

lemma read_moves:
  assumes s: "rcv_ok a pa pb n d s" and d: "chunk_ok n d"
  obtains s' where "tm_read 1 True 0 (int (length d)) (receiver_of a pa b pb l s) = ((int (length d), d), receiver_of a pa b pb l s')"
    "rcv_ok a pa pb (n + int (length d)) [] s'"
proof -
  let ?s = "s\<lparr>recvBuf := [], recvBufUsed := 0\<rparr>"
  have "sk_read True 0 (int (length d)) s = ((int (length d), d), ?s)"
    using s d by (simp add: sk_read_def rcv_ok_def chunk_ok_def)
  then have "tm_read 1 True 0 (int (length d)) (receiver_of a pa b pb l s) = ((int (length d), d), receiver_of a pa b pb l ?s)"
    by (simp add: tm_read_def receiver_of_def get_sock_def upd_sock_def)
  moreover have "rcv_ok a pa pb (n + int (length d)) [] ?s" using s by (simp add: rcv_ok_def)
  ultimately show thesis using that by blast
qed

section \<open>A chunk and its losses\<close>

text \<open>The retransmission timer runs out and the segment is sent again.\<close>

definition retry :: "wire conn_sys \<Rightarrow> wire conn_sys" where
  "retry g =
     (let w = sys_io g; t = max (wr_clock (io_rt w)) (nextRtoDeadlineMs (get_sock 0 (sys_A g)))
      in sender_do wire_rt 0 CallTick (g\<lparr>sys_io := w\<lparr>io_rt := (io_rt w)\<lparr>wr_clock := t\<rparr>\<rparr>\<rparr>))"

text \<open>The packet sent last arrives.\<close>

definition arrive :: "wire conn_sys \<Rightarrow> wire conn_sys" where
  "arrive g = (let (m, w) = deliver wire_rt (last_pkt (sys_io g)) (sys_B g) (sys_io g) in g\<lparr>sys_B := m, sys_io := w\<rparr>)"

definition duplicate :: "wire conn_sys \<Rightarrow> wire conn_sys" where
  "duplicate g = arrive (retry g)"

definition ack_arrives :: "wire conn_sys \<Rightarrow> wire conn_sys" where
  "ack_arrives g = (let (m, w) = deliver wire_rt (last_pkt (sys_io g)) (sys_A g) (sys_io g) in g\<lparr>sys_A := m, sys_io := w\<rparr>)"

text \<open>A chunk whose segment is lost \<open>i\<close> times and whose acknowledgement is lost \<open>j\<close> times.\<close>

definition exchange :: "byte list \<times> nat \<times> nat \<Rightarrow> wire conn_sys \<Rightarrow> wire conn_sys" where
  "exchange x g =
     (case x of (d, i, j) \<Rightarrow>
        receiver_do wire_rt (CallRead 1 0 (int (length d)))
          (ack_arrives ((duplicate ^^ j) (arrive ((retry ^^ i)
            (sender_do wire_rt 0 (CallWrite 0 d 0 (int (length d))) g))))))"

definition pending :: "int \<Rightarrow> int \<Rightarrow> int \<Rightarrow> int \<Rightarrow> int \<Rightarrow> int \<Rightarrow> int \<Rightarrow> byte list \<Rightarrow> byte list \<Rightarrow> int \<times> transport \<Rightarrow> wire conn_sys \<Rightarrow> bool" where
  "pending a pa b pb n M K d e p g \<longleftrightarrow> (\<exists>s l r. sys_A g = sender_of a pa b pb s \<and> sys_B g = receiver_of a pa b pb l r \<and>
     snd_ok pa b pb n M s \<and> waiting n d ((K + 1) * RTO_MAX_MS) s \<and> rcv_ok a pa pb n e r \<and> clock_ok K (sys_io g) \<and>
     decode_pkt (last_pkt (sys_io g)) = Some p)"

definition quiet :: "int \<Rightarrow> int \<Rightarrow> int \<Rightarrow> int \<Rightarrow> int \<Rightarrow> int \<Rightarrow> int \<Rightarrow> wire conn_sys \<Rightarrow> bool" where
  "quiet a pa b pb n M K g \<longleftrightarrow> (\<exists>s l r. sys_A g = sender_of a pa b pb s \<and> sys_B g = receiver_of a pa b pb l r \<and>
     snd_ok pa b pb n M s \<and> outstanding s = [] \<and> rcv_ok a pa pb n [] r \<and> clock_ok K (sys_io g))"

lemma retry_pending:
  assumes v: "validAddress a" "validAddress b" "valid_port pa" "valid_port pb" and d: "chunk_ok n d" and K: "0 \<le> K" "K + 1 < 2 ^ 30"
    and g: "pending a pa b pb n M K d e p g"
  shows "pending a pa b pb n M (K + 1) d e (a, data_seg pa pb n d) (retry g) \<and> sys_written (retry g) = sys_written g \<and>
    sys_read (retry g) = sys_read g"
proof -
  obtain s l r where A: "sys_A g = sender_of a pa b pb s" and B: "sys_B g = receiver_of a pa b pb l r" and so: "snd_ok pa b pb n M s"
    and wa: "waiting n d ((K + 1) * RTO_MAX_MS) s" and ro: "rcv_ok a pa pb n e r" and ck: "clock_ok K (sys_io g)"
    using g by (auto simp: pending_def)
  let ?t = "max (wr_clock (io_rt (sys_io g))) (nextRtoDeadlineMs (get_sock 0 (sys_A g)))"
  let ?w = "(sys_io g)\<lparr>io_rt := (io_rt (sys_io g))\<lparr>wr_clock := ?t\<rparr>\<rparr>"
  have dl: "nextRtoDeadlineMs (get_sock 0 (sys_A g)) = nextRtoDeadlineMs s" by (simp add: A sender_of_def get_sock_def)
  have ck1: "clock_ok (K + 1) ?w" using ck wa K by (auto simp: clock_ok_def dl waiting_def cxx_const)
  have wa1: "waiting n d (wr_clock (io_rt ?w)) s" using wa by (auto simp: waiting_def dl)
  obtain s' w' where m: "tcp_do wire_rt CallTick (sender_of a pa b pb s) ?w = (sender_of a pa b pb s', w')"
    "snd_ok pa b pb n M s'" "waiting n d ((K + 1 + 1) * RTO_MAX_MS) s'"
    "decode_pkt (last_pkt w') = Some (a, data_seg pa pb n d)" "clock_ok (K + 1) w'"
    using retry_moves[OF v so wa1 d ck1] K by auto
  have "retry g = g\<lparr>sys_A := sender_of a pa b pb s', sys_io := w'\<rparr>"
    using m(1) by (simp add: retry_def sender_do_def Let_def A del: tcp_do.simps)
  then show ?thesis using m(2-5) B ro by (auto simp: pending_def)
qed

lemma arrive_pending:
  assumes v: "validAddress a" "validAddress b" "valid_port pa" "valid_port pb" and d: "chunk_ok n d"
    and g: "pending a pa b pb n M K d e (a, data_seg pa pb n d) g" and e: "e = [] \<or> e = d"
  shows "pending a pa b pb n M K d d (b, ack_of pa pb n d) (arrive g) \<and> sys_written (arrive g) = sys_written g \<and>
    sys_read (arrive g) = sys_read g"
proof -
  obtain s l r where A: "sys_A g = sender_of a pa b pb s" and B: "sys_B g = receiver_of a pa b pb l r" and so: "snd_ok pa b pb n M s"
    and wa: "waiting n d ((K + 1) * RTO_MAX_MS) s" and ro: "rcv_ok a pa pb n e r" and ck: "clock_ok K (sys_io g)"
    and p: "decode_pkt (last_pkt (sys_io g)) = Some (a, data_seg pa pb n d)"
    using g by (auto simp: pending_def)
  obtain r' w' where m: "deliver wire_rt (last_pkt (sys_io g)) (receiver_of a pa b pb l r) (sys_io g) = (receiver_of a pa b pb l r', w')"
    "rcv_ok a pa pb n d r'" "decode_pkt (last_pkt w') = Some (b, ack_of pa pb n d)" "wr_clock (io_rt w') = wr_clock (io_rt (sys_io g))"
    by (rule arrive_moves[OF v ro e d p])
  have "arrive g = g\<lparr>sys_B := receiver_of a pa b pb l r', sys_io := w'\<rparr>" using m(1) by (simp add: arrive_def B)
  then show ?thesis using A so wa m ck by (auto simp: pending_def clock_ok_def)
qed


lemma retries_pending:
  assumes v: "validAddress a" "validAddress b" "valid_port pa" "valid_port pb" and d: "chunk_ok n d"
    and g: "pending a pa b pb n M K d e (a, data_seg pa pb n d) g" and K: "0 \<le> K" "K + int i < 2 ^ 30"
  shows "pending a pa b pb n M (K + int i) d e (a, data_seg pa pb n d) ((retry ^^ i) g) \<and>
    sys_written ((retry ^^ i) g) = sys_written g \<and> sys_read ((retry ^^ i) g) = sys_read g"
  using K(2)
proof (induction i)
  case (Suc i)
  let ?g = "(retry ^^ i) g"
  have IH: "pending a pa b pb n M (K + int i) d e (a, data_seg pa pb n d) ?g" "sys_written ?g = sys_written g" "sys_read ?g = sys_read g"
    using Suc by auto
  have "K + int i + 1 = K + int (Suc i)" by simp
  with retry_pending[OF v d _ _ IH(1)] IH(2,3) K(1) Suc.prems show ?case by simp
qed (simp add: g)

lemma duplicates_pending:
  assumes v: "validAddress a" "validAddress b" "valid_port pa" "valid_port pb" and d: "chunk_ok n d"
    and g: "pending a pa b pb n M K d d (b, ack_of pa pb n d) g" and K: "0 \<le> K" "K + int j < 2 ^ 30"
  shows "pending a pa b pb n M (K + int j) d d (b, ack_of pa pb n d) ((duplicate ^^ j) g) \<and>
    sys_written ((duplicate ^^ j) g) = sys_written g \<and> sys_read ((duplicate ^^ j) g) = sys_read g"
  using K(2)
proof (induction j)
  case (Suc j)
  let ?g = "(duplicate ^^ j) g"
  have IH: "pending a pa b pb n M (K + int j) d d (b, ack_of pa pb n d) ?g" "sys_written ?g = sys_written g" "sys_read ?g = sys_read g"
    using Suc by auto
  have e: "K + int j + 1 = K + int (Suc j)" by simp
  have r: "pending a pa b pb n M (K + int (Suc j)) d d (a, data_seg pa pb n d) (retry ?g)" "sys_written (retry ?g) = sys_written g"
    "sys_read (retry ?g) = sys_read g"
    using retry_pending[OF v d _ _ IH(1)] IH(2,3) K(1) Suc.prems by (simp_all add: e)
  from arrive_pending[OF v d r(1)] r(2,3) show ?case by (simp add: duplicate_def[of ?g])
qed (simp add: g)

lemma exchange_quiet:
  assumes v: "validAddress a" "validAddress b" "valid_port pa" "valid_port pb" and d: "chunk_ok n d"
    and M: "0 \<le> M" "M < 2 ^ 20" and K: "0 \<le> K" "K + int i + int j < 2 ^ 30" and g: "quiet a pa b pb n M K g"
  shows "quiet a pa b pb (n + int (length d)) (M + 1) (K + int i + int j) (exchange (d, i, j) g) \<and>
    sys_written (exchange (d, i, j) g) = sys_written g @ d \<and> sys_read (exchange (d, i, j) g) = (sys_read g)(1 := sys_read g 1 @ d)"
proof -
  let ?L = "int (length d)"
  obtain s l r where A: "sys_A g = sender_of a pa b pb s" and B: "sys_B g = receiver_of a pa b pb l r" and so: "snd_ok pa b pb n M s"
    and out: "outstanding s = []" and ro: "rcv_ok a pa pb n [] r" and ck: "clock_ok K (sys_io g)"
    using g by (auto simp: quiet_def)
  let ?g1 = "sender_do wire_rt 0 (CallWrite 0 d 0 ?L) g"
  obtain s' w' where m: "tcp_do wire_rt (CallWrite 0 d 0 ?L) (sender_of a pa b pb s) (sys_io g) = (sender_of a pa b pb s', w')"
    "snd_ok pa b pb n M s'" "waiting n d ((K + 1) * RTO_MAX_MS) s'"
    "decode_pkt (last_pkt w') = Some (a, data_seg pa pb n d)" "clock_ok K w'" "sndNxt s = 1 + n"
    using write_moves[OF v so out d M ck K(1)] K(2) by auto
  have "sndNxt s' - sndNxt s = ?L" using m(3,6) by (auto simp: waiting_def)
  then have nb: "new_bytes 0 (CallWrite 0 d 0 ?L) (sender_of a pa b pb s) (sender_of a pa b pb s') = d"
    by (simp add: sender_of_def get_sock_def)
  have g1: "?g1 = g\<lparr>sys_A := sender_of a pa b pb s', sys_io := w', sys_written := sys_written g @ d\<rparr>"
    using m(1) nb by (simp add: sender_do_def A del: tcp_do.simps new_bytes.simps)
  then have p1: "pending a pa b pb n M K d [] (a, data_seg pa pb n d) ?g1" using m(2-5) B ro by (auto simp: pending_def)
  let ?g2 = "(retry ^^ i) ?g1"
  have g2: "pending a pa b pb n M (K + int i) d [] (a, data_seg pa pb n d) ?g2" "sys_written ?g2 = sys_written g @ d" "sys_read ?g2 = sys_read g"
    using retries_pending[OF v d p1 K(1), of i] K(2) by (auto simp: g1)
  let ?g3 = "(duplicate ^^ j) (arrive ?g2)"
  have g3: "pending a pa b pb n M (K + int i + int j) d d (b, ack_of pa pb n d) ?g3" "sys_written ?g3 = sys_written g @ d"
      "sys_read ?g3 = sys_read g"
    using arrive_pending[OF v d g2(1)] duplicates_pending[OF v d, of M "K + int i" "arrive ?g2" j] g2(2,3) K by auto
  then obtain s3 l3 r3 where A3: "sys_A ?g3 = sender_of a pa b pb s3" and B3: "sys_B ?g3 = receiver_of a pa b pb l3 r3"
    and so3: "snd_ok pa b pb n M s3" and wa3: "waiting n d ((K + int i + int j + 1) * RTO_MAX_MS) s3" and ro3: "rcv_ok a pa pb n d r3"
    and ck3: "clock_ok (K + int i + int j) (sys_io ?g3)" and p3: "decode_pkt (last_pkt (sys_io ?g3)) = Some (b, ack_of pa pb n d)"
    by (auto simp: pending_def)
  obtain s4 w4 where m4: "deliver wire_rt (last_pkt (sys_io ?g3)) (sender_of a pa b pb s3) (sys_io ?g3) = (sender_of a pa b pb s4, w4)"
    "snd_ok pa b pb (n + ?L) (M + 1) s4" "outstanding s4 = []" "wr_clock (io_rt w4) = wr_clock (io_rt (sys_io ?g3))"
    by (rule ack_moves[OF so3 wa3 d M p3])
  have g4: "ack_arrives ?g3 = ?g3\<lparr>sys_A := sender_of a pa b pb s4, sys_io := w4\<rparr>" using m4(1) by (simp add: ack_arrives_def A3)
  obtain r5 where m5: "tm_read 1 True 0 ?L (receiver_of a pa b pb l3 r3) = ((?L, d), receiver_of a pa b pb l3 r5)"
    "rcv_ok a pa pb (n + ?L) [] r5" by (rule read_moves[OF ro3 d])
  have "exchange (d, i, j) g = ?g3\<lparr>sys_A := sender_of a pa b pb s4, sys_io := w4, sys_B := receiver_of a pa b pb l3 r5,
      sys_read := (sys_read g)(1 := sys_read g 1 @ d)\<rparr>"
    using m5(1) g3(3) by (simp add: exchange_def g4 receiver_do_def B3)
  then show ?thesis using g3(2) m4(2-4) m5(2) ck3 by (auto simp: quiet_def clock_ok_def)
qed

definition losses :: "(byte list \<times> nat \<times> nat) list \<Rightarrow> nat" where
  "losses xs = sum_list (map (\<lambda>(d, i, j). i + j) xs)"

definition chunks_ok :: "(byte list \<times> nat \<times> nat) list \<Rightarrow> bool" where
  "chunks_ok xs \<longleftrightarrow> list_all (\<lambda>(d, i, j). d \<noteq> [] \<and> int (length d) \<le> TP_MAX_PAYLOAD_SIZE) xs"

lemma transfer_quiet:
  assumes v: "validAddress a" "validAddress b" "valid_port pa" "valid_port pb" and g: "quiet a pa b pb n M K g"
    and xs: "chunks_ok xs" and M: "0 \<le> M" "M + int (length xs) \<le> 2 ^ 20" and K: "0 \<le> K" "K + int (losses xs) < 2 ^ 30"
    and n: "0 \<le> n" "n \<le> M * TP_MAX_PAYLOAD_SIZE"
  shows "quiet a pa b pb (n + int (length (concat (map fst xs)))) (M + int (length xs)) (K + int (losses xs)) (fold exchange xs g) \<and>
    sys_written (fold exchange xs g) = sys_written g @ concat (map fst xs) \<and>
    sys_read (fold exchange xs g) 1 = sys_read g 1 @ concat (map fst xs)"
  using assms(5-)
proof (induction xs arbitrary: n M K g)
  case Nil
  then show ?case by (simp add: losses_def)
next
  case (Cons x xs)
  obtain d i j where x: "x = (d, i, j)" by (cases x) auto
  let ?L = "int (length d)"
  have L: "d \<noteq> []" "?L \<le> TP_MAX_PAYLOAD_SIZE" "chunks_ok xs" using Cons.prems(2) by (auto simp: chunks_ok_def x)
  have d: "chunk_ok n d" using L Cons.prems(3,4,7,8) by (auto simp: chunk_ok_def cxx_const)
  have ls: "K + int i + int j + int (losses xs) = K + int (losses (x # xs))" by (simp add: losses_def x)
  have ex: "quiet a pa b pb (n + ?L) (M + 1) (K + int i + int j) (exchange x g)" "sys_written (exchange x g) = sys_written g @ d"
     "sys_read (exchange x g) 1 = sys_read g 1 @ d"
    using exchange_quiet[OF v d Cons.prems(3) _ Cons.prems(5) _ Cons.prems(1), of i j] Cons.prems(4,6) ls by (auto simp: x)
  have "quiet a pa b pb (n + ?L + int (length (concat (map fst xs)))) (M + 1 + int (length xs)) (K + int i + int j + int (losses xs))
      (fold exchange xs (exchange x g)) \<and>
    sys_written (fold exchange xs (exchange x g)) = sys_written (exchange x g) @ concat (map fst xs) \<and>
    sys_read (fold exchange xs (exchange x g)) 1 = sys_read (exchange x g) 1 @ concat (map fst xs)"
    by (rule Cons.IH[OF ex(1) L(3)]) (use Cons.prems L(2) ls in \<open>auto simp: distrib_right\<close>)
  then show ?case using ex(2,3) ls by (simp add: x algebra_simps)
qed


section \<open>Properties\<close>

interpretation clock0: runtime_keeper wire_rt a k "\<lambda>m. wr_clock m = 0" for a k
  by unfold_locales (auto simp: wire_rt_def split: prod.split sum.split)

lemma handshake_clock: "wr_clock (io_rt (sys_io (handshake a pa b pb backlog))) = 0"
proof -
  have del: "wr_clock (io_rt (snd (deliver wire_rt bs m w))) = 0" if "wr_clock (io_rt w) = 0" for bs m w
    using clock0.keeps_receive[OF refl, of w _ _ m] that
    by (auto simp: deliver_def clock0.keeps_def split: option.split)
  have "wr_clock (io_rt (snd (snd (snd (open_client wire_rt pa b pb (tcp_manager_ctor a) wire_io))))) = 0"
    using clock0.keeps_open_client[OF refl, of wire_io pa b pb "tcp_manager_ctor a"] by (simp add: clock0.keeps_def wire_io_def)
  then show ?thesis by (simp add: handshake_def Let_def split_beta del)
qed

lemma quiet_handshake:
  assumes v: "validAddress a" "validAddress b" "valid_port pa" "valid_port pb"
  shows "quiet a pa b pb 0 0 0 (handshake a pa b pb backlog)"
proof -
  let ?g = "handshake a pa b pb backlog" and ?c = "client_sock pa b pb"
  let ?l = "enqueueAccepted 1 (tcp_socket_ctor\<lparr>localPort := pb, sk_state := LISTEN, sk_backlog := backlog\<rparr>)"
  have h: "sys_A ?g = sender_of a pa b pb ?c" "sys_B ?g = receiver_of a pa b pb ?l (server_sock pb a pa)"
    by (rule handshake_state[OF v, of backlog]; simp add: sender_of_def receiver_of_def)+
  have "man_wf (sender_of a pa b pb ?c)" using man_wf_handshake[OF v, of backlog] h by simp
  then have "sock_wf ?c" using man_wfD(1)[of "sender_of a pa b pb ?c" 0] sock_okD(1) by (simp add: sender_of_def get_sock_def)
  then have "snd_ok pa b pb 0 0 ?c" "outstanding ?c = []"
    by (simp_all add: snd_ok_def client_sock_def tcp_socket_ctor_def cxx_const)
  moreover have "rcv_ok a pa pb 0 [] (server_sock pb a pa)"
    by (simp add: rcv_ok_def server_sock_def initAccepted_def tcp_socket_ctor_def)
  moreover have "clock_ok 0 (sys_io ?g)" by (simp add: clock_ok_def handshake_clock)
  ultimately show ?thesis using h by (auto simp: quiet_def)
qed


definition demo_chunks :: "(byte list \<times> nat \<times> nat) list" where
  "demo_chunks = [([7, 8], 2, 0), ([9], 0, 1)]"


end
