(* ===== verification/Transfer_Run.thy ===== *)
theory Transfer_Run
  imports Delivery Node_Effects
begin

text \<open>
  The transfer application over TCP: a \<open>TransferClient\<close> on one node, the \<open>TransferWorker\<close> of its
  connection on another, and between their rounds everything the nodes, the timers and the
  network may do to the two TCP managers. The theory composes \<open>client_execute\<close> and
  \<open>worker_execute\<close> with the delivery guarantee of the theory \<open>Delivery\<close>.
\<close>

section \<open>One round of the client as calls of the manager\<close>

text \<open>What a round keeps of the client when it does not write.\<close>

definition same_client :: "transfer_client \<Rightarrow> transfer_client \<Rightarrow> bool" where
  "same_client c c' \<longleftrightarrow> tc_sock c' = tc_sock c \<and> tc_buf c' = tc_buf c \<and> tc_pos c' = tc_pos c \<and>
     tc_amount c' = tc_amount c \<and> (tc_interval c' = tc_interval c \<or> tc_interval c' = 0)"

lemma client_execute_cases:
  assumes r: "client_execute rt addr c m w = (Inr c', m', w')"
  obtains (quiet) "m' = m \<or> m' = tm_release (tc_sock c) m" "io_rt w' = io_rt w" "same_client c c'"
  | (close) w1 where "tm_close rt (tc_sock c) m w1 = (m', w')" "io_rt w1 = io_rt w" "same_client c c'"
  | (send) c1 w1 where "client_send rt addr c1 m w1 = (Inr c', m', w')" "io_rt w1 = io_rt w" "same_client c c1"
      "tc_interval c1 = tc_interval c"
proof -
  let ?s = "get_sock (tc_sock c) m"
  obtain c1 w1 where b: "client_begin rt addr c w = (c1, w1)" by fastforce
  obtain t where "c1 = c\<lparr>tc_startTime := t\<rparr>" using client_begin_sel[OF b] by blast
  then have c1: "same_client c c1" "tc_interval c1 = tc_interval c" "tc_sock c1 = tc_sock c" by (simp_all add: same_client_def)
  have w1: "io_rt w1 = io_rt w" using b by (auto simp: client_begin_def Let_def split: if_splits)
  have refl: "same_client c c" by (simp add: same_client_def)
  consider "isConnectionPending ?s \<or> isClosurePending ?s" | "isConnected ?s" | "isClosed ?s"
    | "\<not> isConnectionPending ?s" "\<not> isConnected ?s" "\<not> isClosurePending ?s" "\<not> isClosed ?s" by blast
  then show thesis
  proof cases
    case 1
    then have "(c', m', w') = (c, m, w)" using r
      by (auto simp: client_execute_def Let_def isConnectionPending_def isConnected_def isClosurePending_def)
    then show thesis using quiet refl by simp
  next
    case 2
    then have e: "client_connected rt addr c m w = (Inr c', m', w')"
      using r by (simp add: client_execute_def Let_def isConnected_def isConnectionPending_def)
    show thesis
    proof (cases "tc_amount c1 = 0")
      case True
      let ?w = "log_lines (logOutput addr) [''time = '' @ now_str rt w1, ''sending completed'', ''closing connection...''] w1"
      have "tm_close rt (tc_sock c) m ?w = (m', w')" "c' = c1"
        using e b True c1(3) by (auto simp: client_connected_def Let_def split: prod.splits)
      then show thesis using close[of ?w] c1 w1 by simp
    next
      case False
      then show thesis using e b send[OF _ w1 c1(1,2)] by (simp add: client_connected_def Let_def)
    qed
  next
    case 3
    then have "client_closed rt addr c m w = (c', m', w')"
      using r by (simp add: client_execute_def Let_def isConnected_def isConnectionPending_def isClosurePending_def isClosed_def
          split: prod.splits)
    then have "m' = tm_release (tc_sock c) m" "io_rt w' = io_rt w" "same_client c c'"
      by (auto simp: client_closed_def Let_def same_client_def)
    then show thesis using quiet by blast
  next
    case 4
    then show thesis using r quiet refl by (auto simp: client_execute_def Let_def)
  qed
qed

section \<open>A transfer as a transition system\<close>

record 'm transfer_sys =
  tf_A :: tcp_manager
  tf_B :: tcp_manager
  tf_io :: "'m io"
  tf_client :: transfer_client
  tf_worker :: transfer_worker

text \<open>Nobody else writes to the client's socket or reads from the worker's.\<close>

fun not_writing :: "nat \<Rightarrow> tcp_call \<Rightarrow> bool" where
  "not_writing sk (CallWrite i _ _ _) \<longleftrightarrow> i \<noteq> sk"
| "not_writing sk _ \<longleftrightarrow> True"

fun not_reading :: "nat \<Rightarrow> tcp_call \<Rightarrow> bool" where
  "not_reading sk (CallRead i _ _) \<longleftrightarrow> i \<noteq> sk"
| "not_reading sk _ \<longleftrightarrow> True"

text \<open>A task runs while its interval is positive; between its rounds everything a node can do to
  its TCP manager may happen on either side, and the network may lose packets.\<close>

inductive transfer_step :: "'m runtime \<Rightarrow> ('m \<Rightarrow> wire_pkt set) \<Rightarrow> int \<Rightarrow> 'm transfer_sys \<Rightarrow> 'm transfer_sys \<Rightarrow> bool"
  for rt onwire pa where
  client: "client_execute rt (tm_addr (tf_A s)) (tf_client s) (tf_A s) (tf_io s) = (Inr c, m, w) \<Longrightarrow>
     0 < tc_interval (tf_client s) \<Longrightarrow> man_room (tf_A s) \<Longrightarrow>
     transfer_step rt onwire pa s (s\<lparr>tf_client := c, tf_A := m, tf_io := w\<rparr>)"
| worker: "worker_execute rt (tm_addr (tf_B s)) (tf_worker s) (tf_B s) (tf_io s) = (Inr k, m, w) \<Longrightarrow>
     0 < tw_interval (tf_worker s) \<Longrightarrow>
     transfer_step rt onwire pa s (s\<lparr>tf_worker := k, tf_B := m, tf_io := w\<rparr>)"
| sender: "tcp_do rt c (tf_A s) (tf_io s) = (m, w) \<Longrightarrow> call_ok c (tf_A s) \<Longrightarrow> man_room (tf_A s) \<Longrightarrow>
     port_free pa c \<Longrightarrow> not_writing (tc_sock (tf_client s)) c \<Longrightarrow>
     transfer_step rt onwire pa s (s\<lparr>tf_A := m, tf_io := w\<rparr>)"
| receiver: "tcp_do rt c (tf_B s) (tf_io s) = (m, w) \<Longrightarrow> call_ok c (tf_B s) \<Longrightarrow> man_room (tf_B s) \<Longrightarrow>
     authentic (tm_addr (tf_A s)) pa (onwire (io_rt (tf_io s))) c \<Longrightarrow> not_reading (tw_sock (tf_worker s)) c \<Longrightarrow>
     transfer_step rt onwire pa s (s\<lparr>tf_B := m, tf_io := w\<rparr>)"
| wire: "onwire (io_rt w) \<subseteq> onwire (io_rt (tf_io s)) \<Longrightarrow> transfer_step rt onwire pa s (s\<lparr>tf_io := w\<rparr>)"

inductive_cases transfer_stepE: "transfer_step rt onwire pa s s'"

section \<open>The invariant of a transfer\<close>

text \<open>What was written is the beginning of the pattern; what the worker has counted is what it
  has read, and it reads from the client's connection or from a released socket.\<close>

definition client_at :: "nat \<Rightarrow> int \<Rightarrow> byte list \<Rightarrow> transfer_client \<Rightarrow> bool" where
  "client_at n amt W c \<longleftrightarrow> client_wf c \<and> length (tc_buf c) = n \<and> W = pattern_slice n 0 (length W) \<and>
     int (length W) \<le> amt \<and> in_i32 amt \<and>
     (0 < tc_interval c \<longrightarrow> tc_pos c = int (length W) \<and> tc_amount c = amt - tc_pos c)"

definition worker_at :: "int \<Rightarrow> int \<Rightarrow> nat \<Rightarrow> byte list \<Rightarrow> byte list \<Rightarrow> transfer_worker \<Rightarrow> tcp_manager \<Rightarrow> bool" where
  "worker_at a pa n W r k m \<longleftrightarrow> length (tw_buf k) = n \<and> tw_sock k < length (allSockets m) \<and> tw_pos k = int (length r) \<and>
     recv_ok W r (get_sock (tw_sock k) m) \<and>
     (remoteAddr (get_sock (tw_sock k) m) = a \<and> remotePort (get_sock (tw_sock k) m) = pa \<or>
      remoteAddr (get_sock (tw_sock k) m) = - 1 \<and> remotePort (get_sock (tw_sock k) m) = - 1)"

definition conn_of :: "'m transfer_sys \<Rightarrow> byte list \<Rightarrow> (nat \<Rightarrow> byte list) \<Rightarrow> 'm conn_sys" where
  "conn_of s W rd = \<lparr>sys_A = tf_A s, sys_B = tf_B s, sys_io = tf_io s, sys_written = W, sys_read = rd\<rparr>"

definition transfer_inv :: "('m \<Rightarrow> wire_pkt set) \<Rightarrow> int \<Rightarrow> nat \<Rightarrow> int \<Rightarrow> 'm transfer_sys \<Rightarrow> bool" where
  "transfer_inv onwire pa n amt s \<longleftrightarrow> 0 < n \<and> (\<exists>W rd.
     conn_inv onwire (tc_sock (tf_client s)) pa (conn_of s W rd) \<and> client_at n amt W (tf_client s) \<and>
     worker_at (tm_addr (tf_A s)) pa n W (rd (tw_sock (tf_worker s))) (tf_worker s) (tf_B s))"

subsection \<open>The connection\<close>

lemma conn_inv_io:
  "conn_inv onwire sk pa g \<Longrightarrow> io_rt w = io_rt (sys_io g) \<Longrightarrow> conn_inv onwire sk pa (g\<lparr>sys_io := w\<rparr>)"
  by (simp add: conn_inv_def)

lemma conn_inv_release:
  assumes "conn_inv onwire sk pa g"
  shows "conn_inv onwire sk pa (g\<lparr>sys_A := tm_release i (sys_A g)\<rparr>)"
    and "conn_inv onwire sk pa (g\<lparr>sys_B := tm_release i (sys_B g)\<rparr>)"
proof -
  let ?A = "sys_A g" and ?B = "sys_B g"
  have i: "0 \<le> pa" "sender_inv pa sk (sys_written g) ?A" "receiver_inv (tm_addr ?A) pa (sys_written g) (sys_read g) ?B"
    using assms by (auto simp: conn_inv_def)
  have wf: "man_wf ?A" "man_wf ?B" using i by (auto simp: sender_inv_def receiver_inv_def)
  have "sender_inv pa sk (sys_written g) (tm_release i ?A)"
    by (rule sender_inv_frame[OF i(2,1) man_wf_release[OF wf(1)] snd_frame_calm[OF calm_all_release]])
  moreover have "receiver_inv (tm_addr ?A) pa (sys_written g) (sys_read g) (tm_release i ?B)"
    by (rule receiver_inv_frame[OF i(3,1) man_wf_release[OF wf(2)] rcv_frame_calm[OF calm_all_release]])
  ultimately show "conn_inv onwire sk pa (g\<lparr>sys_A := tm_release i ?A\<rparr>)" "conn_inv onwire sk pa (g\<lparr>sys_B := tm_release i ?B\<rparr>)"
    using assms calm_all_addr[OF calm_all_release] by (simp_all add: conn_inv_def)
qed


subsection \<open>The worker\<close>

lemma worker_at_frame:
  assumes "worker_at a pa n W r k m" "rcv_frame a pa W m m'" "rcv_frame (- 1) (- 1) W m m'"
  shows "worker_at a pa n W r k m'"
proof -
  let ?s = "get_sock (tw_sock k) m" and ?t = "get_sock (tw_sock k) m'"
  have k: "tw_sock k < length (allSockets m)" "recv_ok W r ?s" using assms(1) by (auto simp: worker_at_def)
  have "same_conn ?s ?t" using assms(2) k(1) by (simp add: rcv_frame_def)
  then have "remoteAddr ?t = a \<and> remotePort ?t = pa \<or> remoteAddr ?t = - 1 \<and> remotePort ?t = - 1"
    using assms(1) by (auto simp: same_conn_def worker_at_def)
  moreover have "recv_ok W r ?t"
    using assms k by (auto simp: rcv_frame_def worker_at_def)
  ultimately show ?thesis using assms(1,2) by (auto simp: worker_at_def rcv_frame_def)
qed

lemma worker_at_mono: "worker_at a pa n W r k m \<Longrightarrow> worker_at a pa n (W @ V) r k m"
  by (auto simp: worker_at_def recv_ok_mono)

lemma pattern_prefix:
  assumes "prefix (r @ bs) (pattern_slice n 0 l)"
  shows "bs = pattern_slice n (length r) (length bs)"
proof -
  obtain zs where z: "pattern_slice n 0 l = r @ bs @ zs" using assms by (auto simp: prefix_def)
  then have "l = length r + (length bs + length zs)" by (metis length_append length_pattern_slice)
  with z have "pattern_slice n 0 (length r) @ pattern_slice n (length r) (length bs) @ pattern_slice n (length r + length bs) (length zs)
      = r @ bs @ zs" by (simp add: pattern_slice_append)
  then show ?thesis by (simp add: append_eq_append_conv)
qed

lemma worker_at_read:
  assumes "worker_at a pa n W r k m" "tm_read (tw_sock k) True pos len m = ((l, bs), m1)"
    and "length (tw_buf k') = n" "tw_sock k' = tw_sock k" "tw_pos k' = int (length (r @ bs))"
  shows "worker_at a pa n W (r @ bs) k' m1"
proof -
  let ?s = "get_sock (tw_sock k) m"
  obtain s' where s': "sk_read True pos len ?s = ((l, bs), s')" "m1 = upd_sock (tw_sock k) (\<lambda>_. s') m"
    using assms(2) by (auto simp: tm_read_def split: prod.splits)
  have "bs @ recvBuf s' = recvBuf ?s" using sk_read_moves[of True pos len ?s] s'(1) by simp
  then have "recv_ok W (r @ bs) s'"
    using assms(1) s'(1) sk_read_sel(7)[of True pos len ?s] by (simp add: worker_at_def recv_ok_def)
  then show ?thesis
    using assms s' sk_read_sel(2,3)[of True pos len ?s] by (auto simp: worker_at_def)
qed

text \<open>The bytes a worker reads are the next ones of the pattern, so its round goes on without a
  word unless the read fails.\<close>

lemma worker_round:
  assumes at_: "worker_at a pa n W r k m" and n: "0 < n" and W: "W = pattern_slice n 0 (length W)" "int (length W) < 2 ^ 31"
    and wf: "sock_wf (get_sock (tw_sock k) m)" and op: "\<not> isClosed (get_sock (tw_sock k) m)"
    and rd: "tm_read (tw_sock k) True (int (nat (tw_pos k) mod n)) (int n - int (nat (tw_pos k) mod n)) m = ((l, bs), m1)"
    and ok: "l \<noteq> - 1"
  obtains k' where "worker_execute rt addr k m w = (Inr k', m1, w)" "tw_sock k' = tw_sock k" "length (tw_buf k') = n"
    "tw_interval k' = tw_interval k" "tw_pos k' = tw_pos k + l" "l = int (length bs)"
    "bs = pattern_slice n (nat (tw_pos k)) (length bs)" "prefix (r @ bs) W"
proof -
  let ?p = "nat (tw_pos k)" and ?s = "get_sock (tw_sock k) m"
  let ?j = "?p mod n"
  have k: "length (tw_buf k) = n" "tw_pos k = int (length r)" "recv_ok W r ?s" using at_ by (auto simp: worker_at_def)
  have sr: "sk_read True (int ?j) (int n - int ?j) ?s = ((l, bs), get_sock (tw_sock k) m1)"
    using rd at_ by (auto simp: tm_read_def worker_at_def split: prod.splits)
  have j: "?j < n" using n by simp
  have cnt: "l = int (length bs)" "length bs \<le> nat (int n - int ?j)"
    using sk_read_count[OF wf sr] ok by auto
  have fits: "length bs + ?j \<le> n" using cnt(2) j by linarith
  have mv: "bs @ recvBuf (get_sock (tw_sock k) m1) = recvBuf ?s"
    using sk_read_moves[of True "int ?j" "int n - int ?j" ?s] by (simp add: sr)
  have pre: "prefix (r @ bs) W"
  proof -
    have "prefix (r @ recvBuf ?s) W" using k(3) by (simp add: recv_ok_def take_is_prefix)
    then show ?thesis unfolding mv[symmetric] by (metis append_assoc append_prefixD)
  qed
  have pat: "bs = pattern_slice n ?p (length bs)" using pattern_prefix[of r bs n "length W"] pre W(1) k(2) by simp
  have "length (r @ bs) \<le> length W" using pre by (rule prefix_length_le)
  then have i: "i32 (tw_pos k + l) = tw_pos k + l"
    using W(2) k(2) cnt by (intro i32_id) (auto simp: in_i32_def)
  have idx: "tw_pos k smod int n = int ?j" using k(2) n by (simp add: smod_nonneg zmod_int)
  have tk: "take (length bs) (drop ?j (take ?j (tw_buf k) @ bs @ X)) = bs" for X using j k(1) by simp
  have pa': "pattern_at (int ?j) bs" using pattern_at_slice[OF fits] pat by simp
  let ?k = "k\<lparr>tw_buf := take ?j (tw_buf k) @ bs @ drop (?j + length bs) (tw_buf k), tw_pos := tw_pos k + l\<rparr>"
  have "tw_buf k \<noteq> []" using k(1) n by auto
  then have e: "worker_execute rt addr k m w = (Inr ?k, m1, w)"
    using op rd idx k(1) ok cnt(1) tk pa' i by (simp add: worker_execute_def Let_def del: take_append drop_append)
  show thesis
    by (rule that[OF e]) (use fits k cnt pat pre in \<open>auto simp: min_def\<close>)
qed

text \<open>Otherwise the worker stops.\<close>

lemma worker_stops:
  assumes k: "length (tw_buf k) = n" "0 < n" "0 \<le> tw_pos k" and wf: "sock_wf (get_sock (tw_sock k) m)"
    and r: "worker_execute rt addr k m w = (Inr k', m', w')"
    and rd: "tm_read (tw_sock k) True (int (nat (tw_pos k) mod n)) (int n - int (nat (tw_pos k) mod n)) m = ((l, bs), m1)"
    and stop: "isClosed (get_sock (tw_sock k) m) \<or> l = - 1"
  shows "(m' = m \<or> m' = tm_release (tw_sock k) m1 \<and> bs = []) \<and> io_rt w' = io_rt w \<and> tw_sock k' = tw_sock k \<and>
    length (tw_buf k') = n \<and> tw_pos k' = tw_pos k \<and> tw_interval k' = 0"
proof (cases "isClosed (get_sock (tw_sock k) m)")
  case True
  then show ?thesis using r k by (auto simp: worker_execute_def Let_def)
next
  case False
  have idx: "tw_pos k smod int n = int (nat (tw_pos k) mod n)" using k by (simp add: smod_nonneg zmod_int)
  have "tw_buf k \<noteq> []" using k by auto
  moreover have c: "l = - 1" using stop False by simp
  moreover have "bs = []" using sk_read_count[OF wf] rd c by (fastforce simp: tm_read_def split: prod.splits)
  ultimately show ?thesis using r False rd idx k(1) by (auto simp: worker_execute_def Let_def)
qed


subsection \<open>The client\<close>

lemma tm_write_takes:
  assumes "tm_write rt i (Some buf) pos len m w = (r, m', w')" "man_wf m" "man_room m" "i < length (allSockets m)"
    "pos + len \<le> int (length buf)"
  obtains l where "0 \<le> l" "l \<le> max 0 len" "r = - 1 \<or> r = l" "sndNxt (get_sock i m') - sndNxt (get_sock i m) = l"
proof -
  let ?s = "get_sock i m"
  obtain s' where s': "sk_write rt (tm_addr m) (Some buf) pos len ?s w = (r, s', w')" "m' = upd_sock i (\<lambda>_. s') m"
    using assms(1) by (auto simp: tm_write_def split: prod.splits)
  have "sock_wf ?s" "room ?s" using assms man_wfD(1)[OF assms(2)] by (auto simp: man_room_def get_sock_def dest: sock_okD)
  from sk_write_spec[OF s'(1) this assms(5)] obtain l segs where
    l: "0 \<le> l" "l \<le> max 0 len" "r = - 1 \<or> r = l" "written_by buf pos ?s l segs (s'\<lparr>nextRtoDeadlineMs := nextRtoDeadlineMs ?s\<rparr>)"
    by blast
  then have "sndNxt s' = sndNxt ?s + l" using written_by_sel[OF l(4)] by simp
  with l that show thesis using assms(4) s'(2) by simp
qed

lemma client_at_same: "client_at n amt W c \<Longrightarrow> same_client c c' \<Longrightarrow> client_at n amt W c'"
  by (auto simp: client_at_def same_client_def client_wf_def)

text \<open>The bytes of one write continue the pattern.\<close>

lemma client_at_send:
  assumes at_: "client_at n amt W c" and run: "0 < tc_interval c" and n: "0 < n"
    and l: "0 \<le> l" "l \<le> max 0 (min (int n - int (nat (tc_pos c) mod n)) (tc_amount c))"
    and V: "V = take (nat l) (drop (nat (tc_pos c) mod n) (pattern_buf n))"
    and c': "tc_sock c' = tc_sock c" "tc_buf c' = pattern_buf n"
      "if r = - 1 then tc_interval c' = 0 \<and> tc_pos c' = tc_pos c
       else r = l \<and> tc_pos c' = i32 (tc_pos c + r) \<and> tc_amount c' = i32 (tc_amount c - r)"
  shows "client_at n amt (W @ V) c'"
proof -
  let ?p = "nat (tc_pos c)"
  have p: "tc_pos c = int (length W)" "tc_amount c = amt - tc_pos c" "int (length W) \<le> amt" "in_i32 amt" "?p = length W"
    using at_ run by (auto simp: client_at_def)
  have j: "?p mod n < n" using n by simp
  have lb: "l \<le> int n - int (?p mod n)" "l \<le> amt - tc_pos c" using l p j by auto
  have "nat l + ?p mod n \<le> n" using lb(1) l(1) by (simp add: nat_le_iff flip: of_nat_le_iff)
  then have v: "V = pattern_slice n (length W) (nat l)" using pattern_slice_buf[of "nat l" ?p n] V p(5) by simp
  then have len: "int (length (W @ V)) = tc_pos c + l" using l(1) p(1) by simp
  have "W @ V = pattern_slice n 0 (length (W @ V))"
    using v at_ by (simp add: client_at_def pattern_slice_append)
  moreover have "r \<noteq> - 1 \<Longrightarrow> tc_pos c' = tc_pos c + l \<and> tc_amount c' = tc_amount c - l"
    using c'(3) lb(2) l(1) p by (auto intro!: i32_id simp: in_i32_def)
  moreover have "client_wf c'"
    using calculation(2) c' n at_ lb(2) l(1) p
    by (cases "r = - 1") (auto simp: client_at_def client_wf_def pattern_buf_def in_i32_def)
  ultimately show ?thesis
    using len lb(2) p c' by (cases "r = - 1") (auto simp: client_at_def pattern_buf_def)
qed

lemma worker_at_other_port:
  assumes "worker_at a pa n W r k m" "man_wf m" "man_room m" "int (length W) < 2 ^ 31 - 1" "call_ok c m"
    "tcp_do rt c m w = (m', w')" "not_reading (tw_sock k) c"
    "\<And>src t. c = CallReceive src t \<Longrightarrow> src = a \<Longrightarrow> tp_type t = DATA \<Longrightarrow> tp_srcPort t = pa \<Longrightarrow>
       seg_in W (tp_seqNum t) (tp_payload t)"
  shows "worker_at a pa n W r k m'"
proof (cases "\<exists>i pos len. c = CallRead i pos len")
  case True
  then obtain i pos len where c: "c = CallRead i pos len" by blast
  then have "i \<noteq> tw_sock k" "m' = snd (tm_read i True pos len m)" using assms(6,7) by auto
  then have "get_sock (tw_sock k) m' = get_sock (tw_sock k) m" "length (allSockets m') = length (allSockets m)"
    by (auto simp: tm_read_def split: prod.splits)
  with assms(1) show ?thesis by (simp add: worker_at_def)
next
  case False
  have "rcv_frame a pa W m m'" "rcv_frame (- 1) (- 1) W m m'"
    using False assms(5,8) by (intro rcv_frame_do[OF assms(2-6)]; auto simp: transport_ok_def)+
  with worker_at_frame[OF assms(1)] show ?thesis by blast
qed


subsection \<open>Every step keeps the invariant\<close>

lemma conn_invD:
  assumes "conn_inv onwire sk pa (conn_of s W rd)"
  shows "man_wf (tf_A s)" "man_wf (tf_B s)" "sk < length (allSockets (tf_A s))" "int (length W) < 2 ^ 31 - 1"
proof -
  show A: "man_wf (tf_A s)" "man_wf (tf_B s)" and sk: "sk < length (allSockets (tf_A s))"
    using assms by (auto simp: conn_inv_def sender_inv_def receiver_inv_def conn_of_def)
  have "sock_wf (get_sock sk (tf_A s))" using man_wfD(1)[OF A(1) sk] by (simp add: sock_ok_def)
  then show "int (length W) < 2 ^ 31 - 1"
    using assms by (auto simp: conn_inv_def conn_of_def sender_inv_def sock_wf_defs in_i32_def)
qed

lemma transfer_invE:
  assumes "transfer_inv onwire pa n amt s"
  obtains W rd where "0 < n" "conn_inv onwire (tc_sock (tf_client s)) pa (conn_of s W rd)"
    "client_at n amt W (tf_client s)"
    "worker_at (tm_addr (tf_A s)) pa n W (rd (tw_sock (tf_worker s))) (tf_worker s) (tf_B s)"
  using assms by (auto simp: transfer_inv_def)

context network
begin

lemma sender_call:
  assumes inv: "conn_inv onwire sk pa (conn_of s W rd)" and room: "man_room (tf_A s)"
    and do: "tcp_do rt c (tf_A s) w0 = (m, w)" and w0: "io_rt w0 = io_rt (tf_io s)" and ok: "call_ok c (tf_A s)" "port_free pa c"
    and w': "io_rt w' = io_rt w"
  shows "conn_inv onwire sk pa (conn_of (s\<lparr>tf_A := m, tf_io := w'\<rparr>) (W @ new_bytes sk c (tf_A s) m) rd) \<and> tm_addr m = tm_addr (tf_A s)"
proof -
  let ?g = "(conn_of s W rd)\<lparr>sys_io := w0\<rparr>"
  have g: "conn_inv onwire sk pa ?g" using inv by (rule conn_inv_io) (simp add: w0 conn_of_def)
  have "conn_step rt onwire sk pa ?g (?g\<lparr>sys_A := m, sys_io := w, sys_written := W @ new_bytes sk c (tf_A s) m\<rparr>)"
    using conn_step.sender[of rt c ?g m w pa onwire sk] do room ok by (simp add: conn_of_def)
  from conn_inv_step[OF this g] have "conn_inv onwire sk pa (?g\<lparr>sys_A := m, sys_io := w, sys_written := W @ new_bytes sk c (tf_A s) m\<rparr>)" .
  then have "conn_inv onwire sk pa (conn_of (s\<lparr>tf_A := m, tf_io := w'\<rparr>) (W @ new_bytes sk c (tf_A s) m) rd)"
    using w' by (simp add: conn_of_def conn_inv_def)
  moreover have "tm_addr m = tm_addr (tf_A s)"
    using tcp_do_addr[OF conn_invD(1)[OF inv], of rt c w0] do by simp
  ultimately show ?thesis by blast
qed

lemma transfer_client_step:
  assumes inv: "transfer_inv onwire pa n amt s" and room: "man_room (tf_A s)" and run: "0 < tc_interval (tf_client s)"
    and r: "client_execute rt (tm_addr (tf_A s)) (tf_client s) (tf_A s) (tf_io s) = (Inr c', m', w')"
  shows "transfer_inv onwire pa n amt (s\<lparr>tf_client := c', tf_A := m', tf_io := w'\<rparr>)"
proof -
  let ?c = "tf_client s" and ?sk = "tc_sock (tf_client s)"
  obtain W rd where n: "0 < n" and ci: "conn_inv onwire ?sk pa (conn_of s W rd)" and ca: "client_at n amt W ?c"
    and wa: "worker_at (tm_addr (tf_A s)) pa n W (rd (tw_sock (tf_worker s))) (tf_worker s) (tf_B s)"
    using inv by (rule transfer_invE)
  note wf = conn_invD[OF ci]
  have fin: "transfer_inv onwire pa n amt (s\<lparr>tf_client := c', tf_A := m', tf_io := w'\<rparr>)"
    if "conn_inv onwire ?sk pa (conn_of (s\<lparr>tf_A := m', tf_io := w'\<rparr>) (W @ V) rd) \<and> tm_addr m' = tm_addr (tf_A s)"
      "client_at n amt (W @ V) c'" "tc_sock c' = ?sk" for V
    using that n worker_at_mono[OF wa, of V] unfolding transfer_inv_def
    by (intro conjI exI[of _ "W @ V"] exI[of _ rd]) (simp_all add: conn_of_def)
  from r show ?thesis
  proof (cases rule: client_execute_cases)
    case quiet
    have "conn_inv onwire ?sk pa (conn_of (s\<lparr>tf_A := m', tf_io := w'\<rparr>) W rd) \<and> tm_addr m' = tm_addr (tf_A s)"
      using quiet(1,2) conn_inv_release(1)[OF ci, of ?sk] ci calm_all_addr[OF calm_all_release]
      by (auto simp: conn_of_def conn_inv_def)
    then show ?thesis using fin[of "[]"] client_at_same[OF ca quiet(3)] quiet(3) by (simp add: same_client_def)
  next
    case (close w1)
    have "tcp_do rt (CallClose ?sk) (tf_A s) w1 = (m', w')" using close(1) by simp
    from sender_call[OF ci room this close(2)] wf(3)
    show ?thesis using fin[of "[]"] client_at_same[OF ca close(3)] close(3) by (simp add: same_client_def)
  next
    case (send c1 w1)
    have ca1: "client_at n amt W c1" by (rule client_at_same[OF ca send(3)])
    have c1: "tc_sock c1 = ?sk" "length (tc_buf c1) = n" "client_wf c1" "0 < tc_interval c1"
      using send(3,4) ca1 run by (auto simp: same_client_def client_at_def)
    let ?j = "nat (tc_pos c1) mod n"
    let ?len = "min (int n - int ?j) (tc_amount c1)"
    obtain r0 m1 w2 where wr: "tm_write rt ?sk (Some (pattern_buf n)) (int ?j) ?len (tf_A s) w1 = (r0, m1, w2)"
      and io: "io_rt w' = io_rt w2" and c': "tc_sock c' = ?sk" "tc_buf c' = pattern_buf n"
      and res: "if r0 = - 1 then m' = tm_release ?sk m1 \<and> tc_interval c' = 0 \<and> tc_pos c' = tc_pos c1
         else m' = m1 \<and> tc_interval c' = tc_interval c1 \<and> tc_pos c' = i32 (tc_pos c1 + r0) \<and> tc_amount c' = i32 (tc_amount c1 - r0)"
      using client_send_call[OF send(1) c1(3)] c1(1,2) by metis
    have fits: "int ?j + ?len \<le> int (length (pattern_buf n))" by (simp add: pattern_buf_def)
    obtain l where l: "0 \<le> l" "l \<le> max 0 ?len" "r0 = - 1 \<or> r0 = l" "sndNxt (get_sock ?sk m1) - sndNxt (get_sock ?sk (tf_A s)) = l"
      using tm_write_takes[OF wr wf(1) room wf(3) fits] by blast
    let ?V = "take (nat l) (drop ?j (pattern_buf n))"
    have "tcp_do rt (CallWrite ?sk (pattern_buf n) (int ?j) ?len) (tf_A s) w1 = (m1, w2)" using wr by simp
    from sender_call[OF ci room this send(2) _ _ io]
    have g1: "conn_inv onwire ?sk pa (conn_of (s\<lparr>tf_A := m1, tf_io := w'\<rparr>) (W @ ?V) rd)" "tm_addr m1 = tm_addr (tf_A s)"
      using wf(3) fits l(4) by simp_all
    have "conn_inv onwire ?sk pa (conn_of (s\<lparr>tf_A := m', tf_io := w'\<rparr>) (W @ ?V) rd) \<and> tm_addr m' = tm_addr (tf_A s)"
      using g1 res conn_inv_release(1)[OF g1(1), of ?sk] calm_all_addr[OF calm_all_release]
      by (cases "r0 = - 1") (auto simp: conn_of_def)
    moreover have "client_at n amt (W @ ?V) c'"
      by (rule client_at_send[OF ca1 c1(4) n l(1,2) refl, of c' r0]) (use c' c1(1) res l(3) in auto)
    ultimately show ?thesis using fin[of ?V] c'(1) by blast
  qed
qed

lemma transfer_worker_step:
  assumes inv: "transfer_inv onwire pa n amt s"
    and r: "worker_execute rt (tm_addr (tf_B s)) (tf_worker s) (tf_B s) (tf_io s) = (Inr k', m', w')"
  shows "transfer_inv onwire pa n amt (s\<lparr>tf_worker := k', tf_B := m', tf_io := w'\<rparr>)"
proof -
  let ?k = "tf_worker s" and ?i = "tw_sock (tf_worker s)" and ?a = "tm_addr (tf_A s)" and ?sk = "tc_sock (tf_client s)"
  obtain W rd where n: "0 < n" and ci: "conn_inv onwire ?sk pa (conn_of s W rd)" and ca: "client_at n amt W (tf_client s)"
    and wa: "worker_at ?a pa n W (rd ?i) ?k (tf_B s)"
    using inv by (rule transfer_invE)
  note wf = conn_invD[OF ci]
  have k: "length (tw_buf ?k) = n" "0 \<le> tw_pos ?k" "?i < length (allSockets (tf_B s))" using wa by (auto simp: worker_at_def)
  have swf: "sock_wf (get_sock ?i (tf_B s))" using man_wfD(1)[OF wf(2) k(3)] by (simp add: sock_ok_def)
  obtain l bs m1 where rd: "tm_read ?i True (int (nat (tw_pos ?k) mod n)) (int n - int (nat (tw_pos ?k) mod n)) (tf_B s) = ((l, bs), m1)"
    by (metis prod.collapse)
  let ?rd = "rd(?i := rd ?i @ bs)"
  have fin: "transfer_inv onwire pa n amt (s\<lparr>tf_worker := k', tf_B := m', tf_io := w'\<rparr>)"
    if "conn_inv onwire ?sk pa (conn_of (s\<lparr>tf_B := m', tf_io := w'\<rparr>) W rd')" "worker_at ?a pa n W (rd' ?i) k' m'" "tw_sock k' = ?i" for rd'
    using that n ca unfolding transfer_inv_def
    by (intro conjI exI[of _ W] exI[of _ rd']) (simp_all add: conn_of_def)
  have ci1: "conn_inv onwire ?sk pa (conn_of (s\<lparr>tf_B := m1, tf_io := w'\<rparr>) W ?rd)" if "io_rt w' = io_rt (tf_io s)"
    using ci receiver_inv_read[of ?a pa W rd "tf_B s" ?i "int (nat (tw_pos ?k) mod n)" "int n - int (nat (tw_pos ?k) mod n)"] rd k(3) that
    by (auto simp: conn_inv_def conn_of_def)
  note wa1 = worker_at_read[OF wa rd]
  show ?thesis
  proof (cases "isClosed (get_sock ?i (tf_B s)) \<or> l = - 1")
    case True
    note st = worker_stops[OF k(1) n k(2) swf r rd True]
    from st consider (same) "m' = tf_B s" | (rel) "m' = tm_release ?i m1" "bs = []" by blast
    then show ?thesis
    proof cases
      case same
      then show ?thesis using fin[of rd] st ci wa by (simp add: conn_of_def conn_inv_def worker_at_def)
    next
      case rel
      have "conn_inv onwire ?sk pa (conn_of (s\<lparr>tf_B := m', tf_io := w'\<rparr>) W ?rd)"
        using conn_inv_release(2)[OF ci1, of ?i] st rel(1) by (simp add: conn_of_def)
      moreover have "worker_at ?a pa n W (?rd ?i) k' m'"
        using worker_at_frame[OF wa1[of k'] rcv_frame_calm[OF calm_all_release] rcv_frame_calm[OF calm_all_release], of ?i] st rel wa
        by (simp add: worker_at_def)
      ultimately show ?thesis using fin st by blast
    qed
  next
    case False
    have W: "W = pattern_slice n 0 (length W)" using ca by (simp add: client_at_def)
    obtain k2 where k2: "worker_execute rt (tm_addr (tf_B s)) ?k (tf_B s) (tf_io s) = (Inr k2, m1, tf_io s)" "tw_sock k2 = ?i"
      "length (tw_buf k2) = n" "tw_pos k2 = tw_pos ?k + l" "l = int (length bs)"
      by (rule worker_round[OF wa n W _ swf _ rd]) (use wf(4) False in auto)
    have e: "k' = k2" "m' = m1" "w' = tf_io s" using r k2(1) by auto
    have "tw_pos k' = int (length (rd ?i @ bs))" using k2 wa e by (simp add: worker_at_def)
    then show ?thesis using fin[OF _ _ _] ci1 wa1[of k'] e k2 by (metis fun_upd_same)
  qed
qed

lemma transfer_inv_step:
  assumes step: "transfer_step rt onwire pa s s'" and inv: "transfer_inv onwire pa n amt s"
  shows "transfer_inv onwire pa n amt s'"
proof -
  let ?a = "tm_addr (tf_A s)" and ?sk = "tc_sock (tf_client s)" and ?k = "tf_worker s"
  obtain W rd where n: "0 < n" and ci: "conn_inv onwire ?sk pa (conn_of s W rd)" and ca: "client_at n amt W (tf_client s)"
    and wa: "worker_at ?a pa n W (rd (tw_sock ?k)) ?k (tf_B s)"
    using inv by (rule transfer_invE)
  note wf = conn_invD[OF ci]
  from step show ?thesis
  proof cases
    case (client c m w)
    then show ?thesis using transfer_client_step[OF inv] by blast
  next
    case (worker k m w)
    then show ?thesis using transfer_worker_step[OF inv] by blast
  next
    case (sender c m w)
    have "new_bytes ?sk c (tf_A s) m = []" using sender(6) by (cases c) auto
    then have "conn_inv onwire ?sk pa (conn_of s' W rd) \<and> tm_addr m = ?a"
      using sender_call[OF ci sender(4,2) refl sender(3,5) refl] sender(1) by simp
    then show ?thesis using n ca wa sender(1) by (auto simp: transfer_inv_def)
  next
    case (receiver c m w)
    have dat: "seg_in W (tp_seqNum t) (tp_payload t)"
      if "c = CallReceive src t" "src = ?a" "tp_type t = DATA" "tp_srcPort t = pa" for src t
      using receiver(5) that ci by (auto simp: conn_inv_def conn_of_def data_ok_def)
    let ?g = "conn_of s W rd"
    let ?rd = "read_bytes c (tf_B s) rd"
    have "conn_step rt onwire ?sk pa ?g (?g\<lparr>sys_B := m, sys_io := w, sys_read := ?rd\<rparr>)"
      using conn_step.receiver[of rt c ?g m w pa onwire ?sk] receiver by (simp add: conn_of_def)
    from conn_inv_step[OF this ci] have "conn_inv onwire ?sk pa (conn_of s' W ?rd)"
      using receiver(1) by (simp add: conn_of_def)
    moreover have "worker_at ?a pa n W (rd (tw_sock ?k)) ?k m"
      using worker_at_other_port[OF wa wf(2) receiver(4) wf(4) receiver(3,2,6)] dat by blast
    moreover have "?rd (tw_sock ?k) = rd (tw_sock ?k)" using receiver(6) by (cases c) auto
    ultimately show ?thesis using n ca receiver(1) unfolding transfer_inv_def
      by (intro conjI exI[of _ W] exI[of _ ?rd]) simp_all
  next
    case (wire w)
    then have "conn_inv onwire ?sk pa (conn_of s' W rd)" using ci by (auto simp: conn_inv_def conn_of_def)
    then show ?thesis using n ca wa wire(1) by (auto simp: transfer_inv_def)
  qed
qed

lemma transfer_inv_run:
  assumes "(transfer_step rt onwire pa)\<^sup>*\<^sup>* s s'" "transfer_inv onwire pa n amt s"
  shows "transfer_inv onwire pa n amt s'"
  using assms by (induction rule: rtranclp_induct) (auto intro: transfer_inv_step)

end


section \<open>Properties\<close>

text \<open>A transfer begins when the handshake is over: the client is on socket 0 of its node, the
  worker on the socket that the listener accepted.\<close>

definition transfer_start :: "'m conn_sys \<Rightarrow> transfer_client \<Rightarrow> transfer_worker \<Rightarrow> 'm transfer_sys" where
  "transfer_start g c k = \<lparr>tf_A = sys_A g, tf_B = sys_B g, tf_io = sys_io g, tf_client = c, tf_worker = k\<rparr>"

lemma transfer_inv_start:
  assumes v: "validAddress a" "validAddress b" "valid_port pa" "valid_port pb" "a \<noteq> b"
    and c: "transfer_client_ctor 0 amount ci n = Inr c" and k: "transfer_worker_ctor 1 wi n = Inr k"
    and n: "0 < n" and amt: "0 \<le> amount" "in_i32 amount"
  shows "transfer_inv (\<lambda>m. set (wr_log m)) pa (nat n) amount (transfer_start (handshake a pa b pb backlog) c k)"
proof -
  let ?g = "handshake a pa b pb backlog"
  obtain w where h: "?g = \<lparr>sys_A = \<lparr>tm_addr = a, allSockets = [client_sock pa b pb], listenersByPort = [], synPendingByKey = [],
        establishedByKey = [(mk_key b pb pa, 0)]\<rparr>,
      sys_B = \<lparr>tm_addr = b,
        allSockets = [enqueueAccepted 1 (tcp_socket_ctor\<lparr>localPort := pb, sk_state := LISTEN, sk_backlog := backlog\<rparr>),
          server_sock pb a pa],
        listenersByPort = [(pb, 0)], synPendingByKey = [], establishedByKey = [(mk_key a pa pb, 1)]\<rparr>,
      sys_io = w, sys_written = [], sys_read = (\<lambda>_. [])\<rparr>"
    using handshake_state[OF v(1-4)] by metis
  let ?s = "transfer_start ?g c k"
  have c': "tc_sock c = 0" "tc_buf c = replicate (nat n) 0" "tc_pos c = 0" "tc_amount c = amount"
    and k': "tw_sock k = 1" "length (tw_buf k) = nat n" "tw_pos k = 0"
    using c k n by (auto simp: transfer_client_ctor_def transfer_worker_ctor_def mk_buf_def)
  have "conn_inv (\<lambda>m. set (wr_log m)) 0 pa (conn_of ?s [] (\<lambda>_. []))"
    using conn_inv_handshake[OF v, of backlog] by (simp add: h conn_of_def transfer_start_def)
  moreover have "client_at (nat n) amount [] c"
    using c' n amt by (auto simp: client_at_def client_wf_def pattern_slice_def in_i32_def)
  moreover have "worker_at a pa (nat n) [] [] k (sys_B ?g)"
    using k' by (simp add: worker_at_def h get_sock_def server_sock_def initAccepted_def recv_ok_def tcp_socket_ctor_def)
  ultimately show ?thesis using n c' k' unfolding transfer_inv_def
    by (intro conjI exI[of _ "[]"] exI[of _ "\<lambda>_. []"]) (simp_all add: transfer_start_def h)
qed

text \<open>C3. End-to-end integrity of a transfer. A client and a worker with buffers of the same size talk
  over a connection; between their rounds the nodes may do anything else to their TCP
  managers, timers fire, and the network loses, duplicates and reorders packets. In every
  state of such a run, whenever the worker's read succeeds, the bytes are the next ones of the
  client's pattern, as many as counted, no more than the client was asked to send, and the
  round goes on and prints nothing: corruption is never reported.\<close>

theorem transfer_integrity:
  assumes "validAddress a" "validAddress b" "valid_port pa" "valid_port pb" "a \<noteq> b"
    and "transfer_client_ctor 0 amount ci n = Inr c" "transfer_worker_ctor 1 wi n = Inr k"
    and "0 < n" "0 \<le> amount" "in_i32 amount"
    and "(transfer_step wire_rt (\<lambda>m. set (wr_log m)) pa)\<^sup>*\<^sup>* (transfer_start (handshake a pa b pb backlog) c k) s"
    and "\<not> isClosed (get_sock (tw_sock (tf_worker s)) (tf_B s))"
    and "tm_read (tw_sock (tf_worker s)) True (tw_pos (tf_worker s) mod n) (n - tw_pos (tf_worker s) mod n) (tf_B s) =
       ((num, bs), m)" "num \<noteq> - 1"
  shows "\<exists>k'. worker_execute wire_rt addr (tf_worker s) (tf_B s) (tf_io s) = (Inr k', m, tf_io s) \<and>
    tw_interval k' = tw_interval (tf_worker s) \<and> tw_pos k' = tw_pos (tf_worker s) + int (length bs) \<and>
    bs = pattern_slice (nat n) (nat (tw_pos (tf_worker s))) (length bs) \<and> tw_pos k' \<le> amount"
proof -
  let ?k = "tf_worker s"
  have "transfer_inv (\<lambda>m. set (wr_log m)) pa (nat n) amount s"
    using wire.transfer_inv_run[OF assms(11) transfer_inv_start[OF assms(1-10)]] .
  then obtain W rd where n: "0 < nat n" and ci: "conn_inv (\<lambda>m. set (wr_log m)) (tc_sock (tf_client s)) pa (conn_of s W rd)"
    and ca: "client_at (nat n) amount W (tf_client s)"
    and wa: "worker_at (tm_addr (tf_A s)) pa (nat n) W (rd (tw_sock ?k)) ?k (tf_B s)" by (rule transfer_invE)
  have k: "tw_sock ?k < length (allSockets (tf_B s))" "0 \<le> tw_pos ?k" "tw_pos ?k = int (length (rd (tw_sock ?k)))"
    using wa by (auto simp: worker_at_def)
  have swf: "sock_wf (get_sock (tw_sock ?k) (tf_B s))" using man_wfD(1)[OF conn_invD(2)[OF ci] k(1)] by (simp add: sock_ok_def)
  have idx: "int (nat (tw_pos ?k) mod nat n) = tw_pos ?k mod n" "int (nat n) = n" using k(2) assms(8) by (simp_all add: zmod_int)
  have rd: "tm_read (tw_sock ?k) True (int (nat (tw_pos ?k) mod nat n)) (int (nat n) - int (nat (tw_pos ?k) mod nat n)) (tf_B s) = ((num, bs), m)"
    unfolding idx by (rule assms(13))
  have W: "W = pattern_slice (nat n) 0 (length W)" "int (length W) \<le> amount" "int (length W) < 2 ^ 31"
    using ca conn_invD(4)[OF ci] by (auto simp: client_at_def)
  obtain k' where "worker_execute wire_rt addr ?k (tf_B s) (tf_io s) = (Inr k', m, tf_io s)"
      "tw_interval k' = tw_interval ?k" "tw_pos k' = tw_pos ?k + num" "num = int (length bs)"
      "bs = pattern_slice (nat n) (nat (tw_pos ?k)) (length bs)" "prefix (rd (tw_sock ?k) @ bs) W"
    by (rule worker_round[OF wa n W(1,3) swf assms(12), of num bs m wire_rt addr "tf_io s"]) (use rd assms(14) in auto)
  moreover from this(6) have "length (rd (tw_sock ?k) @ bs) \<le> length W" by (rule prefix_length_le)
  ultimately show ?thesis using W(2) k(3) by auto
qed


text \<open>A run: a client with a buffer of four bytes writes the first four of six, the worker's node
  gets the segment.\<close>

definition demo_transfer :: "wire transfer_sys" where
  "demo_transfer = transfer_start (handshake 1 10 2 20 5)
     \<lparr>tc_interval = 1000, tc_sock = 0, tc_buf = [0, 0, 0, 0], tc_amount = 6, tc_startTime = 0, tc_finishTime = 0, tc_pos = 0\<rparr>
     \<lparr>tw_interval = 1000, tw_sock = 1, tw_buf = [0, 0, 0, 0], tw_pos = 0\<rparr>"

definition client_do :: "'m runtime \<Rightarrow> 'm transfer_sys \<Rightarrow> 'm transfer_sys" where
  "client_do rt s =
     (case client_execute rt (tm_addr (tf_A s)) (tf_client s) (tf_A s) (tf_io s) of
        (Inl _, _) \<Rightarrow> s | (Inr c, m, w) \<Rightarrow> s\<lparr>tf_client := c, tf_A := m, tf_io := w\<rparr>)"

definition demo_transfer1 :: "wire transfer_sys" where "demo_transfer1 = client_do wire_rt demo_transfer"

definition demo_seg :: transport where
  "demo_seg = \<lparr>tp_srcPort = 10, tp_destPort = 20, tp_type = DATA, tp_window = 0, tp_seqNum = 1, tp_payload = [0, 1, 2, 3]\<rparr>"

definition demo_transfer2 :: "wire transfer_sys" where
  "demo_transfer2 = (let (m, w) = tcp_do wire_rt (CallReceive 1 demo_seg) (tf_B demo_transfer1) (tf_io demo_transfer1)
     in demo_transfer1\<lparr>tf_B := m, tf_io := w\<rparr>)"

lemma demo_transfer_reached:
  "(transfer_step wire_rt (\<lambda>m. set (wr_log m)) 10)\<^sup>*\<^sup>* demo_transfer demo_transfer2"
proof -
  have auth: "authentic (tm_addr (tf_A demo_transfer1)) 10 (set (wr_log (io_rt (tf_io demo_transfer1)))) (CallReceive 1 demo_seg)"
    by code_simp
  have "transfer_step wire_rt (\<lambda>m. set (wr_log m)) 10 demo_transfer demo_transfer1"
  proof -
    let ?x = "client_execute wire_rt (tm_addr (tf_A demo_transfer)) (tf_client demo_transfer) (tf_A demo_transfer) (tf_io demo_transfer)"
    have "isl (fst ?x) = False" by code_simp
    then obtain c m w where x: "?x = (Inr c, m, w)" by (metis isl_def prod.collapse sum.exhaust)
    have "0 < tc_interval (tf_client demo_transfer)" "man_room (tf_A demo_transfer)" by code_simp+
    from transfer_step.client[OF x this] show ?thesis by (simp add: demo_transfer1_def client_do_def x)
  qed
  moreover have "transfer_step wire_rt (\<lambda>m. set (wr_log m)) 10 demo_transfer1 demo_transfer2"
    unfolding demo_transfer2_def split_beta Let_def
    by (rule transfer_step.receiver[where onwire = "\<lambda>m. set (wr_log m)", OF prod.collapse[symmetric]])
       (code_simp, code_simp, rule auth, code_simp)
  ultimately show ?thesis by (meson converse_rtranclp_into_rtranclp rtranclp.rtrancl_refl)
qed

theorem transfer_integrity_witness:
  "\<exists>k'. fst (worker_execute wire_rt 2 (tf_worker demo_transfer2) (tf_B demo_transfer2) (tf_io demo_transfer2)) = Inr k' \<and>
     tw_interval k' = 1000 \<and> tw_pos k' = 4"
proof -
  let ?s = demo_transfer2
  let ?k = "tf_worker ?s"
  let ?rd = "tm_read (tw_sock ?k) True (tw_pos ?k mod 4) (4 - tw_pos ?k mod 4) (tf_B ?s)"
  have rd: "fst ?rd = (4, [0, 1, 2, 3])" by code_simp
  have e: "?rd = ((4, [0, 1, 2, 3]), snd ?rd)" unfolding rd[symmetric] by (rule prod.collapse[symmetric])
  have c: "transfer_client_ctor 0 6 1000 4 = Inr (tf_client demo_transfer)" and k: "transfer_worker_ctor 1 1000 4 = Inr (tf_worker demo_transfer)"
    by (simp_all add: transfer_client_ctor_def transfer_worker_ctor_def mk_buf_def setInterval_def demo_transfer_def transfer_start_def
        numeral_eq_Suc)
  have v: "validAddress 1" "validAddress 2" "valid_port 10" "valid_port 20"
    by (simp_all add: validAddress_def valid_port_def cxx_const)
  have st: "demo_transfer = transfer_start (handshake 1 10 2 20 5) (tf_client demo_transfer) (tf_worker demo_transfer)"
    by (simp add: demo_transfer_def transfer_start_def)
  have run: "(transfer_step wire_rt (\<lambda>m. set (wr_log m)) 10)\<^sup>*\<^sup>*
      (transfer_start (handshake 1 10 2 20 5) (tf_client demo_transfer) (tf_worker demo_transfer)) ?s"
    by (subst st[symmetric]) (rule demo_transfer_reached)
  have op: "\<not> isClosed (get_sock (tw_sock ?k) (tf_B ?s))" "tw_interval ?k = 1000" "tw_pos ?k = 0" by code_simp+
  have i: "in_i32 6" by (simp add: in_i32_def)
  from transfer_integrity[OF v _ c k _ _ i run op(1) e, of 2] op(2,3) show ?thesis by auto
qed

end
