(* ===== verification/Topology.thy ===== *)
theory Topology
  imports Links
begin

text \<open>
  \<open>Topology\<close> (\<open>sim/topology.cpp\<close>): the edges and the failed nodes. An \<open>Edge*\<close> is
  an index into the vector of edges, which is never shrunk, so an index stays valid. With
  \<open>allToAll_\<close> a lookup creates the missing edge. Each new edge takes the next seed of
  \<open>std::random_device\<close>, the field \<open>t_seeds\<close>. The abstraction \<open>topo_view\<close> is a map
  from unordered pairs of nodes to the options and state of their edge.
\<close>

record topology =
  edges :: "edge list"
  failedNodes :: "int set"
  allToAll :: bool
  t_seeds :: "nat \<Rightarrow> nat \<Rightarrow> rat"
  t_seeds_used :: nat

definition topology_ctor :: "bool \<Rightarrow> (nat \<Rightarrow> nat \<Rightarrow> rat) \<Rightarrow> topology" where
  "topology_ctor a2a seeds =
     \<lparr>edges = [], failedNodes = {}, allToAll = a2a, t_seeds = seeds, t_seeds_used = 0\<rparr>"

text \<open>The singleton: the value behind \<open>instancePtr\<close> is passed and returned. The argument of \<open>instance\<close>
  only matters when there is none yet.\<close>

definition topology_instance :: "bool \<Rightarrow> (nat \<Rightarrow> nat \<Rightarrow> rat) \<Rightarrow> topology option \<Rightarrow> topology \<times> topology option" where
  "topology_instance a2a seeds ptr =
     (case ptr of None \<Rightarrow> (topology_ctor a2a seeds, Some (topology_ctor a2a seeds)) | Some t \<Rightarrow> (t, ptr))"

definition topology_reset :: "topology option \<Rightarrow> topology option" where
  "topology_reset ptr = None"

lemma topology_instance_after_reset:
  "fst (topology_instance a2a seeds (topology_reset ptr)) = topology_ctor a2a seeds"
  by (simp add: topology_instance_def topology_reset_def)

lemma topology_instance_same:
  "topology_instance b seeds' (snd (topology_instance a2a seeds ptr)) =
     (fst (topology_instance a2a seeds ptr), Some (fst (topology_instance a2a seeds ptr)))"
  by (cases ptr) (simp_all add: topology_instance_def)

fun find_edge :: "edge list \<Rightarrow> int \<Rightarrow> int \<Rightarrow> nat option" where
  "find_edge [] a b = None"
| "find_edge (e # es) a b = (if isEdge e a b then Some 0 else map_option Suc (find_edge es a b))"

definition push_edge :: "int \<Rightarrow> int \<Rightarrow> edge_options \<Rightarrow> topology \<Rightarrow> topology" where
  "push_edge a b options t =
     t\<lparr>edges := edges t @ [edge_ctor a b options (t_seeds t (t_seeds_used t))],
       t_seeds_used := Suc (t_seeds_used t)\<rparr>"

definition getEdge :: "int \<Rightarrow> int \<Rightarrow> topology \<Rightarrow> nat option \<times> topology" where
  "getEdge a b t =
     (case find_edge (edges t) a b of
        Some i \<Rightarrow> (Some i, t)
      | None \<Rightarrow> if allToAll t
                then (Some (length (edges t)), push_edge a b default_edge_options t)
                else (None, t))"

definition isNodeAlive :: "int \<Rightarrow> topology \<Rightarrow> bool" where
  "isNodeAlive node t \<longleftrightarrow> node \<notin> failedNodes t"

definition getLiveEdge :: "int \<Rightarrow> int \<Rightarrow> topology \<Rightarrow> nat option \<times> topology" where
  "getLiveEdge a b t =
     (case getEdge a b t of
        (None, t') \<Rightarrow> (None, t')
      | (Some i, t') \<Rightarrow>
          if \<not> e_live (edges t' ! i) \<or> \<not> isNodeAlive a t' \<or> \<not> isNodeAlive b t'
          then (None, t') else (Some i, t'))"

definition update_edge :: "nat \<Rightarrow> (edge \<Rightarrow> edge) \<Rightarrow> topology \<Rightarrow> topology" where
  "update_edge i f t = t\<lparr>edges := (edges t)[i := f (edges t ! i)]\<rparr>"

definition newEdge :: "int \<Rightarrow> int \<Rightarrow> edge_options \<Rightarrow> topology \<Rightarrow> topology" where
  "newEdge a b options t =
     (case getEdge a b t of
        (Some i, t') \<Rightarrow> update_edge i (\<lambda>e. e\<lparr>e_options := options\<rparr>) t'
      | (None, t') \<Rightarrow> push_edge a b options t')"

definition changeEdge :: "int \<Rightarrow> int \<Rightarrow> bool \<Rightarrow> topology \<Rightarrow> bool \<times> topology" where
  "changeEdge a b state t =
     (case getEdge a b t of
        (Some i, t') \<Rightarrow> (True, update_edge i (\<lambda>e. e\<lparr>e_live := state\<rparr>) t')
      | (None, t') \<Rightarrow> (False, t'))"

definition failEdge :: "int \<Rightarrow> int \<Rightarrow> topology \<Rightarrow> bool \<times> topology" where
  "failEdge a b t = changeEdge a b False t"

definition restartEdge :: "int \<Rightarrow> int \<Rightarrow> topology \<Rightarrow> bool \<times> topology" where
  "restartEdge a b t = changeEdge a b True t"

definition failNode :: "int \<Rightarrow> topology \<Rightarrow> topology" where
  "failNode a t = t\<lparr>failedNodes := insert a (failedNodes t)\<rparr>"

definition restartNode :: "int \<Rightarrow> topology \<Rightarrow> topology" where
  "restartNode a t = t\<lparr>failedNodes := failedNodes t - {a}\<rparr>"

section \<open>The abstract view: a map on unordered pairs\<close>

definition ends :: "edge \<Rightarrow> int set" where
  "ends e = {e_a e, e_b e}"

fun view_list :: "edge list \<Rightarrow> int set \<Rightarrow> (edge_options \<times> bool) option" where
  "view_list [] p = None"
| "view_list (e # es) p = (if ends e = p then Some (e_options e, e_live e) else view_list es p)"

definition topo_view :: "topology \<Rightarrow> int set \<Rightarrow> (edge_options \<times> bool) option" where
  "topo_view t = view_list (edges t)"

text \<open>No two edges join the same pair.\<close>

definition topo_wf :: "topology \<Rightarrow> bool" where
  "topo_wf t \<longleftrightarrow> distinct (map ends (edges t))"

section \<open>Facts\<close>

lemma isEdge_ends: "isEdge e a b \<longleftrightarrow> ends e = {a, b}"
  by (auto simp: isEdge_def ends_def doubleton_eq_iff)

lemma find_edge_Some:
  "find_edge es a b = Some i \<Longrightarrow> i < length es \<and> ends (es ! i) = {a, b} \<and>
     view_list es {a, b} = Some (e_options (es ! i), e_live (es ! i))"
  by (induction es arbitrary: i) (auto simp: isEdge_ends split: if_splits)

lemma find_edge_None: "find_edge es a b = None \<longleftrightarrow> {a, b} \<notin> ends ` set es"
  by (induction es) (auto simp: isEdge_ends)

lemma find_edge_sym: "find_edge es a b = find_edge es b a"
  by (induction es) (auto simp: isEdge_ends insert_commute)

lemma view_list_None: "view_list es p = None \<longleftrightarrow> p \<notin> ends ` set es"
  by (induction es) auto

lemma view_list_append:
  "view_list (es @ fs) p = (case view_list es p of None \<Rightarrow> view_list fs p | Some x \<Rightarrow> Some x)"
  by (induction es) auto

lemma ends_edge_ctor [simp]: "ends (edge_ctor a b opt r) = {a, b}"
  by (simp add: ends_def edge_ctor_def)

lemma view_list_update:
  assumes "distinct (map ends es)" "i < length es" "ends e = ends (es ! i)"
  shows "view_list (es[i := e]) = (view_list es)(ends e \<mapsto> (e_options e, e_live e))"
  using assms
proof (induction es arbitrary: i)
  case (Cons f fs)
  then show ?case
    by (cases i) (auto simp: fun_eq_iff view_list_None)
qed simp

lemma view_list_nth:
  assumes "distinct (map ends es)" "i < length es"
  shows "view_list es (ends (es ! i)) = Some (e_options (es ! i), e_live (es ! i))"
  using assms by (induction es arbitrary: i) (auto simp: nth_Cons split: nat.splits)

lemma map_ends_update: "i < length es \<Longrightarrow> ends e = ends (es ! i) \<Longrightarrow> map ends (es[i := e]) = map ends es"
  by (metis list_update_id map_update nth_map)

section \<open>Liveness of edges\<close>

definition edge_live :: "topology \<Rightarrow> int \<Rightarrow> int \<Rightarrow> bool" where
  "edge_live t a b \<longleftrightarrow> fst (getLiveEdge a b t) \<noteq> None"

text \<open>The state of the edge between two nodes. With \<open>allToAll_\<close> every pair has one, the
  default one until it is declared, whether or not a lookup has created it.\<close>

definition edge_state :: "topology \<Rightarrow> int \<Rightarrow> int \<Rightarrow> (edge_options \<times> bool) option" where
  "edge_state t a b =
     (case topo_view t {a, b} of
        Some x \<Rightarrow> Some x
      | None \<Rightarrow> if allToAll t then Some (default_edge_options, True) else None)"

locale live_graph =
  fixes invar :: "'t \<Rightarrow> bool"
    and state :: "'t \<Rightarrow> int \<Rightarrow> int \<Rightarrow> (edge_options \<times> bool) option"
    and alive :: "'t \<Rightarrow> int \<Rightarrow> bool"
    and live :: "'t \<Rightarrow> int \<Rightarrow> int \<Rightarrow> bool"
    and query :: "int \<Rightarrow> int \<Rightarrow> 't \<Rightarrow> nat option \<times> 't"
    and declare_edge :: "int \<Rightarrow> int \<Rightarrow> edge_options \<Rightarrow> 't \<Rightarrow> 't"
    and change :: "int \<Rightarrow> int \<Rightarrow> bool \<Rightarrow> 't \<Rightarrow> bool \<times> 't"
    and fail :: "int \<Rightarrow> 't \<Rightarrow> 't"
    and restart :: "int \<Rightarrow> 't \<Rightarrow> 't"
  assumes state_sym: "state t a b = state t b a"
    and live_query: "live t a b \<longleftrightarrow> fst (query a b t) \<noteq> None"
    and live_iff: "invar t \<Longrightarrow> live t a b \<longleftrightarrow>
      (\<exists>opt. state t a b = Some (opt, True)) \<and> alive t a \<and> alive t b"
    and query_pure: "invar t \<Longrightarrow> state (snd (query a b t)) = state t \<and> alive (snd (query a b t)) = alive t"
    and declare_state: "invar t \<Longrightarrow> state (declare_edge a b opt t) c d =
      (if {c, d} = {a, b}
       then Some (opt, case state t a b of None \<Rightarrow> True | Some (_, l) \<Rightarrow> l) else state t c d)"
    and declare_alive: "alive (declare_edge a b opt t) = alive t"
    and change_found: "invar t \<Longrightarrow> fst (change a b s t) \<longleftrightarrow> state t a b \<noteq> None"
    and change_state: "invar t \<Longrightarrow> state (snd (change a b s t)) c d =
      (if {c, d} = {a, b} then map_option (\<lambda>(opt, _). (opt, s)) (state t a b) else state t c d)"
    and change_alive: "alive (snd (change a b s t)) = alive t"
    and fail_alive: "alive (fail a t) = (alive t)(a := False)"
    and restart_alive: "alive (restart a t) = (alive t)(a := True)"
    and fail_state: "state (fail a t) = state t"
    and restart_state: "state (restart a t) = state t"
    and invar_query: "invar t \<Longrightarrow> invar (snd (query a b t))"
    and invar_declare: "invar t \<Longrightarrow> invar (declare_edge a b opt t)"
    and invar_change: "invar t \<Longrightarrow> invar (snd (change a b s t))"
    and invar_fail: "invar t \<Longrightarrow> invar (fail a t)"
    and invar_restart: "invar t \<Longrightarrow> invar (restart a t)"
begin

lemma state_pair: "{c, d} = {a, b} \<Longrightarrow> state t c d = state t a b"
  by (auto simp: doubleton_eq_iff state_sym)

lemma live_sym: "invar t \<Longrightarrow> live t a b \<longleftrightarrow> live t b a"
  by (auto simp: live_iff state_sym[of t a b])

lemma fail_edge_cuts: "invar t \<Longrightarrow> \<not> live (snd (change a b False t)) a b"
  by (auto simp: live_iff invar_change change_state)

lemma restart_edge_restores:
  "invar t \<Longrightarrow> live t c d \<Longrightarrow>
     live (snd (change a b True (snd (change a b False t)))) c d"
  using state_pair[of c d a b t]
  by (auto simp: live_iff invar_change change_state change_alive split: if_splits) metis

lemma fail_node_cuts: "invar t \<Longrightarrow> \<not> live (fail a t) a b \<and> \<not> live (fail a t) b a"
  by (simp add: live_iff invar_fail fail_alive)

lemma node_failure_local:
  "invar t \<Longrightarrow> c \<noteq> a \<Longrightarrow> d \<noteq> a \<Longrightarrow> live (fail a t) c d \<longleftrightarrow> live t c d"
  by (simp add: live_iff invar_fail fail_alive fail_state)

lemma restart_node_restores: "invar t \<Longrightarrow> alive t a \<Longrightarrow> live (restart a (fail a t)) c d \<longleftrightarrow> live t c d"
  by (auto simp: live_iff invar_fail invar_restart fail_alive restart_alive fail_state restart_state)

lemma declared_edge_live:
  "invar t \<Longrightarrow> state t a b = None \<Longrightarrow> alive t a \<Longrightarrow> alive t b \<Longrightarrow> live (declare_edge a b opt t) a b"
  by (simp add: live_iff invar_declare declare_state declare_alive)

end

lemma topo_wf_push:
  "topo_wf t \<Longrightarrow> find_edge (edges t) a b = None \<Longrightarrow> topo_wf (push_edge a b opt t)"
  by (simp add: topo_wf_def push_edge_def find_edge_None)

lemma view_push:
  "find_edge (edges t) a b = None \<Longrightarrow>
     topo_view (push_edge a b opt t) = (topo_view t)({a, b} \<mapsto> (opt, True))"
  unfolding find_edge_None view_list_None[symmetric]
  by (auto simp: topo_view_def push_edge_def view_list_append fun_eq_iff split: option.splits)
    (simp_all add: edge_ctor_def)

lemma push_edge_sel [simp]:
  "failedNodes (push_edge a b opt t) = failedNodes t" "allToAll (push_edge a b opt t) = allToAll t"
  by (simp_all add: push_edge_def)

text \<open>What a lookup returns: an edge of the pair, and a topology that reads the same.\<close>

lemma getEdge_spec:
  assumes "topo_wf t" "getEdge a b t = (r, t')"
  shows "topo_wf t'" "edge_state t' = edge_state t" "failedNodes t' = failedNodes t"
    "allToAll t' = allToAll t"
    "case r of None \<Rightarrow> edge_state t a b = None \<and> t' = t \<and> find_edge (edges t) a b = None
     | Some i \<Rightarrow> i < length (edges t') \<and> ends (edges t' ! i) = {a, b} \<and>
         topo_view t' {a, b} = Some (e_options (edges t' ! i), e_live (edges t' ! i)) \<and>
         edge_state t a b = Some (e_options (edges t' ! i), e_live (edges t' ! i))"
proof -
  consider (found) i where "find_edge (edges t) a b = Some i"
    | (miss) "find_edge (edges t) a b = None" by fastforce
  note cases = this
  show "topo_wf t'"
    using assms by (cases rule: cases) (auto simp: getEdge_def topo_wf_push split: if_splits)
  have no_view: "topo_view t {a, b} = None" if "find_edge (edges t) a b = None"
    using that by (simp add: topo_view_def view_list_None find_edge_None)
  show "edge_state t' = edge_state t"
  proof (cases rule: cases)
    case miss
    with assms(2) no_view[OF miss] show ?thesis
      by (auto simp: getEdge_def edge_state_def fun_eq_iff view_push split: if_splits)
  qed (use assms(2) in \<open>auto simp: getEdge_def\<close>)
  show "failedNodes t' = failedNodes t" "allToAll t' = allToAll t"
    using assms by (cases rule: cases; auto simp: getEdge_def split: if_splits)+
  show "case r of None \<Rightarrow> edge_state t a b = None \<and> t' = t \<and> find_edge (edges t) a b = None
     | Some i \<Rightarrow> i < length (edges t') \<and> ends (edges t' ! i) = {a, b} \<and>
         topo_view t' {a, b} = Some (e_options (edges t' ! i), e_live (edges t' ! i)) \<and>
         edge_state t a b = Some (e_options (edges t' ! i), e_live (edges t' ! i))"
  proof (cases rule: cases)
    case (found i)
    then have "r = Some i" "t' = t" using assms(2) by (auto simp: getEdge_def)
    with find_edge_Some[OF found] show ?thesis
      by (simp add: edge_state_def topo_view_def)
  next
    case miss
    with no_view[OF miss] assms(2) show ?thesis
      by (auto simp: getEdge_def edge_state_def view_push push_edge_def edge_ctor_def ends_def
          topo_view_def view_list_append split: if_splits)
  qed
qed

lemma update_edge_spec:
  assumes "topo_wf t" "i < length (edges t)" "ends (edges t ! i) = {a, b}" "ends (f (edges t ! i)) = {a, b}"
  shows "topo_wf (update_edge i f t)"
    "topo_view (update_edge i f t) =
      (topo_view t)({a, b} \<mapsto> (e_options (f (edges t ! i)), e_live (f (edges t ! i))))"
  using assms view_list_update[of "edges t" i "f (edges t ! i)"] map_ends_update[of i "edges t" "f (edges t ! i)"]
  by (simp_all add: topo_wf_def topo_view_def update_edge_def)

lemma update_edge_sel [simp]:
  "failedNodes (update_edge i f t) = failedNodes t" "allToAll (update_edge i f t) = allToAll t"
  by (simp_all add: update_edge_def)

lemma edge_state_update:
  assumes "topo_wf t" "i < length (edges t)" "ends (edges t ! i) = {a, b}" "ends (f (edges t ! i)) = {a, b}"
  shows "edge_state (update_edge i f t) c d =
    (if {c, d} = {a, b} then Some (e_options (f (edges t ! i)), e_live (f (edges t ! i)))
     else edge_state t c d)"
  using update_edge_spec(2)[of t i a b f] assms by (auto simp: edge_state_def)

lemma ends_upd [simp]: "ends (e\<lparr>e_options := x\<rparr>) = ends e" "ends (e\<lparr>e_live := y\<rparr>) = ends e"
  by (simp_all add: ends_def)

lemma newEdge_spec:
  assumes "topo_wf t"
  shows "topo_wf (newEdge a b opt t)"
    "edge_state (newEdge a b opt t) c d =
      (if {c, d} = {a, b}
       then Some (opt, case edge_state t a b of None \<Rightarrow> True | Some (_, l) \<Rightarrow> l)
       else edge_state t c d)"
    "failedNodes (newEdge a b opt t) = failedNodes t"
proof -
  obtain r t' where g: "getEdge a b t = (r, t')" by fastforce
  note spec = getEdge_spec[OF assms g]
  show "topo_wf (newEdge a b opt t)"
    using spec assms update_edge_spec(1)[of t' _ a b]
    by (cases r) (auto simp: newEdge_def g topo_wf_push)
  show "edge_state (newEdge a b opt t) c d =
      (if {c, d} = {a, b}
       then Some (opt, case edge_state t a b of None \<Rightarrow> True | Some (_, l) \<Rightarrow> l)
       else edge_state t c d)"
    using spec edge_state_update[of t' _ a b]
    by (cases r) (auto simp: newEdge_def g edge_state_def view_push)
  show "failedNodes (newEdge a b opt t) = failedNodes t"
    using spec by (cases r) (auto simp: newEdge_def g)
qed

lemma changeEdge_spec:
  assumes "topo_wf t"
  shows "topo_wf (snd (changeEdge a b s t))"
    "fst (changeEdge a b s t) \<longleftrightarrow> edge_state t a b \<noteq> None"
    "edge_state (snd (changeEdge a b s t)) c d =
      (if {c, d} = {a, b} then map_option (\<lambda>(opt, _). (opt, s)) (edge_state t a b)
       else edge_state t c d)"
proof -
  obtain r t' where g: "getEdge a b t = (r, t')" by fastforce
  note spec = getEdge_spec[OF assms g]
  show "topo_wf (snd (changeEdge a b s t))"
    using spec assms update_edge_spec(1)[of t' _ a b]
    by (cases r) (auto simp: changeEdge_def g)
  show "fst (changeEdge a b s t) \<longleftrightarrow> edge_state t a b \<noteq> None"
    using spec by (cases r) (auto simp: changeEdge_def g)
  show "edge_state (snd (changeEdge a b s t)) c d =
      (if {c, d} = {a, b} then map_option (\<lambda>(opt, _). (opt, s)) (edge_state t a b)
       else edge_state t c d)"
    using spec edge_state_update[of t' _ a b]
    by (cases r) (auto simp: changeEdge_def g edge_state_def[of t c d] edge_state_def[of t a b])
qed

lemma getLiveEdge_spec:
  assumes "topo_wf t" "getLiveEdge a b t = (r, t')"
  shows "topo_wf t'" "edge_state t' = edge_state t" "failedNodes t' = failedNodes t"
    "r \<noteq> None \<longleftrightarrow> (\<exists>opt. edge_state t a b = Some (opt, True)) \<and> isNodeAlive a t \<and> isNodeAlive b t"
    "r = Some i \<Longrightarrow> i < length (edges t') \<and> ends (edges t' ! i) = {a, b} \<and>
       e_live (edges t' ! i) \<and> edge_state t a b = Some (e_options (edges t' ! i), True)"
proof -
  obtain r0 t0 where g: "getEdge a b t = (r0, t0)" by fastforce
  have "t' = t0" using assms(2) g by (cases r0) (auto simp: getLiveEdge_def split: if_splits)
  note spec = getEdge_spec[OF assms(1) g, folded \<open>t' = t0\<close>]
  show "topo_wf t'" "edge_state t' = edge_state t" "failedNodes t' = failedNodes t"
    by (rule spec(1-3))+
  show "r \<noteq> None \<longleftrightarrow> (\<exists>opt. edge_state t a b = Some (opt, True)) \<and> isNodeAlive a t \<and> isNodeAlive b t"
    using spec assms(2) g \<open>t' = t0\<close>
    by (cases r0) (auto simp: getLiveEdge_def isNodeAlive_def split: if_splits)
  show "r = Some i \<Longrightarrow> i < length (edges t') \<and> ends (edges t' ! i) = {a, b} \<and>
       e_live (edges t' ! i) \<and> edge_state t a b = Some (e_options (edges t' ! i), True)"
    using spec assms(2) g \<open>t' = t0\<close>
    by (cases r0) (auto simp: getLiveEdge_def split: if_splits)
qed

lemma changeEdge_failedNodes [simp]: "failedNodes (snd (changeEdge a b s t)) = failedNodes t"
  by (auto simp: changeEdge_def getEdge_def split: option.splits prod.splits if_splits)

lemma newEdge_failedNodes [simp]: "failedNodes (newEdge a b opt t) = failedNodes t"
  by (auto simp: newEdge_def getEdge_def split: option.splits)

lemma node_change_sel [simp]:
  "topo_wf (failNode a t) = topo_wf t" "edge_state (failNode a t) = edge_state t"
  "failedNodes (failNode a t) = insert a (failedNodes t)"
  "topo_wf (restartNode a t) = topo_wf t" "edge_state (restartNode a t) = edge_state t"
  "failedNodes (restartNode a t) = failedNodes t - {a}"
  by (simp_all add: failNode_def restartNode_def topo_wf_def edge_state_def topo_view_def fun_eq_iff)

interpretation topo: live_graph topo_wf edge_state "\<lambda>t n. isNodeAlive n t" edge_live getLiveEdge
  newEdge changeEdge failNode restartNode
proof unfold_locales
  show "edge_state t a b = edge_state t b a" for t a b
    by (simp add: edge_state_def insert_commute)
  show "topo_wf t \<Longrightarrow> edge_live t a b \<longleftrightarrow>
      (\<exists>opt. edge_state t a b = Some (opt, True)) \<and> isNodeAlive a t \<and> isNodeAlive b t" for t a b
    using getLiveEdge_spec(4)[of t a b] by (metis edge_live_def prod.collapse)
  show "topo_wf t \<Longrightarrow> edge_state (snd (getLiveEdge a b t)) = edge_state t \<and>
      (\<lambda>n. isNodeAlive n (snd (getLiveEdge a b t))) = (\<lambda>n. isNodeAlive n t)" for t a b
    using getLiveEdge_spec(2,3)[of t a b, OF _ prod.collapse[symmetric]] by (simp add: isNodeAlive_def)
  show "topo_wf t \<Longrightarrow> topo_wf (snd (getLiveEdge a b t))" for t a b
    using getLiveEdge_spec(1)[of t a b, OF _ prod.collapse[symmetric]] by simp
qed (auto simp: newEdge_spec changeEdge_spec edge_live_def isNodeAlive_def fun_eq_iff)

text \<open>A topology that reads the same: same options and states of the edges, same failed nodes.\<close>

definition same_topo :: "topology \<Rightarrow> topology \<Rightarrow> bool" where
  "same_topo t t' \<longleftrightarrow> topo_wf t' \<and> edge_state t' = edge_state t \<and> failedNodes t' = failedNodes t"

lemma same_topo_trans: "same_topo t t1 \<Longrightarrow> same_topo t1 t2 \<Longrightarrow> same_topo t t2"
  by (simp add: same_topo_def)

lemma same_topo_getLiveEdge: "topo_wf t \<Longrightarrow> getLiveEdge a b t = (r, t') \<Longrightarrow> same_topo t t'"
  using getLiveEdge_spec(1-3) by (metis same_topo_def)

lemma same_topo_refl: "topo_wf t \<Longrightarrow> same_topo t t"
  by (simp add: same_topo_def)

section \<open>Properties\<close>

text \<open>C32. Failing and restarting nodes: a failed node has no live edge, other edges are untouched,
  and restarting it brings back exactly the edges that were live.\<close>

theorem node_failure_and_restart:
  assumes "topo_wf t" "isNodeAlive a t"
  shows "\<not> edge_live (failNode a t) a b \<and>
    (edge_live (failNode a t) c d \<longleftrightarrow> edge_live t c d \<and> c \<noteq> a \<and> d \<noteq> a) \<and>
    (edge_live (restartNode a (failNode a t)) c d \<longleftrightarrow> edge_live t c d)"
  using topo.fail_node_cuts[OF assms(1), of a] topo.node_failure_local[OF assms(1), of c a d]
    topo.restart_node_restores[OF assms] by metis

definition demo_topology :: topology where
  "demo_topology = newEdge 1 2 default_edge_options (topology_ctor False (\<lambda>_ _. 0))"

theorem node_failure_and_restart_witness:
  "edge_live demo_topology 2 1 \<and> \<not> edge_live (failNode 1 demo_topology) 2 1 \<and>
     edge_live (restartNode 1 (failNode 1 demo_topology)) 2 1"
proof -
  have wf: "topo_wf demo_topology"
    unfolding demo_topology_def by (intro newEdge_spec(1)) (simp add: topo_wf_def topology_ctor_def)
  have al: "isNodeAlive 1 demo_topology" "edge_live demo_topology 2 1"
    by code_simp+
  show ?thesis using node_failure_and_restart[OF wf al(1), of 2 2 1] al by simp
qed

text \<open>C31. Declaring an edge: its options become the given ones, a new edge is live, an existing one
  keeps its state, in either order of the end points, and no other edge changes.\<close>

theorem newEdge_refines_map:
  assumes "topo_wf t"
  shows "edge_state (newEdge a b opt t) c d =
    (if {c, d} = {a, b}
     then Some (opt, case edge_state t a b of None \<Rightarrow> True | Some (_, l) \<Rightarrow> l)
     else edge_state t c d)"
  by (rule newEdge_spec(2)[OF assms])

theorem newEdge_refines_map_witness:
  "edge_state (newEdge 2 1 (default_edge_options\<lparr>delayMs := 5\<rparr>) (snd (failEdge 1 2 demo_topology))) 1 2 =
     Some (default_edge_options\<lparr>delayMs := 5\<rparr>, False)"
proof -
  have "topo_wf demo_topology"
    unfolding demo_topology_def by (intro newEdge_spec(1)) (simp add: topo_wf_def topology_ctor_def)
  then have wf: "topo_wf (snd (failEdge 1 2 demo_topology))"
    by (simp add: failEdge_def changeEdge_spec(1))
  have "edge_state (snd (failEdge 1 2 demo_topology)) 2 1 = Some (default_edge_options, False)"
    by (simp add: edge_state_def topo_view_def failEdge_def demo_topology_def changeEdge_def getEdge_def newEdge_def
        push_edge_def update_edge_def topology_ctor_def ends_def edge_ctor_def isEdge_def insert_commute)
  then show ?thesis using newEdge_refines_map[OF wf, of 2 1 _ 1 2] by (simp add: insert_commute)
qed

end
