(* ===== verification/Doubles.thy ===== *)
theory Doubles
  imports Text
begin

text \<open>
  Text of floating-point numbers: \<open>std::stod\<close>, \<open>printf("%.*g")\<close> and \<open>javaDouble\<close>
  (\<open>emu/trawler_node_arp_commands.cpp\<close>). A \<open>double\<close> is an exact rational: the rounding of
  a decimal to the nearest binary fraction is not modelled, nor are the infinities, NaN and
  the hexadecimal notation that \<open>stod\<close> accepts too.
\<close>

section \<open>stod\<close>

definition pow10 :: "int \<Rightarrow> rat" where
  "pow10 e = (if 0 \<le> e then 10 ^ nat e else 1 / 10 ^ nat (- e))"

text \<open>An optional sign: whether it is a minus, and what follows.\<close>

definition sign_split :: "string \<Rightarrow> bool \<times> string" where
  "sign_split t =
     (case t of [] \<Rightarrow> (False, [])
      | c # cs \<Rightarrow> if c = CHR ''-'' then (True, cs) else if c = CHR ''+'' then (False, cs) else (False, t))"

text \<open>The exponent part \<open>e[+-]ddd\<close> at the head of a string, 0 when there is none.\<close>

definition exponent_of :: "string \<Rightarrow> int" where
  "exponent_of s =
     (case s of [] \<Rightarrow> 0
      | c # t \<Rightarrow>
          if c = CHR ''e'' \<or> c = CHR ''E'' then
            let (neg, u) = sign_split t; v = digits_val (takeWhile isdigit u)
            in if neg then - v else v
          else 0)"

text \<open>Overflow and underflow, which \<open>strtod\<close> reports as \<open>ERANGE\<close>.\<close>

definition out_of_double :: "rat \<Rightarrow> bool" where
  "out_of_double m \<longleftrightarrow> 2 ^ 1024 - 2 ^ 970 \<le> m \<or> (0 < m \<and> m < 1 / 2 ^ 1022)"

text \<open>An unsigned decimal: digits, an optional fraction, an optional exponent.\<close>

definition fraction_of :: "string \<Rightarrow> string \<times> string" where
  "fraction_of r =
     (case r of [] \<Rightarrow> ([], [])
      | c # cs \<Rightarrow> if c = CHR ''.'' then (takeWhile isdigit cs, dropWhile isdigit cs) else ([], r))"

definition unsigned_decimal :: "string \<Rightarrow> exn + rat" where
  "unsigned_decimal u =
     (let ip = takeWhile isdigit u; (fp, r) = fraction_of (dropWhile isdigit u);
          m = of_int (digits_val (ip @ fp)) * pow10 (exponent_of r - int (length fp))
      in if ip @ fp = [] then Inl (InvalidArgument ''stod'')
         else if out_of_double m then Inl (OutOfRange ''stod'') else Inr m)"

definition stod :: "string \<Rightarrow> exn + rat" where
  "stod s =
     (let (neg, u) = sign_split (dropWhile isspace s)
      in ebind (unsigned_decimal u) (\<lambda>m. Inr (if neg then - m else m)))"

section \<open>printf\<close>

definition round_even :: "rat \<Rightarrow> int" where
  "round_even x =
     (let f = floor x; d = x - of_int f
      in if d < 1 / 2 then f else if 1 / 2 < d then f + 1 else if even f then f else f + 1)"

text \<open>The decimal exponent of a positive number: \<open>10 ^ e \<le> x < 10 ^ (e + 1)\<close>.\<close>

definition exp10_of :: "rat \<Rightarrow> int" where
  "exp10_of x =
     (if 1 \<le> x then int (length (string_of_nat (nat (floor x)))) - 1
      else - int (length (string_of_nat (nat (ceiling (1 / x) - 1)))))"

definition strip_zeros :: "string \<Rightarrow> string" where
  "strip_zeros ds = rev (dropWhile (\<lambda>c. c = CHR ''0'') (rev ds))"

definition with_fraction :: "string \<Rightarrow> string \<Rightarrow> string" where
  "with_fraction ip fp = ip @ (if strip_zeros fp = [] then [] else ''.'' @ strip_zeros fp)"

text \<open>\<open>"%.*g"\<close> with a precision of at least 1.\<close>

definition format_g :: "rat \<Rightarrow> nat \<Rightarrow> string" where
  "format_g v prec =
     (if v = 0 then ''0''
      else
        let x = \<bar>v\<bar>; e0 = exp10_of x; m0 = round_even (x / pow10 (e0 - int prec + 1));
            (m, e) = (if m0 = 10 ^ prec then (m0 div 10, e0 + 1) else (m0, e0));
            ds = string_of_nat (nat m);
            body = (if - 4 \<le> e \<and> e < int prec then
                      if 0 \<le> e then with_fraction (take (nat e + 1) ds) (drop (nat e + 1) ds)
                      else with_fraction ''0'' (replicate (nat (- e) - 1) (CHR ''0'') @ ds)
                    else with_fraction (take 1 ds) (drop 1 ds) @ ''e'' @
                      (if e < 0 then ''-'' else ''+'') @
                      (if \<bar>e\<bar> < 10 then ''0'' else []) @ string_of_nat (nat \<bar>e\<bar>))
        in (if v < 0 then ''-'' else []) @ body)"

section \<open>javaDouble\<close>

text \<open>The loop over the precisions: stop at the first whose text reads back as the number.\<close>

fun shortest :: "rat \<Rightarrow> nat list \<Rightarrow> string \<Rightarrow> string" where
  "shortest d [] s = s"
| "shortest d (prec # ps) s =
     (let s1 = format_g d prec
      in case stod s1 of
           Inl _ \<Rightarrow> shortest d ps s1
         | Inr back \<Rightarrow> if back = d then s1 else shortest d ps s1)"

definition javaDouble :: "rat \<Rightarrow> string" where
  "javaDouble d =
     (let s = shortest d [1..<18] [];
          hasDot = (CHR ''.'' \<in> set s);
          hasExp = (CHR ''e'' \<in> set s \<or> CHR ''E'' \<in> set s)
      in if \<not> hasDot \<and> \<not> hasExp then s @ ''.0'' else s)"

section \<open>Facts\<close>

lemma not_out_of_double:
  assumes m: "m = 0 \<or> 1 / 2 ^ 20 \<le> m \<and> m \<le> 2 ^ 64"
  shows "\<not> out_of_double m"
proof -
  define A B C D :: rat where d: "A = 2 ^ 1023" "B = 2 ^ 970" "C = 2 ^ 64" "D = 1 / 2 ^ 1022"
  have "B \<le> A" unfolding d by (rule power_increasing) simp_all
  moreover have "C < A" "0 < C" unfolding d by (rule power_strict_increasing) simp_all
  moreover have "D \<le> 1 / 2 ^ 20" unfolding d
    by (rule divide_left_mono, rule power_increasing) simp_all
  moreover have "out_of_double m \<longleftrightarrow> 2 * A - B \<le> m \<or> (0 < m \<and> m < D)"
    unfolding out_of_double_def d by (subst power_Suc[symmetric]) simp
  moreover have "m = 0 \<or> 1 / 2 ^ 20 \<le> m \<and> m \<le> C" using m unfolding d .
  ultimately show ?thesis by auto
qed

text \<open>Evaluation of \<open>stod\<close> on a literal.\<close>

lemmas stod_eval = stod_def unsigned_decimal_def sign_split_def fraction_of_def exponent_of_def isspace_def
  isdigit_def digits_val_def digit_val_def pow10_def ebind_def not_out_of_double

text \<open>Numbers with a decimal of at most 17 significant digits.\<close>

definition printable :: "rat \<Rightarrow> bool" where
  "printable d \<longleftrightarrow> list_ex (\<lambda>prec. stod (format_g d prec) = Inr d) [1..<18]"

lemma printableI: "1 \<le> prec \<Longrightarrow> prec < 18 \<Longrightarrow> stod (format_g d prec) = Inr d \<Longrightarrow> printable d"
  unfolding printable_def list_ex_iff by (metis atLeastLessThan_iff atLeastLessThan_upt)

lemma shortest_reads_back:
  "\<exists>prec \<in> set ps. stod (format_g d prec) = Inr d \<Longrightarrow> stod (shortest d ps s) = Inr d"
proof (induction d ps s rule: shortest.induct)
  case (2 d prec ps s)
  show ?case
  proof (cases "stod (format_g d prec) = Inr d")
    case False
    then have "\<exists>prec \<in> set ps. stod (format_g d prec) = Inr d" using "2.prems" by auto
    then show ?thesis using "2.IH"(1)[OF refl] "2.IH"(2)[OF refl] False
      by (cases "stod (format_g d prec)") (auto simp: Let_def)
  qed (simp add: Let_def)
qed simp

lemma shortest_is_format: "ps \<noteq> [] \<Longrightarrow> \<exists>prec \<in> set ps. shortest d ps s = format_g d prec"
proof (induction d ps s rule: shortest.induct)
  case (2 d prec ps s)
  then show ?case by (cases ps) (auto simp: Let_def split: sum.splits)
qed simp

text \<open>Adding \<open>.0\<close> to a number without a point or an exponent does not change it.\<close>

lemma digits_val_append_zero: "digits_val (ds @ [CHR ''0'']) = 10 * digits_val ds"
  by (simp add: digits_val_snoc digit_val_def)

lemma unsigned_decimal_point_zero:
  assumes r: "unsigned_decimal u = Inr d" and no: "CHR ''.'' \<notin> set u" "CHR ''e'' \<notin> set u" "CHR ''E'' \<notin> set u"
  shows "unsigned_decimal (u @ ''.0'') = Inr d"
proof -
  define ip where "ip = takeWhile isdigit u"
  have ipd: "\<forall>x \<in> set ip. isdigit x" unfolding ip_def by (auto dest: set_takeWhileD)
  have dig: "\<not> isdigit (CHR ''.'')" "isdigit (CHR ''0'')" by (simp_all add: isdigit_def)
  show ?thesis
  proof (cases "dropWhile isdigit u")
    case Nil
    then have u: "u = ip" unfolding ip_def by (metis append_Nil2 takeWhile_dropWhile_id)
    have "\<forall>x \<in> set u. isdigit x" using ipd u by simp
    then have tk: "takeWhile isdigit (u @ ''.0'') = u" "dropWhile isdigit (u @ ''.0'') = ''.0''"
      using dig by (simp_all add: takeWhile_append2 dropWhile_append2)
    have t: "takeWhile isdigit u = u" using u unfolding ip_def by simp
    show ?thesis using r unfolding unsigned_decimal_def tk Nil t
      by (simp add: fraction_of_def exponent_of_def pow10_def dig digits_val_append_zero Let_def split: if_splits)
  next
    case (Cons c rs)
    have u: "u = ip @ c # rs" using Cons takeWhile_dropWhile_id[of isdigit u] by (simp add: ip_def)
    have c: "\<not> isdigit c" using Cons hd_dropWhile[of isdigit u] by auto
    have ne: "c \<noteq> CHR ''.''" "c \<noteq> CHR ''e''" "c \<noteq> CHR ''E''" using no by (auto simp: u)
    have tk: "takeWhile isdigit (u @ ''.0'') = ip" "dropWhile isdigit (u @ ''.0'') = c # rs @ ''.0''"
      using ipd c by (auto simp: u takeWhile_append2 dropWhile_append2)
    show ?thesis using r unfolding unsigned_decimal_def tk Cons ip_def[symmetric]
      by (simp add: fraction_of_def exponent_of_def ne Let_def split: if_splits)
  qed
qed

lemma stod_point_zero:
  assumes r: "stod s = Inr d" and no: "CHR ''.'' \<notin> set s" "CHR ''e'' \<notin> set s" "CHR ''E'' \<notin> set s"
  shows "stod (s @ ''.0'') = Inr d"
proof -
  obtain neg u where nu: "sign_split (dropWhile isspace s) = (neg, u)" by fastforce
  obtain m where m: "unsigned_decimal u = Inr m" "d = (if neg then - m else m)"
    using r nu by (auto simp: stod_def ebind_def split: sum.splits)
  have "u \<noteq> []" using m(1) by (auto simp: unsigned_decimal_def fraction_of_def)
  then have ne: "dropWhile isspace s \<noteq> []"
    using nu by (auto simp: sign_split_def simp del: dropWhile_eq_Nil_conv)
  have sign: "sign_split t = (neg, u) \<Longrightarrow> set u \<subseteq> set t" for t
    by (auto simp: sign_split_def split: list.splits if_splits)
  have "set u \<subseteq> set (dropWhile isspace s)" using sign[OF nu] .
  then have sub: "c \<notin> set u" if "c \<notin> set s" for c using that set_dropWhileD by fastforce
  have "sign_split (dropWhile isspace (s @ ''.0'')) = (neg, u @ ''.0'')"
    using nu ne by (auto simp: dropWhile_append sign_split_def split: list.splits if_splits)
  then show ?thesis
    using unsigned_decimal_point_zero[OF m(1) sub[OF no(1)] sub[OF no(2)] sub[OF no(3)]] m(2)
    by (simp add: stod_def ebind_def)
qed

lemma javaDouble_reads_back:
  assumes "printable d"
  shows "stod (javaDouble d) = Inr d"
proof -
  have "stod (shortest d [1..<18] []) = Inr d"
    using assms by (intro shortest_reads_back) (simp only: printable_def list_ex_iff)
  then show ?thesis using stod_point_zero unfolding javaDouble_def Let_def by presburger
qed

lemma with_fraction_chars:
  "\<not> number_char c \<Longrightarrow> c \<notin> set ip \<Longrightarrow> c \<notin> set fp \<Longrightarrow> c \<notin> set (with_fraction ip fp)"
  by (auto simp: with_fraction_def strip_zeros_def number_char_def dest: set_dropWhileD)

lemma format_g_chars:
  assumes c: "\<not> number_char c"
  shows "c \<notin> set (format_g v prec)"
proof -
  have n: "c \<notin> set (string_of_nat k)" for k
    using string_of_nat_chars[of k] c by (auto simp: list_all_iff)
  have tk: "c \<notin> set (take j (string_of_nat k))" "c \<notin> set (drop j (string_of_nat k))" for j k
    using n[of k] by (metis in_set_takeD, metis in_set_dropD)
  have lit: "c \<noteq> CHR ''0''" "c \<noteq> CHR ''-''" "c \<noteq> CHR ''+''" "c \<noteq> CHR ''e''"
    using c by (auto simp: number_char_def isdigit_def)
  have zs: "c \<notin> set (replicate j (CHR ''0'') @ string_of_nat k)" for j k using n lit by auto
  show ?thesis
    unfolding format_g_def Let_def
    using lit by (auto simp: n with_fraction_chars[OF c] tk zs split: prod.splits if_splits)
qed

lemma javaDouble_chars: "list_all number_char (javaDouble d)"
proof -
  obtain p where "shortest d [1..<18] [] = format_g d p" using shortest_is_format[of "[1..<18]" d "[]"] by auto
  then have "set (javaDouble d) \<subseteq> set (format_g d p) \<union> set ''.0''" by (auto simp: javaDouble_def Let_def)
  moreover have "number_char (CHR ''0'')" "number_char (CHR ''.'')" by (simp_all add: number_char_def isdigit_def)
  ultimately show ?thesis using format_g_chars[of _ d p] by (auto simp: list_all_iff)
qed

lemma javaDouble_no_space: "CHR '' '' \<notin> set (javaDouble d)"
  using javaDouble_chars[of d] number_char_not by (auto simp: list_all_iff)

end
