(* ===== verification/Arp_Commands.thy ===== *)
theory Arp_Commands
  imports Doubles Links
begin

text \<open>
  \<open>TrawlerNodeARPCommands\<close> (\<open>emu/trawler_node_arp_commands.cpp\<close>): the lines with which the
  trawler tells an emulated node who its neighbours are. The printers and the parsers are
  inverse to each other on addresses and options that the source's types can hold.
\<close>

definition splitSpace :: "string \<Rightarrow> string list" where
  "splitSpace s =
     (let out = pop_trailing_empty (split_loop s [] []) in if out = [] then [[]] else out)"

record add_neighbor_result =
  anr_nodeId :: int
  anr_ipAddress :: string
  anr_port :: int
  anr_options :: "edge_options option"

section \<open>Printing\<close>

definition addNeighbor :: "int \<Rightarrow> string \<Rightarrow> int \<Rightarrow> string" where
  "addNeighbor nodeId ipAddress port =
     ''add '' @ string_of_int nodeId @ '' '' @ ipAddress @ '' '' @ string_of_int port"

definition addNeighborOptions :: "int \<Rightarrow> string \<Rightarrow> int \<Rightarrow> edge_options \<Rightarrow> string" where
  "addNeighborOptions nodeId ipAddress port options =
     addNeighbor nodeId ipAddress port @
     '' lossRate '' @ javaDouble (lossRate options) @
     '' delay '' @ string_of_int (delayMs options) @
     '' bw '' @ string_of_int (bwBytesPerSec options) @
     '' bt '' @ string_of_int (bufferingMs options)"

definition removeNeighbor :: "int \<Rightarrow> string" where
  "removeNeighbor nodeId = ''remove '' @ string_of_int nodeId"

definition arp_reset :: string where
  "arp_reset = ''reset''"

section \<open>Parsing\<close>

definition receiveAddNeighborOptions :: "string \<Rightarrow> add_neighbor_result option" where
  "receiveAddNeighborOptions cmd =
     (let args = splitSpace cmd
      in if length args \<noteq> 12 \<or> args ! 0 \<noteq> ''add'' \<or> args ! 4 \<noteq> ''lossRate'' \<or>
            args ! 6 \<noteq> ''delay'' \<or> args ! 8 \<noteq> ''bw'' \<or> args ! 10 \<noteq> ''bt''
         then None
         else
           (case ebind (stoi (args ! 1)) (\<lambda>nodeId. ebind (stoi (args ! 3)) (\<lambda>port.
                 ebind (stod (args ! 5)) (\<lambda>loss. ebind (stoll (args ! 7)) (\<lambda>delay.
                 ebind (stoi (args ! 9)) (\<lambda>bw. ebind (stoll (args ! 11)) (\<lambda>bt.
                   Inr \<lparr>anr_nodeId = nodeId, anr_ipAddress = args ! 2, anr_port = port,
                        anr_options = Some \<lparr>lossRate = loss, delayMs = delay, bwBytesPerSec = bw,
                                            bufferingMs = bt\<rparr>\<rparr>)))))) of
              Inl _ \<Rightarrow> None
            | Inr r \<Rightarrow> Some r))"

definition receiveAddNeighbor :: "string \<Rightarrow> add_neighbor_result option" where
  "receiveAddNeighbor cmd =
     (case receiveAddNeighborOptions cmd of
        Some r \<Rightarrow> Some r
      | None \<Rightarrow>
          let args = splitSpace cmd
          in if length args \<noteq> 4 \<or> args ! 0 \<noteq> ''add'' then None
             else
               (case ebind (stoi (args ! 1)) (\<lambda>nodeId. ebind (stoi (args ! 3)) (\<lambda>port.
                     Inr \<lparr>anr_nodeId = nodeId, anr_ipAddress = args ! 2, anr_port = port,
                          anr_options = None\<rparr>)) of
                  Inl _ \<Rightarrow> None
                | Inr r \<Rightarrow> Some r))"

definition receiveRemoveNeighbor :: "string \<Rightarrow> int" where
  "receiveRemoveNeighbor cmd =
     (let args = splitSpace cmd
      in if length args \<noteq> 2 \<or> args ! 0 \<noteq> ''remove'' then - 1
         else (case stoi (args ! 1) of Inl _ \<Rightarrow> - 1 | Inr v \<Rightarrow> v))"

definition receiveReset :: "string \<Rightarrow> bool" where
  "receiveReset cmd \<longleftrightarrow> cmd = ''reset''"

section \<open>Facts\<close>

lemma splitSpace_splitSpaces: "splitSpace s = splitSpaces s"
  by (simp add: splitSpace_def splitSpaces_def)

text \<open>The options a line can carry: the loss rate has a decimal of at most 17 digits.\<close>

definition options_printable :: "edge_options \<Rightarrow> bool" where
  "options_printable opt \<longleftrightarrow> in_i64 (delayMs opt) \<and> in_i32 (bwBytesPerSec opt) \<and> in_i64 (bufferingMs opt) \<and>
     printable (lossRate opt)"

text \<open>The line that announces a neighbour, as \<open>EmulatedNode::sendAddNeighbor\<close> chooses it.\<close>

definition add_line :: "add_neighbor_result \<Rightarrow> string" where
  "add_line r = (case anr_options r of
     None \<Rightarrow> addNeighbor (anr_nodeId r) (anr_ipAddress r) (anr_port r)
   | Some opt \<Rightarrow> addNeighborOptions (anr_nodeId r) (anr_ipAddress r) (anr_port r) opt)"

definition neighbor_ok :: "add_neighbor_result \<Rightarrow> bool" where
  "neighbor_ok r \<longleftrightarrow> in_i32 (anr_nodeId r) \<and> in_i32 (anr_port r) \<and> CHR '' '' \<notin> set (anr_ipAddress r) \<and>
     (case anr_options r of None \<Rightarrow> True | Some opt \<Rightarrow> options_printable opt)"

lemma splitSpace_addNeighbor:
  assumes "CHR '' '' \<notin> set ip"
  shows "splitSpace (addNeighbor i ip p) = [''add'', string_of_int i, ip, string_of_int p]"
proof -
  have "addNeighbor i ip p = unwords [''add'', string_of_int i, ip, string_of_int p]"
    by (simp add: addNeighbor_def)
  then show ?thesis unfolding splitSpace_splitSpaces
    using assms by (simp only:) (rule splitSpaces_unwords; simp add: string_of_int_no_space)
qed

lemma splitSpace_addNeighborOptions:
  assumes "CHR '' '' \<notin> set ip"
  shows "splitSpace (addNeighborOptions i ip p opt) =
    [''add'', string_of_int i, ip, string_of_int p, ''lossRate'', javaDouble (lossRate opt),
     ''delay'', string_of_int (delayMs opt), ''bw'', string_of_int (bwBytesPerSec opt),
     ''bt'', string_of_int (bufferingMs opt)]" (is "_ = ?ws")
proof -
  have "addNeighborOptions i ip p opt = unwords ?ws"
    by (simp add: addNeighborOptions_def addNeighbor_def)
  then show ?thesis unfolding splitSpace_splitSpaces
    using assms by (simp only:) (rule splitSpaces_unwords; simp add: string_of_int_no_space javaDouble_no_space)
qed

lemma receive_add_line:
  assumes ok: "neighbor_ok r"
  shows "receiveAddNeighbor (add_line r) = Some r"
proof (cases "anr_options r")
  case None
  have ip: "CHR '' '' \<notin> set (anr_ipAddress r)" using ok by (simp add: neighbor_ok_def)
  show ?thesis using ok None
    by (simp add: receiveAddNeighbor_def receiveAddNeighborOptions_def add_line_def splitSpace_addNeighbor[OF ip]
        neighbor_ok_def stoi_string_of_int ebind_def)
next
  case (Some opt)
  have ip: "CHR '' '' \<notin> set (anr_ipAddress r)" using ok by (simp add: neighbor_ok_def)
  have jd: "stod (javaDouble (lossRate opt)) = Inr (lossRate opt)"
    using ok Some by (intro javaDouble_reads_back) (simp add: neighbor_ok_def options_printable_def)
  show ?thesis using ok Some
    by (simp add: receiveAddNeighbor_def receiveAddNeighborOptions_def add_line_def splitSpace_addNeighborOptions[OF ip]
        neighbor_ok_def options_printable_def stoi_string_of_int stoll_string_of_int jd ebind_def)
qed

lemma add_line_split: "CHR '' '' \<notin> set (anr_ipAddress r) \<Longrightarrow> hd (splitSpace (add_line r)) = ''add''"
  by (auto simp: add_line_def splitSpace_addNeighbor splitSpace_addNeighborOptions split: option.split)

lemma splitSpace_removeNeighbor: "splitSpace (removeNeighbor i) = [''remove'', string_of_int i]"
proof -
  have "removeNeighbor i = unwords [''remove'', string_of_int i]" by (simp add: removeNeighbor_def)
  then show ?thesis unfolding splitSpace_splitSpaces
    by (simp only:) (rule splitSpaces_unwords; simp add: string_of_int_no_space)
qed

lemma receive_remove: "in_i32 i \<Longrightarrow> receiveRemoveNeighbor (removeNeighbor i) = i"
  by (simp add: receiveRemoveNeighbor_def splitSpace_removeNeighbor stoi_string_of_int)

lemma hd_nth0: "xs \<noteq> [] \<Longrightarrow> xs ! 0 = hd xs"
  by (simp add: hd_conv_nth)

lemma splitSpace_nonempty [simp]: "splitSpace s \<noteq> []"
  by (simp add: splitSpace_splitSpaces)

text \<open>The three kinds of line are told apart.\<close>

lemma add_line_not_remove:
  assumes "neighbor_ok r"
  shows "receiveRemoveNeighbor (add_line r) = - 1" "\<not> receiveReset (add_line r)"
proof -
  have h: "splitSpace (add_line r) ! 0 = ''add''"
    using add_line_split[of r] assms by (simp add: neighbor_ok_def hd_nth0)
  then show "receiveRemoveNeighbor (add_line r) = - 1" by (simp add: receiveRemoveNeighbor_def)
  have "splitSpace ''reset'' ! 0 \<noteq> ''add''" by (simp add: splitSpace_def pop_trailing_empty_def)
  then show "\<not> receiveReset (add_line r)" using h by (auto simp: receiveReset_def)
qed

lemma remove_not_reset: "\<not> receiveReset (removeNeighbor i)"
  by (simp add: receiveReset_def removeNeighbor_def)

section \<open>Properties\<close>

text \<open>C38. The neighbour announcements of the trawler, with or without link options, are read back
  exactly by the emulator, and are not mistaken for a removal or a reset.\<close>

theorem add_neighbor_roundtrip:
  assumes "neighbor_ok r"
  shows "receiveAddNeighbor (add_line r) = Some r \<and> receiveRemoveNeighbor (add_line r) = - 1 \<and>
    \<not> receiveReset (add_line r)"
  using receive_add_line add_line_not_remove assms by blast

definition demo_neighbor :: add_neighbor_result where
  "demo_neighbor = \<lparr>anr_nodeId = 3, anr_ipAddress = ''127.0.0.1'', anr_port = 19001,
     anr_options = Some \<lparr>lossRate = 1 / 20, delayMs = 10, bwBytesPerSec = 10000, bufferingMs = 250\<rparr>\<rparr>"

lemma java_0_05: "javaDouble (1 / 20) = ''0.05''" "format_g (1 / 20) 1 = ''0.05''" "stod ''0.05'' = Inr (1 / 20)"
proof -
  show f: "format_g (1 / 20) 1 = ''0.05''" by code_simp
  show s: "stod ''0.05'' = Inr (1 / 20)" by (simp add: stod_eval)
  have "shortest (1 / 20) (1 # ps) [] = ''0.05''" for ps using f s by simp
  moreover have "[1..<18] = 1 # [2..<18]" by (simp add: upt_conv_Cons)
  ultimately show "javaDouble (1 / 20) = ''0.05''" by (simp add: javaDouble_def)
qed

theorem add_neighbor_roundtrip_witness:
  "add_line demo_neighbor = ''add 3 127.0.0.1 19001 lossRate 0.05 delay 10 bw 10000 bt 250'' \<and>
   receiveAddNeighbor (add_line demo_neighbor) = Some demo_neighbor"
proof -
  have "printable (1 / 20)" using java_0_05(2,3) by (intro printableI[of 1]) simp_all
  then have "neighbor_ok demo_neighbor"
    by (simp add: neighbor_ok_def demo_neighbor_def options_printable_def in_i32_def in_i64_def)
  moreover have "add_line demo_neighbor = ''add 3 127.0.0.1 19001 lossRate 0.05 delay 10 bw 10000 bt 250''"
    by (simp add: add_line_def demo_neighbor_def addNeighborOptions_def addNeighbor_def java_0_05 print_eval)
  ultimately show ?thesis using add_neighbor_roundtrip by blast
qed

end
