(* ===== verification/Commands_Parser.thy ===== *)
theory Commands_Parser
  imports Topology Runtime Arp_Commands
begin

text \<open>
  \<open>CommandsParser\<close> (\<open>sim/commands_parser.cpp\<close>): the line-oriented language of topology and
  command files, with \<open>RuntimeManager::readCommandFile\<close>. The virtual methods are the record
  \<open>parser_ops\<close> over the state \<open>'s\<close> of the program; the three subclasses fill it in the
  theories of the simulator, the emulator and the trawler. A parse result is the time until
  which parsing is deferred, \<open>-1\<close> for none, or \<open>None\<close> when the command ended the process.
  The locale \<open>topology_hooks\<close> is what the parser relies on in its subclass.
\<close>

record 's parser_ops =
  po_exitCmd :: "string list \<Rightarrow> 's \<Rightarrow> bool \<times> 's"
  po_parseNodeCmd :: "string list \<Rightarrow> 's \<Rightarrow> 's"
  po_createNewEdge :: "int \<Rightarrow> int \<Rightarrow> edge_options \<Rightarrow> 's \<Rightarrow> 's"
  po_failEdge :: "int \<Rightarrow> int \<Rightarrow> 's \<Rightarrow> bool \<times> 's"
  po_failNode :: "int \<Rightarrow> 's \<Rightarrow> 's"
  po_restartEdge :: "int \<Rightarrow> int \<Rightarrow> 's \<Rightarrow> bool \<times> 's"
  po_restartNode :: "int \<Rightarrow> 's \<Rightarrow> 's"
  po_print :: "console_out \<Rightarrow> 's \<Rightarrow> 's"

section \<open>Lines and words\<close>

definition begins_with :: "string \<Rightarrow> string \<Rightarrow> bool" where
  "begins_with p s \<longleftrightarrow> take (length p) s = p"

definition skipLine :: "string \<Rightarrow> bool" where
  "skipLine line \<longleftrightarrow>
     line = [] \<or> (let cmd = splitSpaces line in begins_with ''//'' (cmd ! 0) \<or> begins_with ''#'' (cmd ! 0))"

definition printStrArray_range :: "string list \<Rightarrow> nat \<Rightarrow> nat \<Rightarrow> string" where
  "printStrArray_range arr start end' =
     concat (map (\<lambda>w. w @ '' '') (drop start (take end' arr))) @ ''\<newline>''"

definition printStrArray :: "string list \<Rightarrow> string" where
  "printStrArray arr = printStrArray_range arr 0 (length arr)"

section \<open>Topology commands\<close>

text \<open>One optional pair of words of the edge command: read it when the line is long enough and the
  keyword is the expected one; another keyword is passed over.\<close>

definition edge_field ::
  "string list \<Rightarrow> nat \<Rightarrow> string \<Rightarrow> (string \<Rightarrow> exn + 'v) \<Rightarrow> ('v \<Rightarrow> edge_options \<Rightarrow> edge_options)
     \<Rightarrow> edge_options \<Rightarrow> exn + edge_options" where
  "edge_field cmd i keyword rd set' opt =
     (if length cmd \<ge> i + 2 \<and> cmd ! i = keyword
      then ebind (rd (cmd ! (i + 1))) (\<lambda>v. Inr (set' v opt)) else Inr opt)"

definition edge_args :: "string list \<Rightarrow> exn + int \<times> int \<times> edge_options" where
  "edge_args cmd =
     (if length cmd \<notin> {3, 5, 7, 9, 11} then Inl (RuntimeError ''bad edge cmd'')
      else
        ebind (edge_field cmd 9 ''bt'' stoll (\<lambda>v o'. o'\<lparr>bufferingMs := v\<rparr>) default_edge_options) (\<lambda>o1.
        ebind (edge_field cmd 7 ''bw'' stoi (\<lambda>v o'. o'\<lparr>bwBytesPerSec := v\<rparr>) o1) (\<lambda>o2.
        ebind (edge_field cmd 5 ''delay'' stoll (\<lambda>v o'. o'\<lparr>delayMs := v\<rparr>) o2) (\<lambda>o3.
        ebind (edge_field cmd 3 ''lossRate'' stod (\<lambda>v o'. o'\<lparr>lossRate := v\<rparr>) o3) (\<lambda>o4.
        ebind (stoi (cmd ! 1)) (\<lambda>a. ebind (stoi (cmd ! 2)) (\<lambda>b. Inr (a, b, o4))))))))"

definition parseEdge :: "'s parser_ops \<Rightarrow> string list \<Rightarrow> 's \<Rightarrow> bool \<times> 's" where
  "parseEdge ops cmd s =
     (if cmd ! 0 \<noteq> ''edge'' then (False, s)
      else
        (True,
         case edge_args cmd of
           Inl _ \<Rightarrow> po_print ops (Cerr (''Error parsing edge command: '' @ printStrArray cmd)) s
         | Inr (a, b, opt) \<Rightarrow> po_createNewEdge ops a b opt s))"

text \<open>The arguments of \<open>fail\<close> and \<open>restart\<close>: \<open>at\<close> throws when there is none, the second is \<open>-1\<close>
  when absent.\<close>

definition node_args :: "string list \<Rightarrow> exn + int \<times> int" where
  "node_args cmd =
     ebind (if length cmd > 1 then stoi (cmd ! 1) else Inl (OutOfRange ''vector::_M_range_check'')) (\<lambda>a.
     ebind (if length cmd > 2 then stoi (cmd ! 2) else Inr (- 1)) (\<lambda>b. Inr (a, b)))"

definition no_edge_msg :: "int \<Rightarrow> int \<Rightarrow> string" where
  "no_edge_msg a b = ''No edge exists between node '' @ string_of_int a @ '' and node '' @ string_of_int b"

definition parseFail :: "'s parser_ops \<Rightarrow> string list \<Rightarrow> 's \<Rightarrow> bool \<times> 's" where
  "parseFail ops cmd s =
     (if cmd ! 0 \<noteq> ''fail'' then (False, s)
      else
        (True,
         case node_args cmd of
           Inl _ \<Rightarrow> po_print ops (Cerr (''Error parsing fail command: '' @ printStrArray cmd)) s
         | Inr (a, b) \<Rightarrow>
             if b \<noteq> - 1 then
               (case po_failEdge ops a b s of
                  (True, s1) \<Rightarrow> s1
                | (False, s1) \<Rightarrow> po_print ops (Cerr (no_edge_msg a b)) s1)
             else po_failNode ops a s))"

definition parseRestart :: "'s parser_ops \<Rightarrow> string list \<Rightarrow> 's \<Rightarrow> bool \<times> 's" where
  "parseRestart ops cmd s =
     (if cmd ! 0 \<noteq> ''restart'' then (False, s)
      else
        (True,
         case node_args cmd of
           Inl _ \<Rightarrow> po_print ops (Cerr (''Error parsing restart command: '' @ printStrArray cmd)) s
         | Inr (a, b) \<Rightarrow>
             if b \<noteq> - 1 then
               (case po_restartEdge ops a b s of
                  (True, s1) \<Rightarrow> s1
                | (False, s1) \<Rightarrow> po_print ops (Cerr (no_edge_msg a b)) s1)
             else po_restartNode ops a s))"

section \<open>Common commands\<close>

definition echo :: "'s parser_ops \<Rightarrow> string list \<Rightarrow> 's \<Rightarrow> bool \<times> 's" where
  "echo ops cmd s =
     (if cmd ! 0 \<noteq> ''echo'' then (False, s)
      else (True, po_print ops (Cout (printStrArray_range cmd 1 (length cmd))) s))"

definition parseTime :: "'s parser_ops \<Rightarrow> string list \<Rightarrow> int \<Rightarrow> 's \<Rightarrow> int \<times> 's" where
  "parseTime ops cmd nowMicros s =
     (if cmd ! 0 \<noteq> ''time'' then (- 1, s)
      else
        (case (if length cmd \<le> 1 then Inl (OutOfRange ''vector::_M_range_check'')
               else if cmd ! 1 = ''+'' then
                 if length cmd \<le> 2 then Inl (OutOfRange ''vector::_M_range_check'')
                 else ebind (stoll (cmd ! 2)) (\<lambda>v. Inr (i64 (nowMicros + i64 (v * 1000))))
               else ebind (stoll (cmd ! 1)) (\<lambda>v. Inr (i64 (v * 1000)))) of
           Inl _ \<Rightarrow> (- 1, po_print ops (Cerr (''Error parsing time command: '' @ printStrArray cmd)) s)
         | Inr t \<Rightarrow> (t, s)))"

definition parseCommonCmds :: "'s parser_ops \<Rightarrow> string list \<Rightarrow> int \<Rightarrow> 's \<Rightarrow> int option \<times> 's" where
  "parseCommonCmds ops cmd nowMicros s =
     (case po_exitCmd ops cmd s of
        (True, s1) \<Rightarrow> (None, s1)
      | (False, s1) \<Rightarrow>
          (case echo ops cmd s1 of
             (True, s2) \<Rightarrow> (Some (- 1), s2)
           | (False, s2) \<Rightarrow>
               (case parseTime ops cmd nowMicros s2 of
                  (deferTill, s3) \<Rightarrow>
                    (Some deferTill,
                     if deferTill = - 1 \<and> cmd ! 0 \<noteq> ''time'' then po_parseNodeCmd ops cmd s3 else s3))))"

definition parseLine :: "'s parser_ops \<Rightarrow> string \<Rightarrow> int \<Rightarrow> 's \<Rightarrow> int option \<times> 's" where
  "parseLine ops line nowMicros s =
     (if skipLine line then (Some (- 1), s)
      else
        let cmd = splitSpaces line
        in (case parseEdge ops cmd s of
              (True, s1) \<Rightarrow> (Some (- 1), s1)
            | (False, s1) \<Rightarrow>
                (case parseFail ops cmd s1 of
                   (True, s2) \<Rightarrow> (Some (- 1), s2)
                 | (False, s2) \<Rightarrow>
                     (case parseRestart ops cmd s2 of
                        (True, s3) \<Rightarrow> (Some (- 1), s3)
                      | (False, s3) \<Rightarrow> parseCommonCmds ops cmd nowMicros s3))))"

section \<open>Files\<close>

text \<open>\<open>parseRemainder\<close>: \<open>pl\<close> is the virtual \<open>parseLine\<close>; the reader is the lines left, \<open>None\<close>
  when no file is open. The loop stops at the first line that defers.\<close>

fun parse_lines ::
  "(string \<Rightarrow> int \<Rightarrow> 's \<Rightarrow> int option \<times> 's) \<Rightarrow> int \<Rightarrow> string list \<Rightarrow> 's \<Rightarrow> int option \<times> string list \<times> 's" where
  "parse_lines pl nowMicros [] s = (Some (- 1), [], s)"
| "parse_lines pl nowMicros (l # ls) s =
     (case pl l nowMicros s of
        (None, s1) \<Rightarrow> (None, ls, s1)
      | (Some deferTill, s1) \<Rightarrow>
          if deferTill = - 1 then parse_lines pl nowMicros ls s1 else (Some deferTill, ls, s1))"

definition parseRemainder ::
  "(string \<Rightarrow> int \<Rightarrow> 's \<Rightarrow> int option \<times> 's) \<Rightarrow> int \<Rightarrow> string list option \<Rightarrow> 's
     \<Rightarrow> int option \<times> string list option \<times> 's" where
  "parseRemainder pl nowMicros reader s =
     (case reader of
        None \<Rightarrow> (Some (- 1), None, s)
      | Some ls \<Rightarrow> (case parse_lines pl nowMicros ls s of (r, ls', s1) \<Rightarrow> (r, Some ls', s1)))"

text \<open>\<open>parseFile\<close>: the file is its lines, \<open>None\<close> when it cannot be opened.\<close>

definition parseFile ::
  "(string \<Rightarrow> int \<Rightarrow> 's \<Rightarrow> int option \<times> 's) \<Rightarrow> string \<Rightarrow> string list option \<Rightarrow> int \<Rightarrow> 's
     \<Rightarrow> (exn + int option) \<times> string list option \<times> 's" where
  "parseFile pl filename file nowMicros s =
     (case file of
        None \<Rightarrow> (Inl (RuntimeError (''Could not open topo/command file: '' @ filename)), None, s)
      | Some ls \<Rightarrow> (case parseRemainder pl nowMicros (Some ls) s of (r, rd, s1) \<Rightarrow> (Inr r, rd, s1)))"

text \<open>\<open>RuntimeManager::readCommandFile\<close>: one line of the command file, when it is due.\<close>

definition readCommandFile ::
  "(string \<Rightarrow> int \<Rightarrow> 's \<Rightarrow> int option \<times> 's) \<Rightarrow> ('s \<Rightarrow> string list option) \<Rightarrow>
     (string list option \<Rightarrow> 's \<Rightarrow> 's) \<Rightarrow> int \<Rightarrow> int \<Rightarrow> 's \<Rightarrow> int option \<times> 's" where
  "readCommandFile pl file setFile now deferTill s =
     (case file s of
        None \<Rightarrow> (Some (- 1), s)
      | Some ls \<Rightarrow>
          if deferTill \<le> i64 (now * 1000) then
            (case ls of
               [] \<Rightarrow> (Some (- 1), setFile None s)
             | l # rest \<Rightarrow>
                 (case pl l (i64 (now * 1000)) (setFile (Some rest) s) of
                    (None, s1) \<Rightarrow> (None, s1)
                  | (Some r, s1) \<Rightarrow> (Some (max r 0), s1)))
          else (Some deferTill, s))"


section \<open>What every command keeps\<close>

locale parser_keeps =
  fixes ops :: "'s parser_ops" and P :: "'s \<Rightarrow> bool"
  assumes exit_keeps: "P s \<Longrightarrow> P (snd (po_exitCmd ops cmd s))"
    and node_keeps: "P s \<Longrightarrow> P (po_parseNodeCmd ops cmd s)"
    and create_keeps: "P s \<Longrightarrow> P (po_createNewEdge ops a b opt s)"
    and failEdge_keeps: "P s \<Longrightarrow> P (snd (po_failEdge ops a b s))"
    and failNode_keeps: "P s \<Longrightarrow> P (po_failNode ops a s)"
    and restartEdge_keeps: "P s \<Longrightarrow> P (snd (po_restartEdge ops a b s))"
    and restartNode_keeps: "P s \<Longrightarrow> P (po_restartNode ops a s)"
    and print_keeps: "P s \<Longrightarrow> P (po_print ops x s)"
begin

lemma parseEdge_keeps: "P s \<Longrightarrow> P (snd (parseEdge ops cmd s))"
  by (cases "edge_args cmd") (auto simp: parseEdge_def create_keeps print_keeps)

lemma edge_result_keeps:
  "P s \<Longrightarrow> P (case po_failEdge ops a b s of (True, s1) \<Rightarrow> s1 | (False, s1) \<Rightarrow> po_print ops x s1)"
  "P s \<Longrightarrow> P (case po_restartEdge ops a b s of (True, s1) \<Rightarrow> s1 | (False, s1) \<Rightarrow> po_print ops x s1)"
  using failEdge_keeps[of s a b] restartEdge_keeps[of s a b] print_keeps
  by (cases "po_failEdge ops a b s"; cases "po_restartEdge ops a b s"; simp split: bool.split)+

lemma parseFail_keeps: "P s \<Longrightarrow> P (snd (parseFail ops cmd s))"
  by (cases "node_args cmd") (auto simp: parseFail_def edge_result_keeps failNode_keeps print_keeps)

lemma parseRestart_keeps: "P s \<Longrightarrow> P (snd (parseRestart ops cmd s))"
  by (cases "node_args cmd") (auto simp: parseRestart_def edge_result_keeps restartNode_keeps print_keeps)

lemma echo_keeps: "P s \<Longrightarrow> P (snd (echo ops cmd s))"
  by (simp add: echo_def print_keeps)

lemma parseTime_keeps: "P s \<Longrightarrow> P (snd (parseTime ops cmd now s))"
  by (simp add: parseTime_def print_keeps split: sum.split)

lemma common_keeps:
  assumes "P s"
  shows "P (snd (parseCommonCmds ops cmd now s))"
proof -
  obtain b s1 where 1: "po_exitCmd ops cmd s = (b, s1)" by fastforce
  obtain c s2 where 2: "echo ops cmd s1 = (c, s2)" by fastforce
  obtain d s3 where 3: "parseTime ops cmd now s2 = (d, s3)" by fastforce
  have "P s1" using exit_keeps[OF assms, of cmd] by (simp add: 1)
  moreover have "P s2" if "P s1" using echo_keeps[OF that, of cmd] by (simp add: 2)
  moreover have "P s3" if "P s2" using parseTime_keeps[OF that, of cmd now] by (simp add: 3)
  ultimately show ?thesis by (simp add: parseCommonCmds_def 1 2 3 node_keeps split: bool.split)
qed

lemma parseLine_keeps:
  assumes "P s"
  shows "P (snd (parseLine ops line now s))"
proof -
  let ?cmd = "splitSpaces line"
  obtain b s1 where 1: "parseEdge ops ?cmd s = (b, s1)" by fastforce
  obtain c s2 where 2: "parseFail ops ?cmd s1 = (c, s2)" by fastforce
  obtain d s3 where 3: "parseRestart ops ?cmd s2 = (d, s3)" by fastforce
  have "P s1" using parseEdge_keeps[OF assms, of ?cmd] by (simp add: 1)
  moreover have "P s2" if "P s1" using parseFail_keeps[OF that, of ?cmd] by (simp add: 2)
  moreover have "P s3" if "P s2" using parseRestart_keeps[OF that, of ?cmd] by (simp add: 3)
  ultimately show ?thesis by (simp add: parseLine_def Let_def 1 2 3 assms common_keeps split: bool.split)
qed

lemma parse_lines_keeps: "P s \<Longrightarrow> P (snd (snd (parse_lines (parseLine ops) now ls s)))"
proof (induction ls arbitrary: s)
  case (Cons l ls)
  obtain r s1 where r: "parseLine ops l now s = (r, s1)" by fastforce
  with parseLine_keeps[OF Cons.prems, of l now] have "P s1" by simp
  with Cons.IH show ?case by (simp add: r split: option.split)
qed simp

lemma parseRemainder_keeps: "P s \<Longrightarrow> P (snd (snd (parseRemainder (parseLine ops) now rd s)))"
  by (simp add: parseRemainder_def case_prod_unfold parse_lines_keeps split: option.split)

lemma readCommandFile_keeps:
  assumes "P s" and set: "\<And>f s. P s \<Longrightarrow> P (setFile f s)"
  shows "P (snd (readCommandFile (parseLine ops) file setFile now defer s))"
  using parseLine_keeps[OF set[OF assms(1)]]
  by (simp add: readCommandFile_def assms case_prod_unfold split: option.split list.split)

end

section \<open>What the topology commands do\<close>

locale topology_hooks =
  fixes ops :: "'s parser_ops" and topo :: "'s \<Rightarrow> topology" and inv :: "'s \<Rightarrow> bool"
  assumes create_topo: "inv s \<Longrightarrow>
      same_topo (newEdge a b opt (topo s)) (topo (po_createNewEdge ops a b opt s))"
    and failEdge_topo: "inv s \<Longrightarrow> po_failEdge ops a b s = (r, s') \<Longrightarrow>
      r = fst (failEdge a b (topo s)) \<and> same_topo (snd (failEdge a b (topo s))) (topo s')"
    and restartEdge_topo: "inv s \<Longrightarrow> po_restartEdge ops a b s = (r, s') \<Longrightarrow>
      r = fst (restartEdge a b (topo s)) \<and> same_topo (snd (restartEdge a b (topo s))) (topo s')"
    and failNode_topo: "inv s \<Longrightarrow> same_topo (failNode a (topo s)) (topo (po_failNode ops a s))"
    and restartNode_topo: "inv s \<Longrightarrow> same_topo (restartNode a (topo s)) (topo (po_restartNode ops a s))"
    and print_topo: "topo (po_print ops x s) = topo s"

text \<open>The text of an edge command with all its options.\<close>

definition edge_words :: "int \<Rightarrow> int \<Rightarrow> edge_options \<Rightarrow> string list" where
  "edge_words a b opt =
     [''edge'', string_of_int a, string_of_int b, ''lossRate'', javaDouble (lossRate opt),
      ''delay'', string_of_int (delayMs opt), ''bw'', string_of_int (bwBytesPerSec opt),
      ''bt'', string_of_int (bufferingMs opt)]"

lemma edge_args_words:
  assumes "in_i32 a" "in_i32 b" "options_printable opt"
  shows "edge_args (edge_words a b opt) = Inr (a, b, opt)"
proof -
  have "stod (javaDouble (lossRate opt)) = Inr (lossRate opt)"
    using assms by (intro javaDouble_reads_back) (simp add: options_printable_def)
  then show ?thesis
    using assms by (simp add: edge_args_def edge_words_def edge_field_def ebind_def stoi_string_of_int stoll_string_of_int
        options_printable_def default_edge_options_def)
qed

lemma splitSpaces_edge_words: "splitSpaces (unwords (edge_words a b opt)) = edge_words a b opt"
  by (rule splitSpaces_unwords) (auto simp: edge_words_def string_of_int_no_space javaDouble_no_space)

lemma splitSpaces_words:
  assumes "ws \<noteq> []" "\<forall>w \<in> set ws. CHR '' '' \<notin> set w \<and> w \<noteq> []"
  shows "splitSpaces (unwords ws) = ws"
  using assms by (intro splitSpaces_unwords) auto

text \<open>A line whose first word begins with a letter is not skipped.\<close>

lemma not_skipped:
  assumes "splitSpaces line = cmd" "hd (cmd ! 0) \<noteq> CHR ''/''" "hd (cmd ! 0) \<noteq> CHR ''#''" "line \<noteq> []" "cmd ! 0 \<noteq> []"
  shows "\<not> skipLine line"
  using assms by (cases "cmd ! 0") (auto simp: skipLine_def begins_with_def)

lemma unwords_empty: "unwords (w # ws) = [] \<longleftrightarrow> w = [] \<and> ws = []"
  by (cases ws) auto

lemma parse_edge_line:
  assumes "in_i32 a" "in_i32 b" "options_printable opt"
  shows "parseLine ops (unwords (edge_words a b opt)) now s = (Some (- 1), po_createNewEdge ops a b opt s)"
proof -
  have "\<not> skipLine (unwords (edge_words a b opt))"
    by (rule not_skipped[OF splitSpaces_edge_words]) (simp_all add: edge_words_def)
  moreover have "edge_words a b opt ! 0 = ''edge''" by (simp add: edge_words_def)
  ultimately show ?thesis
    by (simp add: parseLine_def splitSpaces_edge_words parseEdge_def edge_args_words[OF assms] del: unwords.simps)
qed

text \<open>\<open>fail\<close> and \<open>restart\<close> with one or two nodes; \<open>-1\<close> is not a node.\<close>

definition node_words :: "string \<Rightarrow> int \<Rightarrow> int option \<Rightarrow> string list" where
  "node_words w a b = w # string_of_int a # (case b of None \<Rightarrow> [] | Some b \<Rightarrow> [string_of_int b])"

lemma node_args_words:
  assumes "in_i32 a" "case b of None \<Rightarrow> True | Some b \<Rightarrow> in_i32 b"
  shows "node_args (node_words w a b) = Inr (a, case b of None \<Rightarrow> - 1 | Some b \<Rightarrow> b)"
  using assms by (auto simp: node_args_def node_words_def ebind_def stoi_string_of_int split: option.split)

lemma splitSpaces_node_words:
  assumes "CHR '' '' \<notin> set w" "w \<noteq> []"
  shows "splitSpaces (unwords (node_words w a b)) = node_words w a b"
  using assms by (intro splitSpaces_words) (auto simp: node_words_def string_of_int_no_space split: option.splits)

lemma parse_node_line:
  assumes "w = ''fail'' \<or> w = ''restart''"
  shows "parseLine ops (unwords (node_words w a b)) now s =
    (Some (- 1), snd ((if w = ''fail'' then parseFail else parseRestart) ops (node_words w a b) s))"
proof -
  have sp: "splitSpaces (unwords (node_words w a b)) = node_words w a b"
    using assms by (intro splitSpaces_node_words) auto
  have "\<not> skipLine (unwords (node_words w a b))"
    using assms by (intro not_skipped[OF sp]) (auto simp: node_words_def unwords_empty)
  moreover have "node_words w a b ! 0 = w" by (simp add: node_words_def)
  ultimately show ?thesis
    using assms by (auto simp: parseLine_def sp parseEdge_def parseFail_def parseRestart_def Let_def)
qed

context topology_hooks
begin

lemma edge_command:
  assumes "in_i32 a" "in_i32 b" "options_printable opt" "inv s"
  shows "same_topo (newEdge a b opt (topo s)) (topo (snd (parseLine ops (unwords (edge_words a b opt)) now s)))"
  by (simp only: parse_edge_line[OF assms(1-3)] create_topo[OF assms(4)] snd_conv)

lemma node_command:
  assumes "in_i32 a" "inv s"
  shows "same_topo (failNode a (topo s)) (topo (snd (parseLine ops (unwords (node_words ''fail'' a None)) now s)))"
    "same_topo (restartNode a (topo s)) (topo (snd (parseLine ops (unwords (node_words ''restart'' a None)) now s)))"
  using assms failNode_topo restartNode_topo node_args_words[of a None]
  by (simp_all add: parse_node_line parseFail_def parseRestart_def) (simp_all add: node_words_def)

lemma edge_state_command:
  assumes "in_i32 a" "in_i32 b" "b \<noteq> - 1" "inv s"
  shows "same_topo (snd (failEdge a b (topo s)))
      (topo (snd (parseLine ops (unwords (node_words ''fail'' a (Some b))) now s)))"
    "same_topo (snd (restartEdge a b (topo s)))
      (topo (snd (parseLine ops (unwords (node_words ''restart'' a (Some b))) now s)))"
  using assms failEdge_topo[OF assms(4), of a b] restartEdge_topo[OF assms(4), of a b] node_args_words[of a "Some b"]
  by (simp_all add: parse_node_line parseFail_def parseRestart_def print_topo split: prod.split bool.split)
     (simp_all add: node_words_def)

end

section \<open>Files\<close>

text \<open>A file is executed line by line up to the first line that defers the rest.\<close>

lemma parse_lines_prefix:
  assumes "parse_lines pl now ls s = (Some d, rest, s')"
  shows "\<exists>done. ls = done @ rest \<and> (d = - 1 \<longrightarrow> rest = [])"
  using assms
proof (induction ls arbitrary: s)
  case (Cons l ls)
  obtain r s1 where p: "pl l now s = (r, s1)" by fastforce
  show ?case
  proof (cases "r = Some (- 1)")
    case True
    then obtain dn where "ls = dn @ rest" "d = - 1 \<longrightarrow> rest = []" using Cons p by auto
    then show ?thesis by (intro exI[of _ "l # dn"]) simp
  next
    case False
    with Cons.prems p show ?thesis by (intro exI[of _ "[l]"]) (auto split: option.splits if_splits)
  qed
qed auto

end
