(* ===== verification/Streams.thy ===== *)
theory Streams
  imports Prelude "HOL-Library.Sublist"
begin

text \<open>
  Lines over stream sockets, as the emulator and the trawler read and write them: the loops
  around \<open>send\<close>, the loop that reads one line character by character, and the loop that takes
  complete lines off a receive buffer. What the operating system answers is an argument.
\<close>

abbreviation newline :: char where "newline \<equiv> CHR ''\<newline>''"

abbreviation carriage_return :: char where "carriage_return \<equiv> CHR 0x0D"

section \<open>Writing\<close>

text \<open>\<open>writeAllFd\<close>, \<open>writeLineToFd\<close> and \<open>EmulatedNode::writeLine\<close> have the same loop. \<open>send k n\<close> is the
  answer to the \<open>k\<close>-th call of \<open>send\<close>, with \<open>n\<close> bytes left; the result is whether all was written,
  what was written, and the number of the next call.\<close>

function write_from :: "(nat \<Rightarrow> nat \<Rightarrow> int) \<Rightarrow> nat \<Rightarrow> string \<Rightarrow> bool \<times> string \<times> nat" where
  "write_from send k s =
     (if s = [] then (True, [], k)
      else
        let n = send k (length s)
        in if n \<le> 0 then (False, [], Suc k)
           else (case write_from send (Suc k) (drop (nat n) s) of
                   (ok, out, k') \<Rightarrow> (ok, take (nat n) s @ out, k')))"
  by pat_completeness auto

termination by (relation "measure (\<lambda>(_, _, s). length s)") auto

declare write_from.simps [simp del]

definition writeLineToFd :: "(nat \<Rightarrow> nat \<Rightarrow> int) \<Rightarrow> nat \<Rightarrow> string \<Rightarrow> bool \<times> string \<times> nat" where
  "writeLineToFd send k line = write_from send k (line @ [newline])"

section \<open>Reading\<close>

text \<open>Read up to the first newline, without carriage returns; \<open>None\<close> when the peer closes before.\<close>

fun recv_line :: "string \<Rightarrow> string option" where
  "recv_line [] = None"
| "recv_line (c # cs) =
     (if c = newline then Some []
      else if c = carriage_return then recv_line cs
      else map_option ((#) c) (recv_line cs))"

fun take_line :: "string \<Rightarrow> (string \<times> string) option" where
  "take_line [] = None"
| "take_line (c # cs) =
     (if c = newline then Some ([], cs)
      else map_option (\<lambda>(l, r). (c # l, r)) (take_line cs))"

definition pop_cr :: "string \<Rightarrow> string" where
  "pop_cr line = (if line \<noteq> [] \<and> last line = carriage_return then butlast line else line)"

lemma take_line_Some: "take_line s = Some (l, r) \<Longrightarrow> s = l @ newline # r \<and> newline \<notin> set l"
  by (induction s arbitrary: l) (auto split: if_splits)

text \<open>Hand every complete line to \<open>f\<close>; what is left stays in the buffer.\<close>

function drain_lines :: "(string \<Rightarrow> 's \<Rightarrow> 's) \<Rightarrow> string \<Rightarrow> 's \<Rightarrow> string \<times> 's" where
  "drain_lines f buf s =
     (case take_line buf of
        None \<Rightarrow> (buf, s)
      | Some (line, rest) \<Rightarrow> drain_lines f rest (f (pop_cr line) s))"
  by pat_completeness auto

termination
  by (relation "measure (\<lambda>(_, buf, _). length buf)") (auto dest!: take_line_Some)

declare drain_lines.simps [simp del]

section \<open>Facts\<close>

lemma write_from_prefix:
  "write_from send k s = (ok, out, k') \<Longrightarrow> prefix out s \<and> (ok \<longleftrightarrow> out = s) \<and> k \<le> k'"
proof (induction send k s arbitrary: ok out k' rule: write_from.induct)
  case (1 send k s)
  show ?case
  proof (cases "s = [] \<or> send k (length s) \<le> 0")
    case True
    then show ?thesis using 1(2) by (subst (asm) write_from.simps) (auto simp: Let_def split: if_splits)
  next
    case False
    let ?n = "nat (send k (length s))"
    obtain ok1 out1 k1 where w: "write_from send (Suc k) (drop ?n s) = (ok1, out1, k1)" by (metis prod_cases3)
    have ih: "prefix out1 (drop ?n s) \<and> (ok1 \<longleftrightarrow> out1 = drop ?n s) \<and> Suc k \<le> k1"
      using 1(1)[OF _ refl _ w] False by simp
    have "ok = ok1" "out = take ?n s @ out1" "k' = k1"
      using 1(2) False w by (auto simp: write_from.simps[of send k s] Let_def)
    moreover have "take ?n s @ out1 = s \<longleftrightarrow> out1 = drop ?n s"
      by (metis append_take_drop_id same_append_eq)
    moreover have "prefix (take ?n s @ out1) s" using ih by (metis append_take_drop_id same_prefix_prefix)
    ultimately show ?thesis using ih by simp
  qed
qed

lemma take_line_line: "newline \<notin> set l \<Longrightarrow> take_line (l @ newline # r) = Some (l, r)"
  by (induction l) auto

lemma take_line_None: "take_line s = None \<longleftrightarrow> newline \<notin> set s"
  by (induction s) auto

lemma take_line_append: "take_line s = Some (l, r) \<Longrightarrow> take_line (s @ t) = Some (l, r @ t)"
  using take_line_Some[of s l r] take_line_line[of l "r @ t"] by simp

text \<open>How the bytes of the stream are cut into chunks does not matter.\<close>

lemma drain_lines_append:
  "drain_lines f (buf @ more) s = (case drain_lines f buf s of (rest, s1) \<Rightarrow> drain_lines f (rest @ more) s1)"
proof (induction f buf s rule: drain_lines.induct)
  case (1 f buf s)
  show ?case
  proof (cases "take_line buf")
    case None
    then show ?thesis by (simp add: drain_lines.simps[of f buf])
  next
    case (Some p)
    then obtain l r where p: "take_line buf = Some (l, r)" by (cases p) simp
    then show ?thesis
      using 1[OF p refl] by (simp add: drain_lines.simps[of f buf] drain_lines.simps[of f "buf @ more"] take_line_append)
  qed
qed

lemma drain_lines_keeps:
  assumes "\<And>l s. P s \<Longrightarrow> P (f l s)" "P s"
  shows "P (snd (drain_lines f buf s))"
  using assms(2)
proof (induction "length buf" arbitrary: buf s rule: less_induct)
  case less
  show ?case
  proof (cases "take_line buf")
    case (Some p)
    then obtain l r where p: "take_line buf = Some (l, r)" by (cases p) simp
    have "length r < length buf" using take_line_Some[OF p] by simp
    from less.hyps[OF this assms(1)[OF less.prems]] show ?thesis by (simp add: drain_lines.simps[of f buf] p)
  qed (simp add: drain_lines.simps[of f buf] less.prems)
qed

lemma drain_lines_no_line: "newline \<notin> set buf \<Longrightarrow> drain_lines f buf s = (buf, s)"
  by (subst drain_lines.simps) (simp add: take_line_None[symmetric])

text \<open>Lines that were written whole are taken off one by one.\<close>

lemma drain_lines_lines:
  assumes "\<forall>l \<in> set ls. newline \<notin> set l \<and> pop_cr l = l"
  shows "drain_lines f (concat (map (\<lambda>l. l @ [newline]) ls) @ rest) s = drain_lines f rest (fold f ls s)"
  using assms
proof (induction ls arbitrary: s)
  case (Cons l ls)
  then show ?case by (subst drain_lines.simps) (simp add: take_line_line)
qed simp

lemma recv_line_line: "newline \<notin> set l \<Longrightarrow> carriage_return \<notin> set l \<Longrightarrow> recv_line (l @ newline # r) = Some l"
  by (induction l) auto


lemma write_from_completes:
  assumes "\<And>k n. 0 < send k n"
  shows "\<exists>k'. write_from send k s = (True, s, k') \<and> k' \<le> k + length s"
proof (induction "length s" arbitrary: k s rule: less_induct)
  case less
  show ?case
  proof (cases "s = []")
    case True
    then show ?thesis by (simp add: write_from.simps)
  next
    case False
    let ?n = "nat (send k (length s))"
    have n: "0 < ?n" "\<not> send k (length s) \<le> 0" using assms[of k "length s"] by auto
    then have "length (drop ?n s) < length s" using False by simp
    from less[OF this, of "Suc k"] obtain k' where
      "write_from send (Suc k) (drop ?n s) = (True, drop ?n s, k')" "k' \<le> Suc k + length (drop ?n s)" by auto
    moreover have "length (drop ?n s) + 1 \<le> length s" using False n by (cases s) auto
    ultimately show ?thesis using False n by (simp add: write_from.simps[of send k s] Let_def)
  qed
qed

section \<open>Properties\<close>

text \<open>C39. The loop that writes a line to a socket ends with the whole line and its newline written,
  after at most one call of \<open>send\<close> per byte, when every call makes progress.\<close>

theorem write_line_completes:
  assumes "\<And>k n. 0 < send k n"
  shows "\<exists>k'. writeLineToFd send k line = (True, line @ [newline], k') \<and> k' \<le> k + length line + 1"
  using write_from_completes[of send k "line @ [newline]"] assms by (simp add: writeLineToFd_def)

theorem write_line_completes_witness:
  "\<exists>k'. writeLineToFd (\<lambda>_ _. 3) 0 ''remove 12'' = (True, ''remove 12'' @ [newline], k') \<and> k' \<le> 0 + length ''remove 12'' + 1"
  by (rule write_line_completes) simp

end
