(* ===== verification/Trawler.thy ===== *)
theory Trawler
  imports Commands_Parser Streams
begin

text \<open>
  \<open>EmulatedNode\<close> and \<open>TrawlerService\<close> (\<open>emu/emulated_node.cpp\<close>, \<open>emu/trawler_service.cpp\<close>) with
  \<open>TrawlerCommandsParser\<close>: the coordinator that gives each emulated node its address, keeps the
  topology and tells the nodes who their neighbours are.

  The answers of \<open>send\<close> are an argument, a function of the number of the call and of the bytes
  left; \<open>ts_sends\<close> counts the calls. What a node's socket took is kept with the node: the
  address line in \<open>en_greeting\<close>, everything after it in \<open>en_out\<close>. An \<open>EmulatedNode*\<close> is the key of
  the node in \<open>emulatedNodes_\<close>. One round of the accept loop is \<open>tr_accept\<close>; a round starts with
  what \<open>accept\<close> returned and the reading of the clock.
\<close>

section \<open>EmulatedNode\<close>

record emulated_node =
  en_tcpFd :: int
  en_fishAddr :: int
  en_ipAddress :: string
  en_udpPort :: int
  en_alive :: bool
  en_greeting :: string
  en_out :: string

definition emulated_node_ctor :: "int \<Rightarrow> int \<Rightarrow> string \<Rightarrow> int \<Rightarrow> string \<Rightarrow> emulated_node" where
  "emulated_node_ctor tcpFd fishAddr ipAddress udpPort greeting =
     \<lparr>en_tcpFd = tcpFd, en_fishAddr = fishAddr, en_ipAddress = ipAddress, en_udpPort = udpPort, en_alive = True,
      en_greeting = greeting, en_out = []\<rparr>"

definition isAlive :: "emulated_node \<Rightarrow> bool" where
  "isAlive n \<longleftrightarrow> en_alive n \<and> en_tcpFd n \<ge> 0"

definition en_close :: "emulated_node \<Rightarrow> emulated_node" where
  "en_close n = (if en_tcpFd n \<ge> 0 then n\<lparr>en_tcpFd := - 1\<rparr> else n)\<lparr>en_alive := False\<rparr>"

definition en_writeLine ::
  "(nat \<Rightarrow> nat \<Rightarrow> int) \<Rightarrow> nat \<Rightarrow> string \<Rightarrow> emulated_node \<Rightarrow> bool \<times> emulated_node \<times> nat" where
  "en_writeLine send k line n =
     (if en_tcpFd n < 0 then (False, n, k)
      else
        (case write_from send k (line @ [newline]) of
           (ok, out, k') \<Rightarrow>
             (ok, n\<lparr>en_out := en_out n @ out, en_alive := en_alive n \<and> ok\<rparr>, k')))"

section \<open>TrawlerService\<close>

record trawler =
  ts_listenPort :: int
  ts_topoFile :: string
  ts_allToAll :: bool
  ts_running :: bool
  ts_topo :: topology
  ts_nodes :: "(int \<times> emulated_node) list"
  ts_reader :: "string list option"
  ts_defer :: int
  ts_sends :: nat
  ts_out :: "console_out list"

definition ts_ctor :: "int \<Rightarrow> string \<Rightarrow> bool \<Rightarrow> (nat \<Rightarrow> nat \<Rightarrow> rat) \<Rightarrow> trawler" where
  "ts_ctor listenPort topoFile a2a seeds =
     \<lparr>ts_listenPort = listenPort, ts_topoFile = topoFile, ts_allToAll = a2a, ts_running = False,
      ts_topo = topology_ctor a2a seeds, ts_nodes = [], ts_reader = None, ts_defer = - 1, ts_sends = 0, ts_out = []\<rparr>"

definition ts_print :: "console_out \<Rightarrow> trawler \<Rightarrow> trawler" where
  "ts_print x s = s\<lparr>ts_out := ts_out s @ [x]\<rparr>"

definition getEmulatedNode :: "int \<Rightarrow> trawler \<Rightarrow> emulated_node option" where
  "getEmulatedNode fishAddr s = map_of (ts_nodes s) fishAddr"

text \<open>\<open>writeLine\<close> on the node with key \<open>a\<close>.\<close>

definition ts_write :: "(nat \<Rightarrow> nat \<Rightarrow> int) \<Rightarrow> int \<Rightarrow> string \<Rightarrow> trawler \<Rightarrow> bool \<times> trawler" where
  "ts_write send a line s =
     (case getEmulatedNode a s of
        None \<Rightarrow> (False, s)
      | Some n \<Rightarrow>
          (case en_writeLine send (ts_sends s) line n of
             (ok, n', k) \<Rightarrow> (ok, s\<lparr>ts_nodes := AList.update a n' (ts_nodes s), ts_sends := k\<rparr>)))"

definition sendAddNeighbor :: "(nat \<Rightarrow> nat \<Rightarrow> int) \<Rightarrow> int \<Rightarrow> emulated_node \<Rightarrow> trawler \<Rightarrow> bool \<times> trawler" where
  "sendAddNeighbor send a peer s =
     (case getEmulatedNode a s of
        None \<Rightarrow> (False, s)
      | Some n \<Rightarrow>
          (case getLiveEdge (en_fishAddr n) (en_fishAddr peer) (ts_topo s) of
             (e, t) \<Rightarrow>
               ts_write send a
                 (case e of
                    Some i \<Rightarrow>
                      addNeighborOptions (en_fishAddr peer) (en_ipAddress peer) (en_udpPort peer) (e_options (edges t ! i))
                  | None \<Rightarrow> addNeighbor (en_fishAddr peer) (en_ipAddress peer) (en_udpPort peer))
                 (s\<lparr>ts_topo := t\<rparr>)))"

definition sendRemoveNeighbor :: "(nat \<Rightarrow> nat \<Rightarrow> int) \<Rightarrow> int \<Rightarrow> int \<Rightarrow> trawler \<Rightarrow> bool \<times> trawler" where
  "sendRemoveNeighbor send a peerFishAddr s = ts_write send a (removeNeighbor peerFishAddr) s"

definition sendReset :: "(nat \<Rightarrow> nat \<Rightarrow> int) \<Rightarrow> int \<Rightarrow> trawler \<Rightarrow> bool \<times> trawler" where
  "sendReset send a s = ts_write send a arp_reset s"

definition ts_startEdge :: "(nat \<Rightarrow> nat \<Rightarrow> int) \<Rightarrow> int \<Rightarrow> int \<Rightarrow> trawler \<Rightarrow> trawler" where
  "ts_startEdge send a b s =
     (case (getEmulatedNode a s, getEmulatedNode b s) of
        (Some nA, Some nB) \<Rightarrow>
          let s1 = snd (sendAddNeighbor send a nB s) in snd (sendAddNeighbor send b nA s1)
      | _ \<Rightarrow> s)"

definition ts_failEdge :: "(nat \<Rightarrow> nat \<Rightarrow> int) \<Rightarrow> int \<Rightarrow> int \<Rightarrow> trawler \<Rightarrow> trawler" where
  "ts_failEdge send a b s =
     (case (getEmulatedNode a s, getEmulatedNode b s) of
        (Some nA, Some nB) \<Rightarrow>
          let s1 = snd (sendRemoveNeighbor send a b s) in snd (sendRemoveNeighbor send b a s1)
      | _ \<Rightarrow> s)"

text \<open>The body of the loops that tell the node \<open>k\<close> that \<open>dyingAddr\<close> is no neighbour any more.\<close>

definition ts_drop_neighbor :: "(nat \<Rightarrow> nat \<Rightarrow> int) \<Rightarrow> int \<Rightarrow> int \<Rightarrow> trawler \<Rightarrow> trawler" where
  "ts_drop_neighbor send dyingAddr k s =
     (case getEmulatedNode k s of
        None \<Rightarrow> s
      | Some n \<Rightarrow>
          (case getLiveEdge (en_fishAddr n) dyingAddr (ts_topo s) of
             (e, t) \<Rightarrow>
               let s1 = s\<lparr>ts_topo := t\<rparr>
               in if e \<noteq> None \<and> isAlive n then snd (sendRemoveNeighbor send k dyingAddr s1) else s1))"

definition removeAsNeighbor :: "(nat \<Rightarrow> nat \<Rightarrow> int) \<Rightarrow> int \<Rightarrow> trawler \<Rightarrow> trawler" where
  "removeAsNeighbor send dying s =
     fold (ts_drop_neighbor send dying) (filter (\<lambda>k. k \<noteq> dying) (map fst (ts_nodes s))) s"

definition ts_update_neighbor :: "(nat \<Rightarrow> nat \<Rightarrow> int) \<Rightarrow> int \<Rightarrow> int \<Rightarrow> trawler \<Rightarrow> trawler" where
  "ts_update_neighbor send fishAddr k s =
     (case (getEmulatedNode k s, getEmulatedNode fishAddr s) of
        (Some n, Some startingNode) \<Rightarrow>
          if en_fishAddr n = fishAddr then s
          else
            (case getLiveEdge (en_fishAddr n) (en_fishAddr startingNode) (ts_topo s) of
               (e, t) \<Rightarrow>
                 let s1 = s\<lparr>ts_topo := t\<rparr>
                 in if e \<noteq> None \<and> isAlive n
                    then let s2 = snd (sendAddNeighbor send k startingNode s1)
                         in snd (sendAddNeighbor send fishAddr n s2)
                    else s1)
      | _ \<Rightarrow> s)"

definition updateNeighbors :: "(nat \<Rightarrow> nat \<Rightarrow> int) \<Rightarrow> int \<Rightarrow> trawler \<Rightarrow> trawler" where
  "updateNeighbors send fishAddr s =
     (case getEmulatedNode fishAddr s of
        None \<Rightarrow> s
      | Some _ \<Rightarrow> fold (ts_update_neighbor send fishAddr) (map fst (ts_nodes s)) s)"

definition ts_failNode :: "(nat \<Rightarrow> nat \<Rightarrow> int) \<Rightarrow> int \<Rightarrow> trawler \<Rightarrow> trawler" where
  "ts_failNode send a s =
     (case getEmulatedNode a s of
        None \<Rightarrow> s
      | Some _ \<Rightarrow> removeAsNeighbor send a (snd (sendReset send a s)))"

definition ts_restartNode :: "(nat \<Rightarrow> nat \<Rightarrow> int) \<Rightarrow> int \<Rightarrow> trawler \<Rightarrow> trawler" where
  "ts_restartNode send a s = updateNeighbors send a s"

text \<open>\<open>remove\<close>: in one pass, erase the dying node and tell the others.\<close>

definition ts_remove_at :: "(nat \<Rightarrow> nat \<Rightarrow> int) \<Rightarrow> int \<Rightarrow> int \<Rightarrow> trawler \<Rightarrow> trawler" where
  "ts_remove_at send dyingAddr k s =
     (case getEmulatedNode k s of
        None \<Rightarrow> s
      | Some n \<Rightarrow>
          if en_fishAddr n = dyingAddr then s\<lparr>ts_nodes := AList.delete k (ts_nodes s)\<rparr>
          else ts_drop_neighbor send dyingAddr k s)"

definition ts_remove :: "(nat \<Rightarrow> nat \<Rightarrow> int) \<Rightarrow> int \<Rightarrow> trawler \<Rightarrow> trawler" where
  "ts_remove send dyingAddr s =
     fold (ts_remove_at send dyingAddr) (map fst (ts_nodes s))
       (ts_print (Cerr (''Removing node '' @ string_of_int dyingAddr)) s)"

definition ts_check_node :: "(nat \<Rightarrow> nat \<Rightarrow> int) \<Rightarrow> int \<Rightarrow> trawler \<Rightarrow> trawler" where
  "ts_check_node send k s =
     (case getEmulatedNode k s of
        None \<Rightarrow> s
      | Some n \<Rightarrow>
          if isAlive n then s
          else
            let closed = AList.update k (en_close n) (ts_nodes s);
                s1 = s\<lparr>ts_nodes := AList.delete k closed\<rparr>
            in fold (ts_drop_neighbor send (en_fishAddr n)) (map fst (ts_nodes s1)) s1)"

definition checkNodesQuit :: "(nat \<Rightarrow> nat \<Rightarrow> int) \<Rightarrow> trawler \<Rightarrow> trawler" where
  "checkNodesQuit send s = fold (ts_check_node send) (map fst (ts_nodes s)) s"

definition freeFishAddr :: "trawler \<Rightarrow> int" where
  "freeFishAddr s =
     (case find (\<lambda>i. getEmulatedNode i s = None) (map int [0..<nat BROADCAST_ADDRESS]) of
        Some i \<Rightarrow> i
      | None \<Rightarrow> - 1)"

definition portConflict :: "string \<Rightarrow> int \<Rightarrow> trawler \<Rightarrow> bool" where
  "portConflict ipAddress udpPort s \<longleftrightarrow>
     list_ex (\<lambda>(_, n). en_ipAddress n = ipAddress \<and> en_udpPort n = udpPort) (ts_nodes s)"

section \<open>TrawlerCommandsParser\<close>

definition ts_parseNodeCmd :: "string list \<Rightarrow> trawler \<Rightarrow> trawler" where
  "ts_parseNodeCmd cmd s = ts_print (Cerr (''Trawler: Could not understand command: '' @ printStrArray cmd)) s"

definition ts_exit :: "trawler \<Rightarrow> trawler" where
  "ts_exit s = ts_print (Cout ''Trawler exiting...'') s"

definition ts_exitCmd :: "string list \<Rightarrow> trawler \<Rightarrow> bool \<times> trawler" where
  "ts_exitCmd cmd s = (if cmd ! 0 = ''exit'' then (True, ts_exit s) else (False, s))"

definition ts_createNewEdge :: "(nat \<Rightarrow> nat \<Rightarrow> int) \<Rightarrow> int \<Rightarrow> int \<Rightarrow> edge_options \<Rightarrow> trawler \<Rightarrow> trawler" where
  "ts_createNewEdge send a b opts s = ts_startEdge send a b (s\<lparr>ts_topo := newEdge a b opts (ts_topo s)\<rparr>)"

definition ts_failEdgeHook :: "(nat \<Rightarrow> nat \<Rightarrow> int) \<Rightarrow> int \<Rightarrow> int \<Rightarrow> trawler \<Rightarrow> bool \<times> trawler" where
  "ts_failEdgeHook send a b s =
     (case failEdge a b (ts_topo s) of
        (True, t) \<Rightarrow> (True, ts_failEdge send a b (s\<lparr>ts_topo := t\<rparr>))
      | (False, t) \<Rightarrow> (False, s\<lparr>ts_topo := t\<rparr>))"

definition ts_failNodeHook :: "(nat \<Rightarrow> nat \<Rightarrow> int) \<Rightarrow> int \<Rightarrow> trawler \<Rightarrow> trawler" where
  "ts_failNodeHook send a s =
     (let s1 = ts_failNode send a s in s1\<lparr>ts_topo := failNode a (ts_topo s1)\<rparr>)"

definition ts_restartEdgeHook :: "(nat \<Rightarrow> nat \<Rightarrow> int) \<Rightarrow> int \<Rightarrow> int \<Rightarrow> trawler \<Rightarrow> bool \<times> trawler" where
  "ts_restartEdgeHook send a b s =
     (case restartEdge a b (ts_topo s) of
        (True, t) \<Rightarrow> (True, ts_startEdge send a b (s\<lparr>ts_topo := t\<rparr>))
      | (False, t) \<Rightarrow> (False, s\<lparr>ts_topo := t\<rparr>))"

definition ts_restartNodeHook :: "(nat \<Rightarrow> nat \<Rightarrow> int) \<Rightarrow> int \<Rightarrow> trawler \<Rightarrow> trawler" where
  "ts_restartNodeHook send a s = ts_restartNode send a (s\<lparr>ts_topo := restartNode a (ts_topo s)\<rparr>)"

definition ts_ops :: "(nat \<Rightarrow> nat \<Rightarrow> int) \<Rightarrow> trawler parser_ops" where
  "ts_ops send =
     \<lparr>po_exitCmd = ts_exitCmd, po_parseNodeCmd = ts_parseNodeCmd, po_createNewEdge = ts_createNewEdge send,
      po_failEdge = ts_failEdgeHook send, po_failNode = ts_failNodeHook send,
      po_restartEdge = ts_restartEdgeHook send, po_restartNode = ts_restartNodeHook send, po_print = ts_print\<rparr>"

section \<open>The accept loop\<close>

text \<open>The dotted form of an IPv4 address, as \<open>inet_ntop\<close> prints it.\<close>

type_synonym ipv4 = "byte \<times> byte \<times> byte \<times> byte"

definition addrToString :: "ipv4 \<Rightarrow> string" where
  "addrToString a =
     (case a of (a, b, c, d) \<Rightarrow>
        string_of_int (uint a) @ ''.'' @ string_of_int (uint b) @ ''.'' @
        string_of_int (uint c) @ ''.'' @ string_of_int (uint d))"

text \<open>Execute what is due of the topology file; \<open>False\<close> when a command ended the process.\<close>

definition ts_parseRemainder :: "(nat \<Rightarrow> nat \<Rightarrow> int) \<Rightarrow> int \<Rightarrow> trawler \<Rightarrow> bool \<times> trawler" where
  "ts_parseRemainder send now s =
     (case parseRemainder (parseLine (ts_ops send)) now (ts_reader s) s of
        (r, rd, s1) \<Rightarrow>
          (case r of
             None \<Rightarrow> (False, s1\<lparr>ts_reader := rd\<rparr>)
           | Some d \<Rightarrow> (True, s1\<lparr>ts_reader := rd, ts_defer := d\<rparr>)))"

text \<open>Answer a client on a socket that is not a node's: what was written, and the state.\<close>

definition ts_reply :: "(nat \<Rightarrow> nat \<Rightarrow> int) \<Rightarrow> int \<Rightarrow> trawler \<Rightarrow> string \<times> trawler" where
  "ts_reply send v s =
     (case writeLineToFd send (ts_sends s) (string_of_int v) of (_, out, k) \<Rightarrow> (out, s\<lparr>ts_sends := k\<rparr>))"

definition ts_admit :: "(nat \<Rightarrow> nat \<Rightarrow> int) \<Rightarrow> int \<Rightarrow> string \<Rightarrow> int \<Rightarrow> trawler \<Rightarrow> string \<times> trawler" where
  "ts_admit send clientFd ipAddress port s =
     (if port < 1024 \<or> portConflict ipAddress port s
      then ts_reply send BROADCAST_ADDRESS (ts_print (Cerr (''Trawler: Illegal port: '' @ string_of_int port)) s)
      else
        let fishAddr = freeFishAddr s
        in if fishAddr = - 1
           then ts_reply send BROADCAST_ADDRESS (ts_print (Cerr ''Trawler: out of addresses'') s)
           else
             (case ts_reply send fishAddr
                     (ts_print (Cout (''Got port '' @ string_of_int port @ '': assigning addr: '' @
                                      string_of_int fishAddr)) s) of
                (greeting, s1) \<Rightarrow>
                  let node = emulated_node_ctor clientFd fishAddr ipAddress port greeting
                  in (greeting,
                      updateNeighbors send fishAddr (s1\<lparr>ts_nodes := AList.update fishAddr node (ts_nodes s1)\<rparr>))))"

text \<open>What \<open>accept\<close> returned: interrupted, failed, or a connection with the peer's address and all
  that the client sends on it.\<close>

datatype accept_result = AcceptIntr | AcceptFailed string | Accepted int ipv4 string

text \<open>One round; \<open>False\<close> when the loop or the process ends.\<close>

definition tr_accept :: "(nat \<Rightarrow> nat \<Rightarrow> int) \<Rightarrow> accept_result \<Rightarrow> int \<Rightarrow> trawler \<Rightarrow> bool \<times> trawler" where
  "tr_accept send r now s =
     (case r of
        AcceptIntr \<Rightarrow> (True, s)
      | AcceptFailed e \<Rightarrow> (False, ts_print (Cerr (''Trawler: accept() failed: '' @ e)) s)
      | Accepted clientFd peer input \<Rightarrow>
          let s1 = checkNodesQuit send s
          in (case (if ts_defer s1 > - 1 \<and> ts_defer s1 < now then ts_parseRemainder send now s1 else (True, s1)) of
                (False, s2) \<Rightarrow> (False, s2)
              | (True, s2) \<Rightarrow>
                  (case recv_line input of
                     None \<Rightarrow> (True, s2)
                   | Some portLine \<Rightarrow>
                       (case stoi portLine of
                          Inl _ \<Rightarrow> (True, ts_print (Cerr ''Msg received from node is not a port number.'') s2)
                        | Inr port \<Rightarrow> (True, snd (ts_admit send clientFd (addrToString peer) port s2))))))"

section \<open>Start-up\<close>

text \<open>\<open>file\<close>: the lines of the topology file, \<open>None\<close> when it cannot be opened; the three truth values
  are whether \<open>socket\<close>, \<open>bind\<close> and \<open>listen\<close> succeed. The result is an exception, the end of the
  process (\<open>None\<close>), or the trawler waiting for connections.\<close>

definition tr_start ::
  "(nat \<Rightarrow> nat \<Rightarrow> int) \<Rightarrow> string list option \<Rightarrow> int \<Rightarrow> bool \<Rightarrow> bool \<Rightarrow> bool \<Rightarrow> trawler \<Rightarrow> exn + trawler option" where
  "tr_start send file now socketOk bindOk listenOk s =
     ebind (if ts_topoFile s = [] then Inr (Some s)
            else
              (case parseFile (parseLine (ts_ops send)) (ts_topoFile s) file now s of
                 (Inl e, _, _) \<Rightarrow> Inl e
               | (Inr None, _, _) \<Rightarrow> Inr None
               | (Inr (Some d), rd, s1) \<Rightarrow> Inr (Some (s1\<lparr>ts_reader := rd, ts_defer := d\<rparr>)))) (\<lambda>r.
       (case r of
          None \<Rightarrow> Inr None
        | Some s1 \<Rightarrow>
            if \<not> socketOk then Inl (RuntimeError ''socket() failed'')
            else if \<not> bindOk
            then Inl (RuntimeError (''bind() failed on port '' @ string_of_int (ts_listenPort s1)))
            else if \<not> listenOk then Inl (RuntimeError ''listen() failed'')
            else Inr (Some (ts_print (Cout ''Trawler awaiting fish...'') (s1\<lparr>ts_running := True\<rparr>)))))"

inductive tr_step :: "(nat \<Rightarrow> nat \<Rightarrow> int) \<Rightarrow> bool \<times> trawler \<Rightarrow> bool \<times> trawler \<Rightarrow> bool" for send where
  accept: "tr_step send (True, s) (tr_accept send r now s)"

end
