(* ===== verification/Emulator.thy ===== *)
theory Emulator
  imports Commands_Parser Node_Invariant Streams
begin

text \<open>
  \<open>Emulator\<close> (\<open>emu/emulator.cpp\<close>) with \<open>EmulationCommandsParser\<close>: one node that exchanges UDP
  datagrams with its neighbours. Which neighbours it has, and with which link options, it
  learns from the trawler over a stream socket and, for the address, from the datagrams it
  receives; both fill the table \<open>arp_\<close>.

  Everything the operating system answers is the record \<open>emu_env\<close>: the readings of the clock,
  what each call of \<open>refreshARP\<close> finds on the trawler's socket, the random numbers of the
  links, which addresses \<open>inet_pton\<close> accepts and which calls of \<open>sendto\<close> fail. The state counts
  how much of each was used. \<open>emu_rt\<close> is the state behind \<open>RuntimeManager\<close>; the datagrams handed
  to \<open>sendto\<close> are collected in \<open>er_sent\<close>, what \<open>sendPkt\<close> prints in \<open>er_err\<close>. \<open>er_exited\<close> is set where
  the source calls \<open>exit\<close>, \<open>er_fault\<close> by a division by zero; the loop ends then.

  The main loop is a transition system over the phases \<open>ETop\<close> (about to read a command),
  \<open>EDrain t\<close> (running the events due at \<open>t\<close>), \<open>EWait\<close> (about to poll) and \<open>EEnded\<close>.
\<close>

section \<open>The environment\<close>

datatype recv_end = WouldBlock | RecvError | PeerClosed

record emu_env =
  env_clock :: "nat \<Rightarrow> int"
  env_trawler :: "nat \<Rightarrow> string list \<times> recv_end"
  env_rng :: "nat \<Rightarrow> nat \<Rightarrow> rat"
  env_pton :: "string \<Rightarrow> bool"
  env_sendto :: "nat \<Rightarrow> string option"

section \<open>The runtime state\<close>

record emulator_arp_data =
  ad_ipAddress :: string
  ad_udpPort :: int
  ad_link :: "emulated_link option"

record emu_rt =
  er_base :: rt_base
  er_reads :: nat
  er_feeds :: nat
  er_links :: nat
  er_sends :: nat
  er_trawlerBuf :: string
  er_arp :: "(int \<times> emulator_arp_data) list"
  er_sent :: "(byte list \<times> string \<times> int) list"
  er_err :: "string list"
  er_exited :: bool
  er_fault :: bool

definition clockMicros :: "emu_env \<Rightarrow> emu_rt \<Rightarrow> int" where
  "clockMicros env m = clock_reading (env_clock env (er_reads m))"

definition clock_tick :: "emu_rt \<Rightarrow> emu_rt" where
  "clock_tick m = m\<lparr>er_reads := Suc (er_reads m)\<rparr>"

definition emu_cerr :: "string \<Rightarrow> emu_rt \<Rightarrow> emu_rt" where
  "emu_cerr s m = m\<lparr>er_err := er_err m @ [s]\<rparr>"

definition emu_now :: "emu_env \<Rightarrow> emu_rt \<Rightarrow> int" where
  "emu_now env m = clockMicros env m sdiv 1000"

section \<open>ARP\<close>

definition arp_entry :: "emu_env \<Rightarrow> add_neighbor_result \<Rightarrow> emu_rt \<Rightarrow> emulator_arp_data" where
  "arp_entry env r m =
     \<lparr>ad_ipAddress = anr_ipAddress r, ad_udpPort = anr_port r,
      ad_link = map_option (\<lambda>opt. emulated_link_ctor opt (env_rng env (er_links m))) (anr_options r)\<rparr>"

definition arp_line :: "emu_env \<Rightarrow> string \<Rightarrow> emu_rt \<Rightarrow> emu_rt" where
  "arp_line env line m =
     (if line = [] then m
      else if receiveReset line then m\<lparr>er_arp := []\<rparr>
      else
        let rm = receiveRemoveNeighbor line
        in if rm \<ge> 0 then m\<lparr>er_arp := AList.delete rm (er_arp m)\<rparr>
           else
             (case receiveAddNeighbor line of
                Some r \<Rightarrow>
                  if validAddress (anr_nodeId r)
                  then m\<lparr>er_arp := AList.update (anr_nodeId r) (arp_entry env r m) (er_arp m),
                         er_links := Suc (er_links m)\<rparr>
                  else emu_cerr (''Unrecognized command from trawler: '' @ line) m
              | None \<Rightarrow> emu_cerr (''Unrecognized command from trawler: '' @ line) m))"

definition refreshARP :: "emu_env \<Rightarrow> emu_rt \<Rightarrow> emu_rt" where
  "refreshARP env m =
     (let (chunks, e) = env_trawler env (er_feeds m);
          m1 = m\<lparr>er_feeds := Suc (er_feeds m)\<rparr>
      in if e = PeerClosed then (emu_cerr ''Trawler socket closed'' m1)\<lparr>er_exited := True\<rparr>
         else (case drain_lines (arp_line env) (er_trawlerBuf m1 @ concat chunks) m1 of
                 (buf, m2) \<Rightarrow> m2\<lparr>er_trawlerBuf := buf\<rparr>))"

section \<open>Sending\<close>

text \<open>\<open>htons\<close> keeps 16 bits of the port.\<close>

definition physicalSend :: "emu_env \<Rightarrow> byte list \<Rightarrow> string \<Rightarrow> int \<Rightarrow> emu_rt \<Rightarrow> emu_rt" where
  "physicalSend env pkt ipAddress udpPort m =
     (if \<not> env_pton env ipAddress then emu_cerr (''inet_pton failed for '' @ ipAddress) m
      else
        let m1 = m\<lparr>er_sends := Suc (er_sends m)\<rparr>
        in (case env_sendto env (er_sends m) of
              Some e \<Rightarrow> emu_cerr (''sendto() failed: '' @ e) m1
            | None \<Rightarrow> m1\<lparr>er_sent := er_sent m1 @ [(pkt, ipAddress, udpPort mod 65536)]\<rparr>))"

text \<open>Delivery times are rounded up to milliseconds.\<close>

definition round_up_ms :: "int \<Rightarrow> int" where
  "round_up_ms t = (let usecFraction = t smod 1000 in if usecFraction \<noteq> 0 then i64 (t + 1000 - usecFraction) else t)"

definition emu_schedulePkt :: "emu_env \<Rightarrow> byte list \<Rightarrow> int \<Rightarrow> emu_rt \<Rightarrow> (exn + unit) \<times> emu_rt" where
  "emu_schedulePkt env pkt destAddr m =
     (case map_of (er_arp m) destAddr of
        None \<Rightarrow> (Inr (), m)
      | Some d \<Rightarrow>
          (case ad_link d of
             None \<Rightarrow> (Inr (), physicalSend env pkt (ad_ipAddress d) (ad_udpPort d) m)
           | Some l \<Rightarrow>
               let size0 = int (length pkt) - EP_HEADER_SIZE;
                   size' = (if size0 < 0 then int (length pkt) else size0);
                   currentTime = clockMicros env m;
                   m1 = clock_tick m
               in (case emulated_link_schedulePkt l size' currentTime (rb_stats (er_base m1)) of
                     (Inl (Fault _), _, _) \<Rightarrow> (Inr (), m1\<lparr>er_fault := True\<rparr>)
                   | (Inl e, _, _) \<Rightarrow> (Inl e, m1)
                   | (Inr timeToDeliver, l', st) \<Rightarrow>
                       let m2 = m1\<lparr>er_arp := AList.update destAddr (d\<lparr>ad_link := Some l'\<rparr>) (er_arp m1),
                                   er_base := (er_base m1)\<lparr>rb_stats := st\<rparr>\<rparr>
                       in (Inr (),
                           if timeToDeliver = - 1 then m2
                           else m2\<lparr>er_base := addEventAtMicros (round_up_ms timeToDeliver)
                                     (Some (CbPhysicalSend pkt (ad_ipAddress d) (ad_udpPort d))) (er_base m2)\<rparr>))))"

fun emu_schedule_each :: "emu_env \<Rightarrow> byte list \<Rightarrow> int list \<Rightarrow> emu_rt \<Rightarrow> (exn + unit) \<times> emu_rt" where
  "emu_schedule_each env pkt [] m = (Inr (), m)"
| "emu_schedule_each env pkt (k # ks) m =
     (case emu_schedulePkt env pkt k m of
        (Inl e, m1) \<Rightarrow> (Inl e, m1)
      | (Inr _, m1) \<Rightarrow> emu_schedule_each env pkt ks m1)"

definition emu_sendPkt :: "emu_env \<Rightarrow> int \<Rightarrow> int \<Rightarrow> byte list \<Rightarrow> emu_rt \<Rightarrow> (exn + bool) \<times> emu_rt" where
  "emu_sendPkt env from to pkt m =
     (case base_sendPkt from to pkt (er_base m) of
        (Inl e, _) \<Rightarrow> (Inl e, m)
      | (Inr _, b) \<Rightarrow>
          let m1 = refreshARP env (m\<lparr>er_base := b\<rparr>)
          in (case emulator_packet_ctor to from pkt of
                Inl e \<Rightarrow> (Inl e, m1)
              | Inr epkt \<Rightarrow>
                  let payload = emulator_packet_pack epkt
                  in if payload = [] then (Inr False, m1)
                     else if to \<noteq> BROADCAST_ADDRESS \<and> map_of (er_arp m1) to = None
                     then (Inr False,
                           emu_cerr (''Node '' @ string_of_int to @ '' is not a neighbor of node '' @ string_of_int from) m1)
                     else
                       (case emu_schedule_each env payload
                               (if to = BROADCAST_ADDRESS then map fst (er_arp m1) else [to]) m1 of
                          (Inr _, m2) \<Rightarrow> (Inr True, m2)
                        | (Inl e, m2) \<Rightarrow>
                            (Inr False,
                             emu_cerr (''Exception while trying to send to node: '' @ string_of_int to @
                                       ''. Exception: '' @ what e) m2))))"

definition emu_addTimer :: "emu_env \<Rightarrow> int \<Rightarrow> int \<Rightarrow> callback option \<Rightarrow> emu_rt \<Rightarrow> emu_rt" where
  "emu_addTimer env addr deltaMs cb m = m\<lparr>er_base := addTimer (emu_now env m) deltaMs cb (er_base m)\<rparr>"

definition emu_runtime :: "emu_env \<Rightarrow> emu_rt runtime" where
  "emu_runtime env = \<lparr>rt_sendPkt = emu_sendPkt env, rt_now = emu_now env, rt_addTimer = emu_addTimer env\<rparr>"

section \<open>The emulator\<close>

record emulator =
  em_localUdpPort :: int
  em_assignedNodeId :: int
  em_node :: "stack_node option"
  em_io :: "emu_rt io"
  em_udpReady :: bool
  em_trawlerReady :: bool
  em_stdinReady :: bool
  em_stdinEof :: bool
  em_stdinBuf :: string
  em_defer :: int

definition emu_upd :: "(emu_rt \<Rightarrow> emu_rt) \<Rightarrow> emulator \<Rightarrow> emulator" where
  "emu_upd f s = s\<lparr>em_io := (em_io s)\<lparr>io_rt := f (io_rt (em_io s))\<rparr>\<rparr>"

definition emu_print :: "console_out \<Rightarrow> emulator \<Rightarrow> emulator" where
  "emu_print x s = s\<lparr>em_io := (em_io s)\<lparr>io_out := io_out (em_io s) @ [x]\<rparr>\<rparr>"

definition emu_ended :: "emulator \<Rightarrow> bool" where
  "emu_ended s \<longleftrightarrow> er_exited (io_rt (em_io s)) \<or> er_fault (io_rt (em_io s))"

definition emu_at_node ::
  "(stack_node \<Rightarrow> emu_rt io \<Rightarrow> stack_node \<times> emu_rt io) \<Rightarrow> emulator \<Rightarrow> emulator" where
  "emu_at_node f s =
     (case em_node s of
        None \<Rightarrow> s
      | Some n \<Rightarrow> (case f n (em_io s) of (n', w) \<Rightarrow> s\<lparr>em_node := Some n', em_io := w\<rparr>))"

definition emu_sendNodeMsg :: "emu_env \<Rightarrow> int \<Rightarrow> string \<Rightarrow> emulator \<Rightarrow> bool \<times> emulator" where
  "emu_sendNodeMsg env nodeAddr msg s = (True, emu_at_node (onCommand (emu_runtime env) msg) s)"

text \<open>The constructor; \<open>stats\<close> and queue are those of the base class.\<close>

definition emu_ctor :: "emu_env \<Rightarrow> int \<Rightarrow> emulator" where
  "emu_ctor env localUdpPort =
     \<lparr>em_localUdpPort = localUdpPort, em_assignedNodeId = - 1, em_node = None,
      em_io = \<lparr>io_rt = \<lparr>er_base = rt_base_ctor (clock_reading (env_clock env 0)), er_reads = 1, er_feeds = 0, er_links = 0,
                        er_sends = 0, er_trawlerBuf = [], er_arp = [], er_sent = [], er_err = [],
                        er_exited = False, er_fault = False\<rparr>, io_out = []\<rparr>,
      em_udpReady = False, em_trawlerReady = False, em_stdinReady = False, em_stdinEof = False,
      em_stdinBuf = [], em_defer = 0\<rparr>"

section \<open>EmulationCommandsParser\<close>

definition emu_parseNodeCmd :: "emu_env \<Rightarrow> string list \<Rightarrow> emulator \<Rightarrow> emulator" where
  "emu_parseNodeCmd env cmd s = snd (emu_sendNodeMsg env 0 (join_words cmd) s)"

definition emu_exitCmd :: "emu_env \<Rightarrow> string list \<Rightarrow> emulator \<Rightarrow> bool \<times> emulator" where
  "emu_exitCmd env cmd s =
     (if cmd ! 0 = ''exit''
      then (True, fold (\<lambda>l. emu_print (Cerr l))
                    (stop_report (emu_now env (io_rt (em_io s))) (er_base (io_rt (em_io s)))) s)
      else (False, s))"

text \<open>The topology hooks are never reached: \<open>parseLine\<close> of this class goes to the common commands.\<close>

definition emu_ops :: "emu_env \<Rightarrow> emulator parser_ops" where
  "emu_ops env =
     \<lparr>po_exitCmd = emu_exitCmd env, po_parseNodeCmd = emu_parseNodeCmd env,
      po_createNewEdge = (\<lambda>_ _ _ s. s), po_failEdge = (\<lambda>_ _ s. (False, s)), po_failNode = (\<lambda>_ s. s),
      po_restartEdge = (\<lambda>_ _ s. (False, s)), po_restartNode = (\<lambda>_ s. s), po_print = emu_print\<rparr>"

definition emu_parseLine :: "emu_env \<Rightarrow> string \<Rightarrow> int \<Rightarrow> emulator \<Rightarrow> int option \<times> emulator" where
  "emu_parseLine env line nowMicros s =
     (if skipLine line then (Some (- 1), s)
      else parseCommonCmds (emu_ops env) (splitSpaces line) nowMicros s)"

definition emu_setCommandFile :: "string list option \<Rightarrow> emulator \<Rightarrow> emulator" where
  "emu_setCommandFile f = emu_upd (\<lambda>m. m\<lparr>er_base := snd (setCommandFile f (er_base m))\<rparr>)"

section \<open>Start-up\<close>

text \<open>The answers of the operating system while the sockets are opened, and what the trawler sends
  until it closes or the handshake is over.\<close>

record emu_boot =
  bt_resolved :: bool
  bt_tcpSocket :: bool
  bt_connected :: "string option"
  bt_udpSocket :: bool
  bt_bound :: bool
  bt_send :: "nat \<Rightarrow> nat \<Rightarrow> int"
  bt_reply :: string

definition connectToTrawler :: "emu_boot \<Rightarrow> string \<Rightarrow> exn + unit" where
  "connectToTrawler b trawlerHost =
     (if \<not> bt_resolved b then Inl (RuntimeError (''Could not resolve trawler host: '' @ trawlerHost))
      else if \<not> bt_tcpSocket b then Inl (RuntimeError ''trawler socket() failed'')
      else (case bt_connected b of
              Some e \<Rightarrow> Inl (RuntimeError (''connect() to trawler failed: '' @ e))
            | None \<Rightarrow> Inr ()))"

definition openUdpSocket :: "emu_boot \<Rightarrow> int \<Rightarrow> exn + unit" where
  "openUdpSocket b localUdpPort =
     (if \<not> bt_udpSocket b then Inl (RuntimeError ''udp socket() failed'')
      else if \<not> bt_bound b then Inl (InvalidArgument (''Illegal local udp port '' @ string_of_int localUdpPort))
      else Inr ())"

text \<open>The head of \<open>start\<close>, up to the loop: an exception, the end of the process (\<open>None\<close>), or the
  running emulator.\<close>

definition emu_start :: "emu_env \<Rightarrow> emu_boot \<Rightarrow> string \<Rightarrow> emulator \<Rightarrow> exn + emulator option" where
  "emu_start env b trawlerHost s =
     ebind (connectToTrawler b trawlerHost) (\<lambda>_.
     ebind (openUdpSocket b (em_localUdpPort s)) (\<lambda>_.
       if \<not> fst (writeLineToFd (bt_send b) 0 (string_of_int (em_localUdpPort s)))
       then Inl (RuntimeError ''Failed to send udp port to trawler'')
       else
         (case recv_line (bt_reply b) of
            None \<Rightarrow> Inl (RuntimeError ''Trawler closed during handshake'')
          | Some line \<Rightarrow>
              (case stoi line of
                 Inl _ \<Rightarrow> Inr None
               | Inr a \<Rightarrow>
                   if a = BROADCAST_ADDRESS
                   then Inl (InvalidArgument (''Illegal local port '' @ string_of_int (em_localUdpPort s)))
                   else
                     let n = stack_node_ctor a
                     in Inr (Some (s\<lparr>em_assignedNodeId := a, em_node := Some n,
                                     em_io := sn_start (emu_runtime env) n (em_io s)\<rparr>))))))"

section \<open>Receiving\<close>

definition learn_arp :: "int \<Rightarrow> string \<Rightarrow> int \<Rightarrow> emu_rt \<Rightarrow> emu_rt" where
  "learn_arp srcAddr ip port m =
     (if (case map_of (er_arp m) srcAddr of
            None \<Rightarrow> True
          | Some d \<Rightarrow> ad_ipAddress d \<noteq> ip \<or> ad_udpPort d \<noteq> port)
      then m\<lparr>er_arp := AList.update srcAddr \<lparr>ad_ipAddress = ip, ad_udpPort = port, ad_link = None\<rparr> (er_arp m)\<rparr>
      else m)"

text \<open>The argument is what \<open>recvfrom\<close> returned: the bytes, the sender's address and port.\<close>

definition processUdpPacket :: "emu_env \<Rightarrow> (byte list \<times> string \<times> int) option \<Rightarrow> emulator \<Rightarrow> emulator" where
  "processUdpPacket env dg s =
     (case dg of
        None \<Rightarrow> s
      | Some (bytes, ip, port) \<Rightarrow>
          if bytes = [] then s
          else
            (case emulator_packet_unpack bytes of
               None \<Rightarrow>
                 emu_print (Cerr (''Was unable to extract packet received from '' @ ip @ '':'' @ string_of_int port)) s
             | Some p \<Rightarrow>
                 let s1 = emu_upd (learn_arp (ep_srcAddr p) ip port) s
                 in if ep_destAddr p = em_assignedNodeId s1 \<or> ep_destAddr p = BROADCAST_ADDRESS
                    then emu_at_node (onReceive (emu_runtime env) (ep_srcAddr p) (ep_payload p)) s1
                    else s1))"

text \<open>Once the process has ended nothing more happens.\<close>

definition handleStdinLine :: "emu_env \<Rightarrow> string \<Rightarrow> emulator \<times> bool \<Rightarrow> emulator \<times> bool" where
  "handleStdinLine env line c =
     (case c of (s, ended) \<Rightarrow>
        if ended \<or> emu_ended s \<or> line = [] then (s, ended)
        else (case emu_parseLine env line (clockMicros env (io_rt (em_io s))) (emu_upd clock_tick s) of
                (r, s1) \<Rightarrow> (s1, r = None)))"

section \<open>The main loop\<close>

datatype poll_result =
    PollFailed "string option"   \<comment> \<open>\<open>None\<close>: interrupted\<close>
  | PollTimeout
  | PollReady bool bool bool bool \<comment> \<open>UDP, trawler, stdin readable, stdin hung up\<close>

record emu_input =
  in_poll :: poll_result
  in_datagram :: "(byte list \<times> string \<times> int) option"
  in_stdin :: "string list \<times> bool"

datatype emu_phase = ETop | EDrain int | EWait | EEnded

definition poll_timeout :: "int \<Rightarrow> int \<Rightarrow> int" where
  "poll_timeout deadlineMicros now =
     (if deadlineMicros = - 1 then - 1
      else i32 (i64 (max 0 (i64 (deadlineMicros - now)) + 999) sdiv 1000))"

definition pollIO :: "poll_result \<Rightarrow> emulator \<Rightarrow> emulator" where
  "pollIO r s =
     (case r of
        PollFailed (Some e) \<Rightarrow> emu_print (Cerr (''poll() failed: '' @ e)) s
      | PollFailed None \<Rightarrow> s
      | PollTimeout \<Rightarrow> s
      | PollReady udp trawler input hup \<Rightarrow>
          let s1 = s\<lparr>em_udpReady := udp, em_trawlerReady := trawler\<rparr>
          in if em_stdinEof s then s1
             else s1\<lparr>em_stdinReady := em_stdinReady s1 \<or> input, em_stdinEof := hup\<rparr>)"

definition emu_readCommandFile :: "emu_env \<Rightarrow> emulator \<Rightarrow> int option \<times> emulator" where
  "emu_readCommandFile env s =
     readCommandFile (emu_parseLine env) (\<lambda>s. rb_commandFile (er_base (io_rt (em_io s))))
       (\<lambda>f. emu_upd (\<lambda>m. m\<lparr>er_base := (er_base m)\<lparr>rb_commandFile := f\<rparr>\<rparr>))
       (emu_now env (io_rt (em_io s))) (em_defer s) s"

definition emu_top :: "emu_env \<Rightarrow> emulator \<Rightarrow> emu_phase \<times> emulator" where
  "emu_top env s =
     (let nowMicros = clockMicros env (io_rt (em_io s))
      in (case emu_readCommandFile env (emu_upd clock_tick s) of
            (None, s1) \<Rightarrow> (EEnded, s1)
          | (Some deferTill, s1) \<Rightarrow>
              (if emu_ended s1 then EEnded else EDrain nowMicros, s1\<lparr>em_defer := deferTill\<rparr>)))"

definition emu_callback :: "emu_env \<Rightarrow> callback option \<Rightarrow> emulator \<Rightarrow> emulator" where
  "emu_callback env cb s =
     (let threw = (\<lambda>e. emu_print (Cerr (''Exception while invoking method in Emulator: '' @ e)))
      in (case cb of
            None \<Rightarrow> threw ''bad_function_call'' s
          | Some (CbPhysicalSend pkt ip port) \<Rightarrow> emu_upd (physicalSend env pkt ip port) s
          | Some c \<Rightarrow>
              (case em_node s of
                 None \<Rightarrow> s
               | Some n \<Rightarrow>
                   (case sn_callback (emu_runtime env) c n (em_io s) of
                      (r, n', w) \<Rightarrow>
                        let s1 = s\<lparr>em_node := Some n', em_io := w\<rparr>
                        in (case r of
                              Inr _ \<Rightarrow> s1
                            | Inl (Fault _) \<Rightarrow> emu_upd (\<lambda>m. m\<lparr>er_fault := True\<rparr>) s1
                            | Inl e \<Rightarrow> threw (what e) s1)))))"

definition emu_fire :: "emu_env \<Rightarrow> int \<Rightarrow> emulator \<Rightarrow> emu_phase \<times> emulator" where
  "emu_fire env nowMicros s =
     (case removeNextEvent (rb_events (er_base (io_rt (em_io s)))) of
        None \<Rightarrow> (EWait, s)
      | Some (e, q) \<Rightarrow>
          if timeToOccur e > nowMicros then (EWait, s)
          else
            let s1 = emu_callback env (callback e)
                       (emu_upd (\<lambda>m. m\<lparr>er_base := (er_base m)\<lparr>rb_events := q\<rparr>\<rparr>) s)
            in (if emu_ended s1 then EEnded else EDrain nowMicros, s1))"

definition waitTill :: "int \<Rightarrow> int \<Rightarrow> rt_base \<Rightarrow> int" where
  "waitTill deferTill clock b =
     (case getNextEvent (rb_events b) of
        None \<Rightarrow> deferTill
      | Some e \<Rightarrow>
          if deferTill = - 1 then timeToOccur e
          else if deferTill = 0 then clock
          else min (timeToOccur e) deferTill)"

text \<open>The rest of the loop body: poll unless the wait is over, bring the table up to date, then the
  datagram and the lines typed by the user.\<close>

definition emu_poll :: "emu_env \<Rightarrow> emu_input \<Rightarrow> emulator \<Rightarrow> emulator" where
  "emu_poll env inp s =
     (let t = waitTill (em_defer s) (clockMicros env (io_rt (em_io s))) (er_base (io_rt (em_io s)));
          s1 = emu_upd clock_tick s;
          blocks = (t = - 1 \<or> clockMicros env (io_rt (em_io s1)) < t)
      in if blocks then pollIO (in_poll inp) (emu_upd clock_tick s1) else emu_upd clock_tick s1)"

definition emu_stdin :: "emu_env \<Rightarrow> emu_input \<Rightarrow> emulator \<Rightarrow> emulator \<times> bool" where
  "emu_stdin env inp s =
     (if \<not> em_stdinReady s then (s, False)
      else
        let s1 = s\<lparr>em_stdinReady := False, em_stdinEof := em_stdinEof s \<or> snd (in_stdin inp)\<rparr>
        in (case drain_lines (handleStdinLine env) (em_stdinBuf s1 @ concat (fst (in_stdin inp))) (s1, False) of
              (buf, s2, ended) \<Rightarrow> (s2\<lparr>em_stdinBuf := buf\<rparr>, ended)))"

definition emu_wait :: "emu_env \<Rightarrow> emu_input \<Rightarrow> emulator \<Rightarrow> emu_phase \<times> emulator" where
  "emu_wait env inp s =
     (let s1 = emu_upd (refreshARP env) (emu_poll env inp s)
      in if emu_ended s1 then (EEnded, s1)
         else
           let s2 = (if em_udpReady s1 then processUdpPacket env (in_datagram inp) (s1\<lparr>em_udpReady := False\<rparr>) else s1)
           in if emu_ended s2 then (EEnded, s2)
              else (case emu_stdin env inp s2 of
                      (s3, ended) \<Rightarrow> (if ended \<or> emu_ended s3 then EEnded else ETop, s3)))"

inductive emu_step :: "emu_env \<Rightarrow> emu_phase \<times> emulator \<Rightarrow> emu_phase \<times> emulator \<Rightarrow> bool" for env where
  top: "emu_step env (ETop, s) (emu_top env s)"
| event: "emu_step env (EDrain t, s) (emu_fire env t s)"
| wait: "emu_step env (EWait, s) (emu_wait env inp s)"

inductive_cases emu_stepE: "emu_step env c c'"

end
