(* ===== verification/Emu_Invariant.thy ===== *)
theory Emu_Invariant
  imports Emulator Node_Effects
begin

text \<open>
  The emulator keeps its state in order over every run, its table of neighbours refines the
  map the trawler describes, and it is a network in the sense of the theory \<open>Delivery\<close>.
\<close>


section \<open>The table of neighbours\<close>

definition arp_ok :: "(int \<times> emulator_arp_data) list \<Rightarrow> bool" where
  "arp_ok t \<longleftrightarrow> distinct (map fst t) \<and> (\<forall>k \<in> fst ` set t. validAddress k)"

lemma arp_ok_ops [wf_intro]:
  "arp_ok []"
  "arp_ok t \<Longrightarrow> validAddress k \<Longrightarrow> arp_ok (AList.update k v t)"
  "arp_ok t \<Longrightarrow> arp_ok (AList.delete k t)"
  using dom_update[of k v t] by (auto simp: arp_ok_def distinct_update distinct_map_filter AList.delete_eq)

text \<open>What the trawler knows of an entry.\<close>

definition arp_view :: "emu_rt \<Rightarrow> int \<rightharpoonup> string \<times> int \<times> edge_options option" where
  "arp_view m k = map_option (\<lambda>d. (ad_ipAddress d, ad_udpPort d, map_option el_options (ad_link d))) (map_of (er_arp m) k)"

lemma arp_view_upd:
  "arp_view (m\<lparr>er_arp := AList.update k v (er_arp m)\<rparr>) =
     (arp_view m)(k \<mapsto> (ad_ipAddress v, ad_udpPort v, map_option el_options (ad_link v)))"
  "arp_view (m\<lparr>er_arp := AList.delete k (er_arp m)\<rparr>) = (arp_view m)(k := None)"
  by (auto simp: arp_view_def fun_eq_iff update_conv' delete_conv')

lemma el_options_ctor [simp]: "el_options (emulated_link_ctor opt rng) = opt"
  by (simp add: emulated_link_ctor_def)

text \<open>What \<open>arp_line\<close> leaves alone.\<close>

definition arp_only :: "emu_rt \<Rightarrow> emu_rt \<Rightarrow> bool" where
  "arp_only m m' \<longleftrightarrow> er_base m' = er_base m \<and> er_sent m' = er_sent m \<and> er_reads m' = er_reads m \<and>
     er_sends m' = er_sends m \<and> er_fault m' = er_fault m \<and> (arp_ok (er_arp m) \<longrightarrow> arp_ok (er_arp m'))"

lemma arp_only_refl [simp]: "arp_only m m"
  by (simp add: arp_only_def)

lemma arp_only_trans: "arp_only m m1 \<Longrightarrow> arp_only m1 m2 \<Longrightarrow> arp_only m m2"
  by (simp add: arp_only_def)

lemma arp_only_line: "arp_only m (arp_line env line m)"
  by (auto simp: arp_line_def arp_only_def emu_cerr_def Let_def arp_ok_ops split: option.split)

lemma arp_only_drain: "arp_only m (snd (drain_lines (arp_line env) buf m))"
  by (rule drain_lines_keeps) (auto intro: arp_only_trans arp_only_line)

lemma arp_only_refresh: "arp_only m (refreshARP env m)"
proof -
  obtain cs e where f: "env_trawler env (er_feeds m) = (cs, e)" by fastforce
  let ?m = "m\<lparr>er_feeds := Suc (er_feeds m)\<rparr>"
  obtain buf m' where d: "drain_lines (arp_line env) (er_trawlerBuf ?m @ concat cs) ?m = (buf, m')" by fastforce
  have "arp_only ?m m'" using arp_only_drain d by (metis snd_conv)
  with d f show ?thesis by (auto simp: refreshARP_def Let_def arp_only_def emu_cerr_def)
qed

text \<open>The lines of the trawler are updates of the map of neighbours.\<close>

lemma arp_line_add:
  assumes "neighbor_ok r" "validAddress (anr_nodeId r)"
  shows "arp_view (arp_line env (add_line r) m) =
    (arp_view m)(anr_nodeId r \<mapsto> (anr_ipAddress r, anr_port r, anr_options r))"
proof -
  have "add_line r \<noteq> []" using add_line_split[of r] assms(1) by (auto simp: neighbor_ok_def splitSpace_def pop_trailing_empty_def)
  moreover have "map_option el_options (ad_link (arp_entry env r m)) = anr_options r"
    by (cases "anr_options r") (simp_all add: arp_entry_def)
  ultimately show ?thesis
    using receive_add_line[OF assms(1)] add_line_not_remove[OF assms(1)] assms(2)
    by (simp add: arp_line_def) (simp add: arp_view_def fun_eq_iff update_conv' arp_entry_def)
qed

lemma arp_line_remove:
  assumes "validAddress k"
  shows "arp_view (arp_line env (removeNeighbor k) m) = (arp_view m)(k := None)"
proof -
  have "in_i32 k" "0 \<le> k" using assms by (simp_all add: validAddress_def in_i32_def cxx_const)
  then show ?thesis
    using receive_remove[of k] remove_not_reset[of k]
    by (simp add: arp_line_def arp_view_upd) (simp add: removeNeighbor_def)
qed

lemma arp_line_reset: "arp_view (arp_line env arp_reset m) = Map.empty"
  by (simp add: arp_line_def arp_reset_def receiveReset_def arp_view_def fun_eq_iff)


section \<open>The runtime state\<close>

definition emu_event_ok :: "int \<Rightarrow> nat \<Rightarrow> callback \<Rightarrow> bool" where
  "emu_event_ok a k cb \<longleftrightarrow> own_timer a k cb \<or>
     (\<exists>p ip port. cb = CbPhysicalSend (emulator_packet_pack p) ip port \<and> emulator_packet_ok p)"

definition emu_rt_ok :: "int \<Rightarrow> nat \<Rightarrow> emu_rt \<Rightarrow> bool" where
  "emu_rt_ok a k m \<longleftrightarrow> arp_ok (er_arp m) \<and> base_wf (er_base m) \<and>
     (\<forall>e \<in> set (rb_events (er_base m)). emu_event_ok a k (the (callback e)))"

lemma emu_rt_ok_mono: "emu_rt_ok a k m \<Longrightarrow> k \<le> k' \<Longrightarrow> emu_rt_ok a k' m"
proof -
  have "own_timer a k cb \<Longrightarrow> k \<le> k' \<Longrightarrow> own_timer a k' cb" for cb by (cases cb) auto
  then show "emu_rt_ok a k m \<Longrightarrow> k \<le> k' \<Longrightarrow> emu_rt_ok a k' m" by (auto simp: emu_rt_ok_def emu_event_ok_def)
qed

lemma emu_rt_ok_cong: "er_arp m' = er_arp m \<Longrightarrow> er_base m' = er_base m \<Longrightarrow> emu_rt_ok a k m' = emu_rt_ok a k m"
  by (simp add: emu_rt_ok_def)

lemma emu_rt_ok_frame [simp]:
  "emu_rt_ok a k (emu_cerr x m) = emu_rt_ok a k m" "emu_rt_ok a k (clock_tick m) = emu_rt_ok a k m"
  "emu_rt_ok a k (m\<lparr>er_fault := b\<rparr>) = emu_rt_ok a k m"
  "emu_rt_ok a k (physicalSend env pkt ip port m) = emu_rt_ok a k m"
  by (auto intro!: emu_rt_ok_cong simp: emu_cerr_def clock_tick_def physicalSend_def Let_def split: option.split)

lemma emu_rt_ok_refresh: "emu_rt_ok a k m \<Longrightarrow> emu_rt_ok a k (refreshARP env m)"
  using arp_only_refresh[of m env] by (auto simp: emu_rt_ok_def arp_only_def)

lemma arp_ok_valid: "arp_ok t \<Longrightarrow> map_of t k = Some d \<Longrightarrow> validAddress k"
  by (force simp: arp_ok_def dest: map_of_SomeD)

lemma emu_schedulePkt_cases:
  obtains (unknown) "map_of (er_arp m) dest = None" "emu_schedulePkt env pkt dest m = (Inr (), m)"
  | (direct) d where "map_of (er_arp m) dest = Some d" "ad_link d = None"
      "emu_schedulePkt env pkt dest m = (Inr (), physicalSend env pkt (ad_ipAddress d) (ad_udpPort d) m)"
  | (failed) r b where "emu_schedulePkt env pkt dest m = (r, (clock_tick m)\<lparr>er_fault := b\<rparr>)"
  | (gone) d l' st where "map_of (er_arp m) dest = Some d"
      "emu_schedulePkt env pkt dest m =
        (Inr (), (clock_tick m)\<lparr>er_arp := AList.update dest (d\<lparr>ad_link := Some l'\<rparr>) (er_arp m), er_base := (er_base m)\<lparr>rb_stats := st\<rparr>\<rparr>)"
  | (queued) d l' st t where "map_of (er_arp m) dest = Some d"
      "emu_schedulePkt env pkt dest m =
        (Inr (), (clock_tick m)\<lparr>er_arp := AList.update dest (d\<lparr>ad_link := Some l'\<rparr>) (er_arp m),
           er_base := addEventAtMicros (round_up_ms t) (Some (CbPhysicalSend pkt (ad_ipAddress d) (ad_udpPort d))) ((er_base m)\<lparr>rb_stats := st\<rparr>)\<rparr>)"
proof (cases "map_of (er_arp m) dest")
  case None
  then show thesis using unknown by (simp add: emu_schedulePkt_def)
next
  case (Some d)
  show thesis
  proof (cases "ad_link d")
    case None
    then show thesis using direct[OF Some] Some by (simp add: emu_schedulePkt_def)
  next
    case l: (Some l)
    let ?sz = "let size0 = int (length pkt) - EP_HEADER_SIZE in if size0 < 0 then int (length pkt) else size0"
    obtain q l' st where q: "emulated_link_schedulePkt l ?sz (clockMicros env m) (rb_stats (er_base (clock_tick m))) = (q, l', st)"
      by (metis prod_cases3)
    have ct: "er_arp (clock_tick m) = er_arp m" "er_base (clock_tick m) = er_base m" by (simp_all add: clock_tick_def)
    consider (f) x where "q = Inl (Fault x)" | (e) x where "q = Inl x" "\<forall>y. x \<noteq> Fault y" | (a) "q = Inr (- 1)" | (b) t where "q = Inr t" "t \<noteq> - 1"
      by (cases q) auto
    then show thesis
    proof cases
      case f
      then show thesis using failed[of "Inr ()" True] Some l q by (simp add: emu_schedulePkt_def Let_def)
    next
      case e
      have "clock_tick m\<lparr>er_fault := er_fault m\<rparr> = clock_tick m" by (simp add: clock_tick_def)
      then show thesis using failed[of "Inl x" "er_fault m"] Some l q e by (simp add: emu_schedulePkt_def Let_def split: exn.split)
    next
      case a
      then show thesis using gone[OF Some] Some l q by (simp add: emu_schedulePkt_def Let_def ct)
    next
      case b
      then show thesis using queued[OF Some] Some l q by (simp add: emu_schedulePkt_def Let_def ct)
    qed
  qed
qed

lemma emu_rt_ok_schedulePkt:
  assumes ok: "emu_rt_ok a k m" and p: "emulator_packet_ok p" "pkt = emulator_packet_pack p"
  shows "emu_rt_ok a k (snd (emu_schedulePkt env pkt dest m))"
proof -
  have v: "map_of (er_arp m) dest = Some d \<Longrightarrow> validAddress dest" for d using ok arp_ok_valid by (auto simp: emu_rt_ok_def)
  have new: "emu_event_ok a k (CbPhysicalSend pkt ip port)" for ip port using p by (auto simp: emu_event_ok_def)
  show ?thesis
  proof (cases rule: emu_schedulePkt_cases[of m dest env pkt])
    case (gone d l' st)
    then show ?thesis using ok v[OF gone(1)] by (simp add: emu_rt_ok_def arp_ok_ops base_wf_def)
  next
    case (queued d l' st t)
    then show ?thesis using ok v[OF queued(1)] new
      by (auto simp: emu_rt_ok_def arp_ok_ops base_wf_def addEventAtMicros_def time_sorted_addEvent)
  qed (use ok in simp_all)
qed

lemma emu_rt_ok_schedule_each:
  "emu_rt_ok a k m \<Longrightarrow> emulator_packet_ok p \<Longrightarrow> emu_rt_ok a k (snd (emu_schedule_each env (emulator_packet_pack p) ks m))"
proof (induction ks arbitrary: m)
  case (Cons x ks)
  obtain r m1 where r: "emu_schedulePkt env (emulator_packet_pack p) x m = (r, m1)" by fastforce
  have "emu_rt_ok a k m1" using emu_rt_ok_schedulePkt[OF Cons.prems refl, of env x] r by simp
  with Cons show ?case by (simp add: r split: sum.split)
qed simp


section \<open>Sending\<close>

lemma base_sendPkt_ep:
  assumes "base_sendPkt from to pkt b = (Inr r, b')"
  obtains e where "emulator_packet_ctor to from pkt = Inr e" "emulator_packet_ok e" "ep_srcAddr e = from"
    "ep_destAddr e = to" "ep_payload e = pkt" "rb_events b' = rb_events b" "base_wf b' = base_wf b"
proof
  show "emulator_packet_ctor to from pkt = Inr \<lparr>ep_destAddr = to, ep_srcAddr = from, ep_payload = pkt\<rparr>"
    "emulator_packet_ok \<lparr>ep_destAddr = to, ep_srcAddr = from, ep_payload = pkt\<rparr>"
    "rb_events b' = rb_events b" "base_wf b' = base_wf b"
    using assms
    by (auto simp: base_sendPkt_def emulator_packet_ctor_def emulator_packet_ok_def base_wf_def cxx_const
        split: if_splits option.splits)
qed simp_all

lemma emulator_packet_pack_nonempty [simp]: "emulator_packet_pack e \<noteq> []"
  by (simp add: emulator_packet_pack_def)

lemma emu_sendPkt_cases:
  obtains (refused) e where "emu_sendPkt env from to pkt m = (Inl e, m)"
  | (stranger) b m1 where "base_sendPkt from to pkt (er_base m) = (Inr True, b)" "m1 = refreshARP env (m\<lparr>er_base := b\<rparr>)"
      "to \<noteq> BROADCAST_ADDRESS" "map_of (er_arp m1) to = None"
      "emu_sendPkt env from to pkt m =
        (Inr False, emu_cerr (''Node '' @ string_of_int to @ '' is not a neighbor of node '' @ string_of_int from) m1)"
  | (scheduled) b m1 e r m2 where "base_sendPkt from to pkt (er_base m) = (Inr True, b)" "m1 = refreshARP env (m\<lparr>er_base := b\<rparr>)"
      "emulator_packet_ctor to from pkt = Inr e" "emulator_packet_ok e"
      "emu_schedule_each env (emulator_packet_pack e) (if to = BROADCAST_ADDRESS then map fst (er_arp m1) else [to]) m1 = (r, m2)"
      "emu_sendPkt env from to pkt m = (case r of Inr _ \<Rightarrow> (Inr True, m2)
         | Inl x \<Rightarrow> (Inr False, emu_cerr (''Exception while trying to send to node: '' @ string_of_int to @ ''. Exception: '' @ what x) m2))"
      "to = BROADCAST_ADDRESS \<or> map_of (er_arp m1) to \<noteq> None"
proof -
  obtain q b where q: "base_sendPkt from to pkt (er_base m) = (q, b)" by fastforce
  show thesis
  proof (cases q)
    case (Inl e)
    then show thesis using refused q by (simp add: emu_sendPkt_def)
  next
    case (Inr x)
    then obtain e where e: "emulator_packet_ctor to from pkt = Inr e" "emulator_packet_ok e" using base_sendPkt_ep q by metis
    have x: "q = Inr True" using q Inr by (auto simp: base_sendPkt_def split: if_splits option.splits)
    let ?m = "refreshARP env (m\<lparr>er_base := b\<rparr>)"
    obtain r m2 where r: "emu_schedule_each env (emulator_packet_pack e) (if to = BROADCAST_ADDRESS then map fst (er_arp ?m) else [to]) ?m = (r, m2)"
      by fastforce
    show thesis
    proof (cases "to \<noteq> BROADCAST_ADDRESS \<and> map_of (er_arp ?m) to = None")
      case True
      then show thesis using stranger[of b ?m] q x e by (simp add: emu_sendPkt_def Let_def)
    next
      case False
      then show thesis using scheduled[of b ?m e r m2] q x e r
        by (auto simp: emu_sendPkt_def Let_def split: sum.split)
    qed
  qed
qed

lemma emu_rt_ok_sendPkt:
  assumes ok: "emu_rt_ok a k m"
  shows "emu_rt_ok a k (snd (emu_sendPkt env from to pkt m))"
proof -
  have ref: "emu_rt_ok a k (refreshARP env (m\<lparr>er_base := b\<rparr>))" if "base_sendPkt from to pkt (er_base m) = (Inr r, b)" for r b
    using ok by (intro emu_rt_ok_refresh) (rule base_sendPkt_ep[OF that], simp add: emu_rt_ok_def)
  show ?thesis
  proof (cases rule: emu_sendPkt_cases[of env "from" to pkt m])
    case (refused e)
    then show ?thesis using ok by simp
  next
    case (stranger b m1)
    then show ?thesis using ref[OF stranger(1)] by simp
  next
    case (scheduled b m1 e r m2)
    have "emu_rt_ok a k m2"
      using emu_rt_ok_schedule_each[OF ref[OF scheduled(1)] scheduled(4)] scheduled(2,5) by (metis snd_conv)
    then show ?thesis using scheduled(6) by (simp split: sum.split)
  qed
qed

interpretation emu_keeper: runtime_keeper "emu_runtime env" a k "emu_rt_ok a k" for env a k
proof
  fix m dest bs
  assume "emu_rt_ok a k m"
  then show "emu_rt_ok a k (snd (rt_sendPkt (emu_runtime env) a dest bs m))"
    by (simp add: emu_runtime_def emu_rt_ok_sendPkt)
next
  fix m cb d
  assume "emu_rt_ok a k m" "own_timer a k cb"
  then show "emu_rt_ok a k (rt_addTimer (emu_runtime env) a d (Some cb) m)"
    by (auto simp: emu_runtime_def emu_addTimer_def emu_rt_ok_def emu_event_ok_def addTimer_def addTimerAt_def base_wf_def time_sorted_addEvent)
qed


section \<open>The emulator is a network\<close>

text \<open>The packets of the datagrams that are scheduled or were sent; UDP may deliver any of them.\<close>

definition datagram :: "byte list \<Rightarrow> wire_pkt list" where
  "datagram bs = (case emulator_packet_unpack bs of None \<Rightarrow> [] | Some e \<Rightarrow> [(ep_srcAddr e, ep_destAddr e, ep_payload e)])"

fun scheduled_datagram :: "callback option \<Rightarrow> wire_pkt list" where
  "scheduled_datagram (Some (CbPhysicalSend pkt ip port)) = datagram pkt"
| "scheduled_datagram _ = []"

definition emu_onwire :: "emu_rt \<Rightarrow> wire_pkt set" where
  "emu_onwire m = (\<Union>e \<in> set (rb_events (er_base m)). set (scheduled_datagram (callback e))) \<union>
     (\<Union>x \<in> set (er_sent m). set (datagram (fst x)))"

lemma emu_onwire_frame [simp]:
  "emu_onwire (emu_cerr x m) = emu_onwire m" "emu_onwire (clock_tick m) = emu_onwire m"
  "emu_onwire (m\<lparr>er_fault := b\<rparr>) = emu_onwire m" "emu_onwire (m\<lparr>er_arp := t\<rparr>) = emu_onwire m"
  by (simp_all add: emu_onwire_def emu_cerr_def clock_tick_def)

lemma emu_onwire_physicalSend: "emu_onwire (physicalSend env pkt ip port m) \<subseteq> emu_onwire m \<union> set (datagram pkt)"
  by (auto simp: emu_onwire_def physicalSend_def emu_cerr_def Let_def split: option.split)

lemma emu_onwire_refresh: "emu_onwire (refreshARP env m) = emu_onwire m"
  using arp_only_refresh[of m env] by (simp add: arp_only_def emu_onwire_def)

lemma emu_onwire_schedulePkt:
  "emu_onwire (snd (emu_schedulePkt env pkt dest m)) \<subseteq> emu_onwire m \<union> set (datagram pkt)"
proof (cases rule: emu_schedulePkt_cases[of m dest env pkt])
  case (gone d l' st)
  then show ?thesis by (simp add: emu_onwire_def clock_tick_def)
next
  case (queued d l' st t)
  then show ?thesis by (auto simp: emu_onwire_def addEventAtMicros_def clock_tick_def)
qed (simp_all add: emu_onwire_physicalSend)

lemma emu_onwire_schedule_each:
  "emu_onwire (snd (emu_schedule_each env pkt ks m)) \<subseteq> emu_onwire m \<union> set (datagram pkt)"
proof (induction ks arbitrary: m)
  case (Cons k ks)
  obtain r m1 where r: "emu_schedulePkt env pkt k m = (r, m1)" by fastforce
  then show ?case using Cons[of m1] emu_onwire_schedulePkt[of env pkt k m] by (auto split: sum.split)
qed simp

interpretation emu_net: network "emu_runtime env" emu_onwire for env
proof
  have send: "(\<exists>e. r = Inl e \<and> m' = m) \<or> emu_onwire m' \<subseteq> emu_onwire m \<union> {(f, t, bs)} \<and> isl r = False"
    if r: "emu_sendPkt env f t bs m = (r, m')" for f t bs m r m'
  proof -
    have ref: "emu_onwire (refreshARP env (m\<lparr>er_base := b\<rparr>)) = emu_onwire m"
      if "base_sendPkt f t bs (er_base m) = (Inr x, b)" for x b
      by (rule base_sendPkt_ep[OF that]) (simp add: emu_onwire_refresh, simp add: emu_onwire_def)
    show ?thesis
    proof (cases rule: emu_sendPkt_cases[of env f t bs m])
      case (refused e)
      then show ?thesis using r by simp
    next
      case (stranger b m1)
      then show ?thesis using ref[OF stranger(1)] r by auto
    next
      case (scheduled b m1 e q m2)
      have "set (datagram (emulator_packet_pack e)) = {(f, t, bs)}"
        using emulator_packet_unpack_pack[OF scheduled(4)] scheduled(3)
        by (auto simp: datagram_def emulator_packet_ctor_def split: if_splits)
      then have "emu_onwire m2 \<subseteq> emu_onwire m \<union> {(f, t, bs)}"
        using emu_onwire_schedule_each[of env "emulator_packet_pack e" "if t = BROADCAST_ADDRESS then map fst (er_arp m1) else [t]" m1]
          scheduled(2,5) ref[OF scheduled(1)] by simp
      then show ?thesis using scheduled(6) r by (auto split: sum.splits)
    qed
  qed
  fix f t bs m m'
  show "emu_onwire m' \<subseteq> emu_onwire m \<union> {(f, t', bs) |t'. True}" if "rt_sendPkt (emu_runtime env) f t bs m = (Inr r, m')" for r
    using send[of f t bs m "Inr r" m'] that by (auto simp: emu_runtime_def)
  show "emu_onwire m' \<subseteq> emu_onwire m" if "rt_sendPkt (emu_runtime env) f t bs m = (Inl e, m')" for e
    using send[of f t bs m "Inl e" m'] that by (auto simp: emu_runtime_def)
next
  fix addr d cb m
  assume "node_timer cb"
  then show "emu_onwire (rt_addTimer (emu_runtime env) addr d (Some cb) m) \<subseteq> emu_onwire m"
    by (cases cb) (auto simp: emu_runtime_def emu_addTimer_def emu_onwire_def addTimer_def addTimerAt_def)
qed


section \<open>The emulator's invariant\<close>

definition emu_wf :: "emulator \<Rightarrow> bool" where
  "emu_wf s \<longleftrightarrow> (case em_node s of None \<Rightarrow> False
     | Some n \<Rightarrow> node_wf n \<and> sn_addr n = em_assignedNodeId s \<and>
         emu_rt_ok (em_assignedNodeId s) (length (sn_tasks n)) (io_rt (em_io s)))"

definition emu_room :: "emulator \<Rightarrow> bool" where
  "emu_room s \<longleftrightarrow> (case em_node s of None \<Rightarrow> True | Some n \<Rightarrow> node_room n)"

definition emu_node_op :: "stack_node \<Rightarrow> emu_rt io \<Rightarrow> stack_node \<Rightarrow> emu_rt io \<Rightarrow> bool" where
  "emu_node_op n w n' w' \<longleftrightarrow> node_wf n' \<and> sn_addr n' = sn_addr n \<and> length (sn_tasks n) \<le> length (sn_tasks n') \<and>
     (emu_rt_ok (sn_addr n) (length (sn_tasks n')) (io_rt w) \<longrightarrow> emu_rt_ok (sn_addr n) (length (sn_tasks n')) (io_rt w'))"

lemma emu_wf_node_op:
  assumes "emu_wf s" "em_node s = Some n" "emu_node_op n (em_io s) n' w'"
  shows "emu_wf (s\<lparr>em_node := Some n', em_io := w'\<rparr>)"
  using assms emu_rt_ok_mono[of "em_assignedNodeId s" "length (sn_tasks n)" "io_rt (em_io s)" "length (sn_tasks n')"]
  by (simp add: emu_wf_def emu_node_op_def)

lemma emu_node_op_command:
  assumes "node_wf n"
  shows "emu_node_op n w (fst (onCommand (emu_runtime env) msg n w)) (snd (onCommand (emu_runtime env) msg n w))"
  using emu_keeper.keeps_onCommand[OF assms refl order_refl] assms
  by (simp add: emu_node_op_def emu_keeper.keeps_def node_wf_onCommand node_ops_grow)

lemma emu_node_op_receive:
  assumes "node_wf n" "node_room n"
  shows "emu_node_op n w (fst (onReceive (emu_runtime env) from msg n w)) (snd (onReceive (emu_runtime env) from msg n w))"
  using emu_keeper.keeps_onReceive[of n "sn_addr n"] assms
  by (simp add: emu_node_op_def emu_keeper.keeps_def node_wf_onReceive node_ops_grow) (simp add: node_wf_def)

lemma emu_node_op_callback:
  assumes "node_wf n" "node_room n" "callback_ok n cb" "sn_callback (emu_runtime env) cb n w = (r, n', w')"
  shows "emu_node_op n w n' w'"
proof -
  have g: "sn_addr n' = sn_addr n" "length (sn_tasks n) \<le> length (sn_tasks n')" using node_ops_grow(3)[OF assms(4)] by auto
  from emu_keeper.keeps_callback[OF assms(1) refl assms(3) g(2) assms(4) order_refl]
  show ?thesis using g node_wf_callback[OF assms(1-4)] by (simp add: emu_node_op_def emu_keeper.keeps_def)
qed

lemma emu_wf_frame [simp]:
  "emu_wf (emu_print x s) = emu_wf s" "emu_wf (s\<lparr>em_defer := d\<rparr>) = emu_wf s"
  "emu_wf (s\<lparr>em_udpReady := b\<rparr>) = emu_wf s" "emu_wf (s\<lparr>em_stdinBuf := x'\<rparr>) = emu_wf s"
  "emu_wf (s\<lparr>em_stdinReady := b, em_stdinEof := c\<rparr>) = emu_wf s"
  "emu_wf (s\<lparr>em_udpReady := b, em_trawlerReady := c\<rparr>) = emu_wf s"
  "emu_wf (s\<lparr>em_udpReady := b, em_trawlerReady := c, em_stdinReady := d', em_stdinEof := e\<rparr>) = emu_wf s"
  by (simp_all add: emu_wf_def emu_print_def split: option.split)

lemma emu_wf_upd:
  "emu_wf s \<Longrightarrow> (\<And>a k m. emu_rt_ok a k m \<Longrightarrow> emu_rt_ok a k (f m)) \<Longrightarrow> emu_wf (emu_upd f s)"
  by (auto simp: emu_wf_def emu_upd_def split: option.splits)

lemma emu_wf_fold_print [simp]: "emu_wf (fold (\<lambda>l. emu_print (Cerr l)) ls s) = emu_wf s"
  by (induction ls arbitrary: s) simp_all

lemma emu_wf_at_node:
  assumes "emu_wf s" "\<And>n. em_node s = Some n \<Longrightarrow> emu_node_op n (em_io s) (fst (f n (em_io s))) (snd (f n (em_io s)))"
  shows "emu_wf (emu_at_node f s)"
proof -
  obtain n where n: "em_node s = Some n" using assms(1) by (auto simp: emu_wf_def split: option.splits)
  from emu_wf_node_op[OF assms(1) n assms(2)[OF n]] show ?thesis by (simp add: emu_at_node_def n split_beta)
qed

lemma emu_wf_node: "emu_wf s \<Longrightarrow> em_node s = Some n \<Longrightarrow> node_wf n"
  by (simp add: emu_wf_def)

interpretation emu_parser: parser_keeps "emu_ops env" emu_wf for env
  by unfold_locales
     (auto simp: emu_ops_def emu_exitCmd_def emu_parseNodeCmd_def emu_sendNodeMsg_def
       intro!: emu_wf_at_node emu_node_op_command dest: emu_wf_node)

lemma emu_wf_parseLine: "emu_wf s \<Longrightarrow> emu_wf (snd (emu_parseLine env line now s))"
  by (simp add: emu_parseLine_def emu_parser.common_keeps)

lemma emu_wf_file: "emu_wf s \<Longrightarrow> emu_wf (emu_upd (\<lambda>m. m\<lparr>er_base := (er_base m)\<lparr>rb_commandFile := f\<rparr>\<rparr>) s)"
  by (rule emu_wf_upd) (auto simp: emu_rt_ok_def base_wf_def)

lemma emu_wf_tick [simp]: "emu_wf (emu_upd clock_tick s) = emu_wf s"
  by (auto simp: emu_wf_def emu_upd_def split: option.splits)

lemma emu_wf_readCommandFile: "emu_wf s \<Longrightarrow> emu_wf (snd (emu_readCommandFile env s))"
  using emu_wf_file emu_wf_parseLine
  by (simp add: emu_readCommandFile_def readCommandFile_def case_prod_unfold split: option.split list.split)

lemma emu_wf_top: "emu_wf s \<Longrightarrow> emu_wf (snd (emu_top env s))"
  using emu_wf_readCommandFile[of "emu_upd clock_tick s" env]
  by (simp add: emu_top_def Let_def case_prod_unfold split: option.split)

lemma emu_wf_learn: "validAddress a \<Longrightarrow> emu_rt_ok x k m \<Longrightarrow> emu_rt_ok x k (learn_arp a ip port m)"
  by (simp add: learn_arp_def emu_rt_ok_def arp_ok_ops)

lemma emu_room_upd [simp]: "emu_room (emu_upd f s) = emu_room s" "emu_room (emu_print x s) = emu_room s"
  by (simp_all add: emu_room_def emu_upd_def emu_print_def)

lemma emu_wf_processUdpPacket:
  assumes "emu_wf s" "emu_room s"
  shows "emu_wf (processUdpPacket env dg s)"
proof (cases dg)
  case (Some d)
  obtain bytes ip port where d: "d = (bytes, ip, port)" by (cases d) auto
  show ?thesis
  proof (cases "emulator_packet_unpack bytes")
    case (Some p)
    let ?s = "emu_upd (learn_arp (ep_srcAddr p) ip port) s"
    have "validAddress (ep_srcAddr p)" using emulator_packet_unpack_valid[OF Some] by (simp add: emulator_packet_ok_def)
    then have wf: "emu_wf ?s" using assms(1) emu_wf_learn by (intro emu_wf_upd) auto
    moreover have "emu_node_op n (em_io ?s) (fst (onReceive (emu_runtime env) f bs n (em_io ?s))) (snd (onReceive (emu_runtime env) f bs n (em_io ?s)))"
      if "em_node ?s = Some n" for n f bs
      using emu_wf_node[OF wf that] assms(2) that by (intro emu_node_op_receive) (simp_all add: emu_room_def emu_upd_def)
    ultimately show ?thesis using assms(1) \<open>dg = Some d\<close> d Some
      by (auto simp: processUdpPacket_def Let_def intro!: emu_wf_at_node)
  qed (use assms \<open>dg = Some d\<close> d in \<open>simp add: processUdpPacket_def\<close>)
qed (simp add: processUdpPacket_def assms)


lemma emu_wf_stdin:
  assumes "emu_wf s"
  shows "emu_wf (fst (emu_stdin env inp s))"
proof -
  have line: "emu_wf (fst (handleStdinLine env l c))" if "emu_wf (fst c)" for l c
    using that emu_wf_parseLine[of "emu_upd clock_tick (fst c)" env l]
    by (simp add: handleStdinLine_def case_prod_unfold)
  have "emu_wf (fst (snd (drain_lines (handleStdinLine env) buf (s1, False))))" if "emu_wf s1" for buf s1
    by (rule drain_lines_keeps[where P="\<lambda>c. emu_wf (fst c)"]) (simp_all add: line that)
  then show ?thesis using assms by (simp add: emu_stdin_def Let_def case_prod_unfold)
qed

lemma emu_wf_poll: "emu_wf s \<Longrightarrow> emu_wf (emu_poll env inp s)"
  by (simp add: emu_poll_def pollIO_def Let_def split: poll_result.split option.split)

lemma emu_node_frame:
  "em_node (emu_upd f s) = em_node s" "em_node (emu_print x s) = em_node s" "em_node (emu_poll env inp s) = em_node s"
  by (simp_all add: emu_upd_def emu_print_def emu_poll_def pollIO_def Let_def split: poll_result.split option.split)

lemma emu_wf_wait:
  assumes "emu_wf s" "emu_room s"
  shows "emu_wf (snd (emu_wait env inp s))"
proof -
  let ?s = "emu_upd (refreshARP env) (emu_poll env inp s)"
  have s1: "emu_wf ?s" using emu_wf_poll[OF assms(1)] emu_rt_ok_refresh by (intro emu_wf_upd) auto
  have "emu_room (?s\<lparr>em_udpReady := False\<rparr>)" using assms(2) by (simp add: emu_room_def emu_node_frame)
  then have "emu_wf (processUdpPacket env dg (?s\<lparr>em_udpReady := False\<rparr>))" for dg
    using s1 by (intro emu_wf_processUdpPacket) simp_all
  then show ?thesis using s1 emu_wf_stdin by (simp add: emu_wait_def Let_def case_prod_unfold)
qed

lemma emu_wf_callback:
  assumes wf: "emu_wf s" "emu_room s" and cb: "em_node s = Some n" "emu_event_ok (sn_addr n) (length (sn_tasks n)) c"
  shows "emu_wf (emu_callback env (Some c) s)"
proof (cases "\<exists>pkt ip port. c = CbPhysicalSend pkt ip port")
  case True
  then show ?thesis using wf(1) by (auto simp: emu_callback_def Let_def intro!: emu_wf_upd)
next
  case False
  then have own: "own_timer (sn_addr n) (length (sn_tasks n)) c" using cb(2) by (auto simp: emu_event_ok_def)
  obtain r n' w where r: "sn_callback (emu_runtime env) c n (em_io s) = (r, n', w)" by (metis prod_cases3)
  have "callback_ok n c" using own by (cases c) auto
  then have "emu_node_op n (em_io s) n' w"
    using emu_node_op_callback[OF emu_wf_node[OF wf(1) cb(1)] _ _ r] wf(2) cb(1) by (simp add: emu_room_def)
  then have "emu_wf (s\<lparr>em_node := Some n', em_io := w\<rparr>)" by (rule emu_wf_node_op[OF wf(1) cb(1)])
  then show ?thesis using own r cb(1)
    by (cases c) (auto simp: emu_callback_def Let_def split: sum.split exn.split intro!: emu_wf_upd)
qed

lemma emu_wf_fire:
  assumes wf: "emu_wf s" "emu_room s"
  shows "emu_wf (snd (emu_fire env t s))"
proof (cases "rb_events (er_base (io_rt (em_io s)))")
  case (Cons e q)
  obtain n where n: "em_node s = Some n" using wf(1) by (auto simp: emu_wf_def split: option.splits)
  let ?s = "emu_upd (\<lambda>m. m\<lparr>er_base := (er_base m)\<lparr>rb_events := q\<rparr>\<rparr>) s"
  have ok: "emu_rt_ok (sn_addr n) (length (sn_tasks n)) (io_rt (em_io s))" using wf(1) n by (simp add: emu_wf_def)
  then obtain c where c: "callback e = Some c" "emu_event_ok (sn_addr n) (length (sn_tasks n)) c"
    using Cons by (auto simp: emu_rt_ok_def base_wf_def)
  have "emu_wf ?s" using wf(1) n ok Cons by (auto simp: emu_wf_def emu_upd_def emu_rt_ok_def base_wf_def time_sorted_def)
  then have "emu_wf (emu_callback env (Some c) ?s)"
    using c(2) n wf(2) by (intro emu_wf_callback[where n=n]) (simp_all add: emu_node_frame)
  then show ?thesis using wf(1) Cons c(1) by (simp add: emu_fire_def removeNextEvent_def Let_def)
qed (simp add: emu_fire_def removeNextEvent_def wf)

lemma emu_wf_start:
  assumes "emu_start env b host (emu_setCommandFile f (emu_ctor env port)) = Inr (Some s)"
  shows "emu_wf s"
proof -
  let ?s = "emu_setCommandFile f (emu_ctor env port)"
  obtain a where s: "s = ?s\<lparr>em_assignedNodeId := a, em_node := Some (stack_node_ctor a),
      em_io := sn_start (emu_runtime env) (stack_node_ctor a) (em_io ?s)\<rparr>"
    using assms by (auto simp: emu_start_def ebind_def Let_def split: sum.splits if_splits option.splits)
  have "tm_addr (sn_tcp (stack_node_ctor a)) = a" "sn_addr (stack_node_ctor a) = a"
    using node_wf_ctor[of a] by (simp_all add: node_wf_def) (simp_all add: stack_node_ctor_def)
  from emu_keeper.keeps_start[OF this(2,1)]
  have "emu_rt_ok a 0 (io_rt (em_io ?s)) \<longrightarrow> emu_rt_ok a 0 (io_rt (em_io s))"
    by (simp add: s emu_keeper.keeps_def)
  moreover have "emu_rt_ok a 0 (io_rt (em_io ?s))"
    using base_wf_ops(5)[of "clock_reading (env_clock env 0)"]
    by (cases f) (simp_all add: emu_setCommandFile_def setCommandFile_def emu_upd_def emu_ctor_def emu_rt_ok_def arp_ok_ops(1) base_wf_def rt_base_ctor_def)
  ultimately show ?thesis by (simp add: emu_wf_def s node_wf_ctor) (simp add: stack_node_ctor_def)
qed

lemma emu_start_fresh:
  assumes "emu_start env b host s = Inr (Some s')"
  shows "er_feeds (io_rt (em_io s')) = er_feeds (io_rt (em_io s))" "er_trawlerBuf (io_rt (em_io s')) = er_trawlerBuf (io_rt (em_io s))"
    "er_sent (io_rt (em_io s')) = er_sent (io_rt (em_io s))"
  using assms
  by (auto simp: emu_start_def ebind_def Let_def sn_start_def tm_start_def addTimer_io_def emu_runtime_def emu_addTimer_def
      split: sum.splits if_splits option.splits)

inductive emu_reachable :: "emu_env \<Rightarrow> emu_phase \<times> emulator \<Rightarrow> bool" for env where
  start: "emu_start env b host (emu_setCommandFile f (emu_ctor env port)) = Inr (Some s) \<Longrightarrow> emu_reachable env (ETop, s)"
| step: "emu_reachable env c \<Longrightarrow> emu_room (snd c) \<Longrightarrow> emu_step env c c' \<Longrightarrow> emu_reachable env c'"

lemma reachable_emu_wf: "emu_reachable env c \<Longrightarrow> emu_wf (snd c)"
proof (induction rule: emu_reachable.induct)
  case (start b host f port s)
  then show ?case using emu_wf_start by simp
next
  case (step c c')
  from step.hyps(3) show ?case
    by cases (use step in \<open>simp_all add: emu_wf_top emu_wf_fire emu_wf_wait\<close>)
qed


section \<open>The stream from the trawler\<close>

datatype arp_cmd = ArpAdd add_neighbor_result | ArpRemove int | ArpReset

fun cmd_line :: "arp_cmd \<Rightarrow> string" where
  "cmd_line (ArpAdd r) = add_line r"
| "cmd_line (ArpRemove k) = removeNeighbor k"
| "cmd_line ArpReset = arp_reset"

fun cmd_apply :: "arp_cmd \<Rightarrow> (int \<rightharpoonup> string \<times> int \<times> edge_options option) \<Rightarrow> (int \<rightharpoonup> string \<times> int \<times> edge_options option)" where
  "cmd_apply (ArpAdd r) v = v(anr_nodeId r \<mapsto> (anr_ipAddress r, anr_port r, anr_options r))"
| "cmd_apply (ArpRemove k) v = v(k := None)"
| "cmd_apply ArpReset v = Map.empty"

text \<open>Commands that fit on a line.\<close>

fun cmd_ok :: "arp_cmd \<Rightarrow> bool" where
  "cmd_ok (ArpAdd r) \<longleftrightarrow> neighbor_ok r \<and> validAddress (anr_nodeId r) \<and> newline \<notin> set (anr_ipAddress r)"
| "cmd_ok (ArpRemove k) \<longleftrightarrow> validAddress k"
| "cmd_ok ArpReset \<longleftrightarrow> True"

lemma arp_line_cmd: "cmd_ok c \<Longrightarrow> arp_view (arp_line env (cmd_line c) m) = cmd_apply c (arp_view m)"
  by (cases c) (simp_all add: arp_line_add arp_line_remove arp_line_reset)

lemma arp_lines_cmds:
  "list_all cmd_ok cs \<Longrightarrow> arp_view (fold (arp_line env) (map cmd_line cs) m) = fold cmd_apply cs (arp_view m)"
  by (induction cs arbitrary: m) (simp_all add: arp_line_cmd)

lemma number_chars_not: "newline \<notin> set (string_of_int v)" "newline \<notin> set (javaDouble d)"
  using string_of_int_chars[of v] javaDouble_chars[of d] number_char_not by (auto simp: list_all_iff)

lemma last_number: "last (string_of_int v) \<noteq> carriage_return"
proof -
  have "number_char (last (string_of_int v))" using string_of_int_chars[of v] by (simp add: list_all_iff)
  then show ?thesis using number_char_not(3) by metis
qed

lemma pop_cr_id: "last l \<noteq> carriage_return \<Longrightarrow> pop_cr l = l"
  by (simp add: pop_cr_def)

lemma cmd_line_one_line:
  assumes "cmd_ok c"
  shows "newline \<notin> set (cmd_line c) \<and> pop_cr (cmd_line c) = cmd_line c"
proof (cases c)
  case (ArpAdd r)
  have "last (cmd_line c) \<noteq> carriage_return"
    using last_number by (simp add: ArpAdd add_line_def addNeighbor_def addNeighborOptions_def split: option.split)
  then show ?thesis
    using assms number_chars_not by (simp add: ArpAdd pop_cr_id) (simp add: add_line_def addNeighbor_def addNeighborOptions_def split: option.split)
next
  case (ArpRemove k)
  then show ?thesis using last_number number_chars_not by (simp add: removeNeighbor_def pop_cr_id)
next
  case ArpReset
  then show ?thesis by (simp add: arp_reset_def pop_cr_def)
qed

lemma arp_view_frame [simp]: "arp_view (m\<lparr>er_trawlerBuf := b\<rparr>) = arp_view m" "arp_view (m\<lparr>er_feeds := n\<rparr>) = arp_view m"
  by (simp_all add: arp_view_def fun_eq_iff)

lemma refreshARP_stream:
  assumes "env_trawler env (er_feeds m) = (chunks, e)" "e \<noteq> PeerClosed" "list_all cmd_ok cs"
    "er_trawlerBuf m @ concat chunks = concat (map (\<lambda>c. cmd_line c @ [newline]) cs) @ rest" "newline \<notin> set rest"
  shows "arp_view (refreshARP env m) = fold cmd_apply cs (arp_view m) \<and> er_trawlerBuf (refreshARP env m) = rest"
proof -
  let ?m = "m\<lparr>er_feeds := Suc (er_feeds m)\<rparr>"
  have "concat (map (\<lambda>c. cmd_line c @ [newline]) cs) = concat (map (\<lambda>l. l @ [newline]) (map cmd_line cs))"
    by (simp add: comp_def)
  moreover have "\<forall>l \<in> set (map cmd_line cs). newline \<notin> set l \<and> pop_cr l = l"
    using assms(3) cmd_line_one_line by (auto simp: list_all_iff)
  ultimately have "drain_lines (arp_line env) (er_trawlerBuf m @ concat chunks) ?m = (rest, fold (arp_line env) (map cmd_line cs) ?m)"
    using assms(4,5) drain_lines_lines[of "map cmd_line cs" "arp_line env" rest ?m] by (simp add: drain_lines_no_line)
  then show ?thesis using assms(1,2,3) arp_lines_cmds[of cs env ?m] by (simp add: refreshARP_def)
qed


section \<open>What is sent\<close>

lemma sent_schedulePkt:
  "set (er_sent (snd (emu_schedulePkt env pkt dest m))) \<subseteq> set (er_sent m) \<union> {(pkt, ip, port) | ip port. True}"
  by (cases rule: emu_schedulePkt_cases[of m dest env pkt])
     (auto simp: physicalSend_def emu_cerr_def clock_tick_def Let_def split: option.split)

lemma sent_schedule_each:
  "set (er_sent (snd (emu_schedule_each env pkt ks m))) \<subseteq> set (er_sent m) \<union> {(pkt, ip, port) | ip port. True}"
proof (induction ks arbitrary: m)
  case (Cons k ks)
  obtain r m1 where r: "emu_schedulePkt env pkt k m = (r, m1)" by fastforce
  then show ?case using Cons[of m1] sent_schedulePkt[of env pkt k m] by (auto split: sum.split)
qed simp

lemma round_up_ms:
  assumes "0 \<le> t" "t < 2 ^ 62"
  shows "t \<le> round_up_ms t" "round_up_ms t < t + 1000" "round_up_ms t mod 1000 = 0"
proof -
  have m: "t smod 1000 = t mod 1000" using assms by (cases "t = 0") (simp_all add: signed_modulo_int_def)
  have "0 \<le> t mod 1000" "t mod 1000 < 1000" by simp_all
  then have "in_i64 (t + 1000 - t mod 1000)" using assms by (auto simp: in_i64_def)
  then have r: "round_up_ms t = (if t mod 1000 = 0 then t else t + 1000 - t mod 1000)"
    by (simp add: round_up_ms_def m Let_def)
  have "(t + 1000 - t mod 1000) mod 1000 = (t + 1000 - t) mod 1000" by (rule mod_diff_right_eq)
  then have "(t + 1000 - t mod 1000) mod 1000 = 0" by simp
  then show "t \<le> round_up_ms t" "round_up_ms t < t + 1000" "round_up_ms t mod 1000 = 0"
    unfolding r using \<open>0 \<le> t mod 1000\<close> \<open>t mod 1000 < 1000\<close> by (auto simp: less_le)
qed

lemma link_schedulePkt_result:
  assumes "link_ok l" "emulated_link_schedulePkt l n t st = (q, l', st')"
  obtains (gone) "q = Inr (- 1)" "link_sched l n t = (- 1, l')"
  | (through) r where "q = Inr r" "link_sched l n t = (r, l')" "st' = st"
proof -
  have bw: "bwBytesPerSec (el_options l) \<noteq> 0" using assms(1) by (simp add: link_ok_def options_ok_def)
  have "q = Inr (fst (link_sched l n t)) \<and> l' = snd (link_sched l n t) \<and> (fst (link_sched l n t) = - 1 \<or> st' = st)"
    using assms(2) bw by (auto simp: link_sched_def emulated_link_schedulePkt_def Let_def split: if_splits)
  then show thesis using gone through by (metis prod.collapse)
qed


section \<open>A small emulator\<close>

definition demo_env :: emu_env where
  "demo_env =
     \<lparr>env_clock = (\<lambda>n. 5000000000 + 1000000 * int n),
      env_trawler = (\<lambda>n. (if n = 0 then [''add 7 10.0.0.7 50'', ''00\<newline>rem'']
                           else if n = 1 then [''ove 7\<newline>''] else [], WouldBlock)),
      env_rng = (\<lambda>_ _. 1), env_pton = (\<lambda>_. True), env_sendto = (\<lambda>_. None)\<rparr>"

definition demo_boot :: emu_boot where
  "demo_boot = \<lparr>bt_resolved = True, bt_tcpSocket = True, bt_connected = None, bt_udpSocket = True, bt_bound = True,
     bt_send = (\<lambda>_ _. 1), bt_reply = ''3\<newline>''\<rparr>"

definition demo_emu :: emulator where
  "demo_emu = (case emu_start demo_env demo_boot ''localhost'' (emu_setCommandFile None (emu_ctor demo_env 4000)) of
     Inr (Some s) \<Rightarrow> s | _ \<Rightarrow> emu_ctor demo_env 4000)"

lemma demo_emu_start: "emu_start demo_env demo_boot ''localhost'' (emu_setCommandFile None (emu_ctor demo_env 4000)) = Inr (Some demo_emu)"
proof -
  let ?r = "emu_start demo_env demo_boot ''localhost'' (emu_setCommandFile None (emu_ctor demo_env 4000))"
  have "case ?r of Inr (Some _) \<Rightarrow> True | _ \<Rightarrow> False" by code_simp
  then show ?thesis by (auto simp: demo_emu_def split: sum.splits option.splits)
qed

lemma demo_emu_reachable: "emu_reachable demo_env (ETop, demo_emu)"
  by (rule emu_reachable.start[OF demo_emu_start])

lemma demo_emu_fresh:
  "er_feeds (io_rt (em_io demo_emu)) = 0" "er_trawlerBuf (io_rt (em_io demo_emu)) = []" "er_sent (io_rt (em_io demo_emu)) = []"
  using emu_start_fresh[OF demo_emu_start] by (simp_all add: emu_setCommandFile_def setCommandFile_def emu_upd_def emu_ctor_def)

section \<open>Properties\<close>

text \<open>C8. Every configuration the emulator reaches, whatever the trawler, the network and the user
  send, is well formed: the node keeps its invariant, the table of neighbours has valid,
  distinct addresses, the event queue is ordered and holds only timers of existing tasks and
  datagrams with valid headers.\<close>

theorem emu_invariant: "emu_reachable env (p, s) \<Longrightarrow> emu_wf s"
  using reachable_emu_wf by fastforce

theorem emu_invariant_witness: "emu_reachable demo_env (ETop, demo_emu) \<and> emu_wf demo_emu"
  using emu_invariant demo_emu_reachable by blast

text \<open>C11. The table of neighbours refines the map that the trawler's commands describe, however the
  stream is cut into reads: complete lines update the map in order, an incomplete line waits
  in the buffer.\<close>

theorem trawler_stream_refines_map:
  assumes "env_trawler env (er_feeds m) = (chunks, e)" "e \<noteq> PeerClosed" "list_all cmd_ok cs"
    "er_trawlerBuf m @ concat chunks = concat (map (\<lambda>c. cmd_line c @ [newline]) cs) @ rest" "newline \<notin> set rest"
  shows "arp_view (refreshARP env m) = fold cmd_apply cs (arp_view m) \<and> er_trawlerBuf (refreshARP env m) = rest"
  using refreshARP_stream[OF assms] .

theorem trawler_stream_refines_map_witness:
  "let m = refreshARP demo_env (io_rt (em_io demo_emu)) in
     arp_view m 7 = Some (''10.0.0.7'', 5000, None) \<and> er_trawlerBuf m = ''rem''"
proof -
  let ?m = "io_rt (em_io demo_emu)"
  let ?r = "\<lparr>anr_nodeId = 7, anr_ipAddress = ''10.0.0.7'', anr_port = 5000, anr_options = None\<rparr>"
  have ok: "list_all cmd_ok [ArpAdd ?r]" by (simp add: neighbor_ok_def in_i32_def validAddress_def cxx_const)
  note f = demo_emu_fresh(1,2)
  have t: "env_trawler demo_env (er_feeds ?m) = ([''add 7 10.0.0.7 50'', ''00\<newline>rem''], WouldBlock)"
    by (simp add: f) (simp add: demo_env_def)
  have l: "cmd_line (ArpAdd ?r) = ''add 7 10.0.0.7 5000''"
    by (simp add: add_line_def addNeighbor_def print_eval)
  have "er_trawlerBuf ?m @ concat [''add 7 10.0.0.7 50'', ''00\<newline>rem''] =
      concat (map (\<lambda>c. cmd_line c @ [newline]) [ArpAdd ?r]) @ ''rem''"
    unfolding list.map l using f by simp
  from trawler_stream_refines_map[OF t _ ok this]
  have "arp_view (refreshARP demo_env ?m) = fold cmd_apply [ArpAdd ?r] (arp_view ?m) \<and> er_trawlerBuf (refreshARP demo_env ?m) = ''rem''"
    by simp
  then show ?thesis unfolding Let_def by simp
qed


definition demo_hi :: "byte list" where
  "demo_hi = packet_pack \<lparr>pk_dest = 7, pk_src = 3, pk_ttl = 15, pk_protocol = PING_PKT, pk_seq = 0, pk_payload = [104, 105]\<rparr>"




definition demo_link :: emulated_link where
  "demo_link = emulated_link_ctor default_edge_options (\<lambda>_. 1)"

definition demo_linked :: emu_rt where
  "demo_linked = (io_rt (em_io (emu_ctor demo_env 4000)))
     \<lparr>er_arp := [(7, \<lparr>ad_ipAddress = ''10.0.0.7'', ad_udpPort = 5000, ad_link = Some demo_link\<rparr>)]\<rparr>"


text \<open>A datagram teaches the emulator its sender: a node the trawler has removed, because its edge
  or the node failed, is a neighbour again as soon as one of its datagrams arrives, and is
  then reached without the delay, bandwidth and loss of a link.\<close>

theorem stray_datagram_restores_neighbour:
  assumes "arp_view m k = None"
  shows "arp_view (learn_arp k ip port m) = (arp_view m)(k \<mapsto> (ip, port, None))"
  using assms by (auto simp: learn_arp_def arp_view_def fun_eq_iff update_conv')

theorem stray_datagram_restores_neighbour_witness:
  "arp_view (learn_arp 9 ''10.0.0.9'' 6000 (io_rt (em_io (emu_ctor demo_env 4000)))) 9 = Some (''10.0.0.9'', 6000, None)"
  using stray_datagram_restores_neighbour[of "io_rt (em_io (emu_ctor demo_env 4000))" 9 "''10.0.0.9''" 6000]
  by (simp add: emu_ctor_def arp_view_def)

end
