(* ===== verification/Trawler_Invariant.thy ===== *)
theory Trawler_Invariant
  imports Trawler Emu_Invariant
begin

text \<open>
  The trawler keeps its table of nodes in order, and what it has written to each node whose
  socket works describes exactly the live edges of the topology to the other nodes. The
  operations between two consistent states are followed line by line: \<open>informed q L D s\<close> says
  that every node has been told the truth about every other, but for the pairs in \<open>D\<close>.
\<close>

section \<open>Live edges\<close>

text \<open>The options of the edge between two nodes when it is live.\<close>

definition live_opts :: "topology \<Rightarrow> int \<Rightarrow> int \<Rightarrow> edge_options option" where
  "live_opts t a b =
     (if isNodeAlive a t \<and> isNodeAlive b t
      then Option.bind (edge_state t a b) (\<lambda>(opt, l). if l then Some opt else None) else None)"

lemma live_opts_same: "same_topo t t' \<Longrightarrow> live_opts t' = live_opts t"
  by (simp add: live_opts_def same_topo_def isNodeAlive_def fun_eq_iff)

lemma live_opts_sym: "live_opts t a b = live_opts t b a"
  by (simp add: live_opts_def topo.state_sym[of t a b] conj_commute)

lemma getLiveEdge_opts:
  assumes "topo_wf t" "getLiveEdge a b t = (r, t')"
  shows "same_topo t t'" "map_option (\<lambda>i. e_options (edges t' ! i)) r = live_opts t a b"
    "r \<noteq> None \<longleftrightarrow> live_opts t a b \<noteq> None"
proof -
  show "same_topo t t'" by (rule same_topo_getLiveEdge[OF assms])
  note spec = getLiveEdge_spec(4,5)[OF assms]
  show m: "map_option (\<lambda>i. e_options (edges t' ! i)) r = live_opts t a b"
  proof (cases r)
    case None
    then show ?thesis using spec(1) by (cases "edge_state t a b") (auto simp: live_opts_def)
  next
    case (Some i)
    with spec show ?thesis by (simp add: live_opts_def)
  qed
  show "r \<noteq> None \<longleftrightarrow> live_opts t a b \<noteq> None" unfolding m[symmetric] by simp
qed

text \<open>Every edge has options that a line can carry.\<close>

definition opts_ok :: "topology \<Rightarrow> bool" where
  "opts_ok t \<longleftrightarrow> (\<forall>a b opt l. edge_state t a b = Some (opt, l) \<longrightarrow> options_printable opt)"

lemma opts_ok_same: "same_topo t t' \<Longrightarrow> opts_ok t' = opts_ok t"
  by (simp add: opts_ok_def same_topo_def)

lemma opts_ok_live: "opts_ok t \<Longrightarrow> live_opts t a b = Some opt \<Longrightarrow> options_printable opt"
  by (auto simp: opts_ok_def live_opts_def bind_eq_Some_conv split: if_splits)

lemma opts_ok_ops:
  "topo_wf t \<Longrightarrow> opts_ok t \<Longrightarrow> options_printable opt \<Longrightarrow> opts_ok (newEdge a b opt t)"
  "topo_wf t \<Longrightarrow> opts_ok t \<Longrightarrow> opts_ok (snd (changeEdge a b st t))"
  "opts_ok (failNode a t) = opts_ok t" "opts_ok (restartNode a t) = opts_ok t"
  by (auto simp: opts_ok_def newEdge_spec changeEdge_spec split: if_splits)

text \<open>No node and no edge has failed.\<close>

definition all_up :: "topology \<Rightarrow> bool" where
  "all_up t \<longleftrightarrow> failedNodes t = {} \<and> (\<forall>a b opt l. edge_state t a b = Some (opt, l) \<longrightarrow> l)"

lemma all_up_same: "same_topo t t' \<Longrightarrow> all_up t' = all_up t"
  by (simp add: all_up_def same_topo_def)

lemma all_up_ops:
  "topo_wf t \<Longrightarrow> all_up t \<Longrightarrow> all_up (newEdge a b opt t)"
  "topo_wf t \<Longrightarrow> all_up t \<Longrightarrow> all_up (snd (changeEdge a b True t))"
  "all_up t \<Longrightarrow> all_up (restartNode a t)"
  by (auto simp: all_up_def newEdge_spec changeEdge_spec split: if_splits option.splits) blast+

lemma all_up_live: "all_up t \<Longrightarrow> live_opts t a b = map_option fst (edge_state t a b)"
  unfolding all_up_def by (cases "edge_state t a b") (auto simp: live_opts_def isNodeAlive_def, blast)

text \<open>How the commands change which edges are live.\<close>

lemma live_opts_newEdge:
  assumes "topo_wf t" "{c, d} \<noteq> {a, b}"
  shows "live_opts (newEdge a b opt t) c d = live_opts t c d"
  using assms by (simp add: live_opts_def newEdge_spec isNodeAlive_def)

lemma live_opts_changeEdge:
  assumes "topo_wf t"
  shows "{c, d} \<noteq> {a, b} \<Longrightarrow> live_opts (snd (changeEdge a b st t)) c d = live_opts t c d"
    "{c, d} = {a, b} \<Longrightarrow> \<not> st \<Longrightarrow> live_opts (snd (changeEdge a b st t)) c d = None"
    "\<not> fst (changeEdge a b st t) \<Longrightarrow> live_opts (snd (changeEdge a b st t)) = live_opts t"
proof -
  show "{c, d} \<noteq> {a, b} \<Longrightarrow> live_opts (snd (changeEdge a b st t)) c d = live_opts t c d"
    using assms by (simp add: live_opts_def changeEdge_spec isNodeAlive_def)
  show "{c, d} = {a, b} \<Longrightarrow> \<not> st \<Longrightarrow> live_opts (snd (changeEdge a b st t)) c d = None"
    using assms by (cases "edge_state t a b") (auto simp: live_opts_def changeEdge_spec)
  assume "\<not> fst (changeEdge a b st t)"
  then have n: "edge_state t a b = None" using changeEdge_spec(2)[OF assms, of a b st] by blast
  have "edge_state (snd (changeEdge a b st t)) = edge_state t"
  proof (intro ext)
    fix c d
    have "edge_state t c d = None" if "{c, d} = {a, b}" using topo.state_pair[OF that] n by simp
    then show "edge_state (snd (changeEdge a b st t)) c d = edge_state t c d"
      using assms n by (auto simp: changeEdge_spec)
  qed
  then show "live_opts (snd (changeEdge a b st t)) = live_opts t" by (simp add: live_opts_def isNodeAlive_def fun_eq_iff)
qed

lemma live_opts_node:
  "live_opts (failNode a t) c d = (if a = c \<or> a = d then None else live_opts t c d)"
  "c \<noteq> a \<Longrightarrow> d \<noteq> a \<Longrightarrow> live_opts (restartNode a t) c d = live_opts t c d"
  by (auto simp: live_opts_def isNodeAlive_def)

section \<open>Nodes\<close>

definition plain_text :: "string \<Rightarrow> bool" where
  "plain_text s \<longleftrightarrow> CHR '' '' \<notin> set s \<and> newline \<notin> set s"

definition node_entry_ok :: "int \<times> emulated_node \<Rightarrow> bool" where
  "node_entry_ok p \<longleftrightarrow> en_fishAddr (snd p) = fst p \<and> 0 \<le> fst p \<and> fst p < BROADCAST_ADDRESS \<and>
     1024 \<le> en_udpPort (snd p) \<and> in_i32 (en_udpPort (snd p)) \<and> plain_text (en_ipAddress (snd p))"

definition endpoint :: "int \<times> emulated_node \<Rightarrow> string \<times> int" where
  "endpoint p = (en_ipAddress (snd p), en_udpPort (snd p))"

definition nodes_ok :: "(int \<times> emulated_node) list \<Rightarrow> bool" where
  "nodes_ok N \<longleftrightarrow> distinct (map fst N) \<and> distinct (map endpoint N) \<and> list_all node_entry_ok N"

definition ts_wf :: "trawler \<Rightarrow> bool" where
  "ts_wf s \<longleftrightarrow> topo_wf (ts_topo s) \<and> nodes_ok (ts_nodes s)"

text \<open>What writing to a node leaves as it was.\<close>

definition same_node :: "emulated_node \<Rightarrow> emulated_node \<Rightarrow> bool" where
  "same_node n n' \<longleftrightarrow> en_tcpFd n' = en_tcpFd n \<and> en_fishAddr n' = en_fishAddr n \<and> en_ipAddress n' = en_ipAddress n \<and>
     en_udpPort n' = en_udpPort n \<and> en_greeting n' = en_greeting n \<and> (en_alive n' \<longrightarrow> en_alive n)"

definition same_entry :: "int \<times> emulated_node \<Rightarrow> int \<times> emulated_node \<Rightarrow> bool" where
  "same_entry p p' \<longleftrightarrow> fst p' = fst p \<and> same_node (snd p) (snd p')"

lemma same_node_refl [simp]: "same_node n n"
  by (simp add: same_node_def)

lemma same_node_trans: "same_node n n1 \<Longrightarrow> same_node n1 n2 \<Longrightarrow> same_node n n2"
  by (auto simp: same_node_def)

lemma same_node_alive: "same_node n n' \<Longrightarrow> isAlive n' \<Longrightarrow> isAlive n"
  by (simp add: same_node_def isAlive_def)

lemma same_entry_update: "map_of N a = Some n \<Longrightarrow> same_node n n' \<Longrightarrow> list_all2 same_entry N (AList.update a n' N)"
  by (induction N) (auto simp: same_entry_def list.rel_refl)

lemma same_entry_map_of: "list_all2 same_entry N N' \<Longrightarrow> rel_option same_node (map_of N k) (map_of N' k)"
  by (induction rule: list_all2_induct) (auto simp: same_entry_def)

lemma same_entry_keys: "list_all2 same_entry N N' \<Longrightarrow> map fst N' = map fst N \<and> map endpoint N' = map endpoint N"
  by (induction rule: list_all2_induct) (auto simp: same_entry_def same_node_def endpoint_def)

lemma same_entry_ok: "list_all2 same_entry N N' \<Longrightarrow> nodes_ok N \<Longrightarrow> nodes_ok N'"
proof -
  assume r: "list_all2 same_entry N N'" and ok: "nodes_ok N"
  have "list_all node_entry_ok N'" if "list_all node_entry_ok N"
    using r that by (induction rule: list_all2_induct) (auto simp: same_entry_def same_node_def node_entry_ok_def)
  with ok same_entry_keys[OF r] show ?thesis by (simp add: nodes_ok_def)
qed

text \<open>What the operations that only send lines do to the state.\<close>

definition sends :: "trawler \<Rightarrow> trawler \<Rightarrow> bool" where
  "sends s s' \<longleftrightarrow> same_topo (ts_topo s) (ts_topo s') \<and> list_all2 same_entry (ts_nodes s) (ts_nodes s') \<and>
     ts_reader s' = ts_reader s \<and> ts_defer s' = ts_defer s"

lemma sends_refl: "ts_wf s \<Longrightarrow> sends s s"
  by (auto simp: sends_def ts_wf_def same_topo_refl same_entry_def intro: list.rel_refl)

lemma sends_trans: "sends s s1 \<Longrightarrow> sends s1 s2 \<Longrightarrow> sends s s2"
proof -
  have "same_entry p p1 \<Longrightarrow> same_entry p1 p2 \<Longrightarrow> same_entry p p2" for p p1 p2
    using same_node_trans by (auto simp: same_entry_def)
  then show "sends s s1 \<Longrightarrow> sends s1 s2 \<Longrightarrow> sends s s2"
    unfolding sends_def using same_topo_trans list_all2_trans[of same_entry same_entry same_entry] by metis
qed

lemma sends_wf: "sends s s' \<Longrightarrow> ts_wf s \<Longrightarrow> ts_wf s'"
  using same_entry_ok by (auto simp: sends_def ts_wf_def same_topo_def)

lemma sends_live: "sends s s' \<Longrightarrow> live_opts (ts_topo s') = live_opts (ts_topo s)"
  by (simp add: sends_def live_opts_same)

lemma sends_keys: "sends s s' \<Longrightarrow> map fst (ts_nodes s') = map fst (ts_nodes s)"
  using same_entry_keys by (simp add: sends_def)

lemma sends_node: "sends s s' \<Longrightarrow> rel_option same_node (getEmulatedNode k s) (getEmulatedNode k s')"
  using same_entry_map_of by (simp add: sends_def getEmulatedNode_def)

lemma sends_registered: "sends s s' \<Longrightarrow> getEmulatedNode k s' = None \<longleftrightarrow> getEmulatedNode k s = None"
  using sends_node[of s s' k] by (cases "getEmulatedNode k s"; cases "getEmulatedNode k s'") auto

lemma sends_topo: "ts_wf s \<Longrightarrow> getLiveEdge a b (ts_topo s) = (e, t) \<Longrightarrow> sends s (s\<lparr>ts_topo := t\<rparr>)"
  using sends_refl[of s] same_topo_getLiveEdge[of "ts_topo s"] by (auto simp: sends_def ts_wf_def)

lemma en_writeLine_same: "en_writeLine send k line n = (ok, n', k') \<Longrightarrow> same_node n n'"
  by (auto simp: en_writeLine_def same_node_def split: if_splits prod.splits)

lemma sends_write: "ts_wf s \<Longrightarrow> sends s (snd (ts_write send a line s))"
  using sends_refl[of s] same_entry_update[of "ts_nodes s" a] en_writeLine_same
  by (auto simp: ts_write_def getEmulatedNode_def sends_def split: option.split prod.split)

lemma sends_add: "ts_wf s \<Longrightarrow> sends s (snd (sendAddNeighbor send a peer s))"
proof -
  assume wf: "ts_wf s"
  show "sends s (snd (sendAddNeighbor send a peer s))"
  proof (cases "getEmulatedNode a s")
    case (Some n)
    obtain e t where g: "getLiveEdge (en_fishAddr n) (en_fishAddr peer) (ts_topo s) = (e, t)" by fastforce
    have 1: "sends s (s\<lparr>ts_topo := t\<rparr>)" by (rule sends_topo[OF wf g])
    then show ?thesis using sends_write[OF sends_wf[OF 1 wf]] sends_trans by (auto simp: sendAddNeighbor_def Some g)
  qed (simp add: sendAddNeighbor_def sends_refl[OF wf])
qed

lemma sends_remove: "ts_wf s \<Longrightarrow> sends s (snd (sendRemoveNeighbor send a b s))"
  by (simp add: sendRemoveNeighbor_def sends_write)

lemma sends_reset: "ts_wf s \<Longrightarrow> sends s (snd (sendReset send a s))"
  by (simp add: sendReset_def sends_write)

lemma sends_seq: "sends s s1 \<Longrightarrow> ts_wf s \<Longrightarrow> (ts_wf s1 \<Longrightarrow> sends s1 s2) \<Longrightarrow> sends s s2"
  using sends_trans sends_wf by blast

lemma sends_startEdge: "ts_wf s \<Longrightarrow> sends s (ts_startEdge send a b s)"
  by (auto simp: ts_startEdge_def Let_def sends_refl split: option.split intro: sends_seq[OF sends_add] sends_add)

lemma sends_failEdge: "ts_wf s \<Longrightarrow> sends s (ts_failEdge send a b s)"
  by (auto simp: ts_failEdge_def Let_def sends_refl split: option.split intro: sends_seq[OF sends_remove] sends_remove)

lemma sends_drop: "ts_wf s \<Longrightarrow> sends s (ts_drop_neighbor send d k s)"
  by (auto simp: ts_drop_neighbor_def Let_def sends_refl split: option.split prod.split
      intro: sends_seq[OF sends_topo] sends_remove sends_topo)

lemma sends_update:
  assumes wf: "ts_wf s"
  shows "sends s (ts_update_neighbor send a k s)"
proof (cases "\<exists>n st. getEmulatedNode k s = Some n \<and> getEmulatedNode a s = Some st \<and> en_fishAddr n \<noteq> a")
  case True
  then obtain n st where n: "getEmulatedNode k s = Some n" "getEmulatedNode a s = Some st" "en_fishAddr n \<noteq> a" by blast
  obtain e t where g: "getLiveEdge (en_fishAddr n) (en_fishAddr st) (ts_topo s) = (e, t)" by fastforce
  have 1: "sends s (s\<lparr>ts_topo := t\<rparr>)" by (rule sends_topo[OF wf g])
  moreover have "sends s (snd (sendAddNeighbor send a n (snd (sendAddNeighbor send k st (s\<lparr>ts_topo := t\<rparr>)))))"
    by (rule sends_seq[OF sends_seq[OF 1 wf sends_add] wf sends_add])
  ultimately show ?thesis using n g by (simp add: ts_update_neighbor_def Let_def)
qed (auto simp: ts_update_neighbor_def sends_refl[OF wf] split: option.split)

lemma sends_fold: "(\<And>k s. ts_wf s \<Longrightarrow> sends s (f k s)) \<Longrightarrow> ts_wf s \<Longrightarrow> sends s (fold f ks s)"
  by (induction ks arbitrary: s) (auto simp: sends_refl intro: sends_seq)

section \<open>What the nodes have been told\<close>

text \<open>The map that the lines on a node's socket describe.\<close>

definition heard :: "emulated_node \<Rightarrow> (int \<rightharpoonup> string \<times> int \<times> edge_options option) \<Rightarrow> bool" where
  "heard n v \<longleftrightarrow> (\<exists>cs. list_all cmd_ok cs \<and> en_out n = concat (map (\<lambda>c. cmd_line c @ [newline]) cs) \<and>
     v = fold cmd_apply cs Map.empty)"

lemma heard_write:
  assumes "heard n v" "cmd_ok c" "en_writeLine send k (cmd_line c) n = (ok, n', k')" "isAlive n'"
  shows "heard n' (cmd_apply c v)"
proof -
  obtain cs where cs: "list_all cmd_ok cs" "en_out n = concat (map (\<lambda>c. cmd_line c @ [newline]) cs)"
    "v = fold cmd_apply cs Map.empty" using assms(1) by (auto simp: heard_def)
  obtain out where w: "write_from send k (cmd_line c @ [newline]) = (True, out, k')" "en_out n' = en_out n @ out"
    using assms(3,4) by (auto simp: en_writeLine_def isAlive_def split: if_splits prod.splits)
  then have "en_out n' = en_out n @ cmd_line c @ [newline]" using write_from_prefix by blast
  then show ?thesis unfolding heard_def using cs assms(2) by (intro exI[of _ "cs @ [c]"]) simp
qed

text \<open>An entry that is not a neighbour: none or, unless \<open>q\<close>, one without link options.\<close>

definition quiet :: "bool \<Rightarrow> (string \<times> int \<times> edge_options option) option \<Rightarrow> bool" where
  "quiet q v \<longleftrightarrow> v = None \<or> \<not> q \<and> (\<exists>ip port. v = Some (ip, port, None))"

text \<open>The node \<open>a\<close> has been told the truth about \<open>b\<close>; \<open>L\<close> gives the live edges. Of a node whose socket
  is known to be broken, and that is about to be removed, nothing is required.\<close>

definition pair_ok ::
  "bool \<Rightarrow> (int \<Rightarrow> int \<Rightarrow> edge_options option) \<Rightarrow> (int \<times> emulated_node) list \<Rightarrow> int \<Rightarrow> int \<Rightarrow>
     (string \<times> int \<times> edge_options option) option \<Rightarrow> bool" where
  "pair_ok q L N a b v \<longleftrightarrow>
     (case (L a b, map_of N b) of
        (Some opt, Some n) \<Rightarrow> isAlive n \<longrightarrow> v = Some (en_ipAddress n, en_udpPort n, Some opt)
      | _ \<Rightarrow> quiet q v)"

text \<open>All pairs but those in \<open>D\<close>; \<open>V\<close> is what each node has been told.\<close>

definition told ::
  "bool \<Rightarrow> (int \<Rightarrow> int \<Rightarrow> edge_options option) \<Rightarrow> (int \<times> int) set \<Rightarrow> (int \<times> emulated_node) list \<Rightarrow>
     (int \<Rightarrow> int \<rightharpoonup> string \<times> int \<times> edge_options option) \<Rightarrow> bool" where
  "told q L D N V \<longleftrightarrow>
     (\<forall>a n. map_of N a = Some n \<and> isAlive n \<longrightarrow>
        heard n (V a) \<and> (\<forall>b. b \<noteq> a \<and> (a, b) \<notin> D \<longrightarrow> pair_ok q L N a b (V a b)))"

definition informed :: "bool \<Rightarrow> (int \<Rightarrow> int \<Rightarrow> edge_options option) \<Rightarrow> (int \<times> int) set \<Rightarrow> trawler \<Rightarrow> bool" where
  "informed q L D s \<longleftrightarrow> ts_wf s \<and> opts_ok (ts_topo s) \<and> (\<exists>V. told q L D (ts_nodes s) V)"

lemma pair_ok_mono:
  assumes "list_all2 same_entry N N'" "pair_ok q L N a b v"
  shows "pair_ok q L N' a b v"
  using same_entry_map_of[OF assms(1), of b] assms(2)
  by (cases "L a b"; cases "map_of N b"; cases "map_of N' b") (auto simp: pair_ok_def same_node_def isAlive_def)

text \<open>Pairs whose first node is gone or broken are of no concern.\<close>

definition unheard :: "trawler \<Rightarrow> int \<Rightarrow> bool" where
  "unheard s a \<longleftrightarrow> (case getEmulatedNode a s of None \<Rightarrow> True | Some n \<Rightarrow> \<not> isAlive n)"

lemma unheard_gone: "sends s s' \<Longrightarrow> getEmulatedNode a s = None \<Longrightarrow> unheard s' a"
  using sends_registered[of s s' a] by (simp add: unheard_def)

lemma informed_mono:
  assumes "informed q L D s" "\<And>a b. (a, b) \<in> D \<Longrightarrow> (a, b) \<in> D' \<or> a = b \<or> unheard s a \<or>
    L a b \<noteq> None \<and> getEmulatedNode b s \<noteq> None \<and> unheard s b"
  shows "informed q L D' s"
proof -
  obtain V where V: "told q L D (ts_nodes s) V" using assms(1) by (auto simp: informed_def)
  have "pair_ok q L (ts_nodes s) a b (V a b)"
    if n: "map_of (ts_nodes s) a = Some n" "isAlive n" and b: "b \<noteq> a" "(a, b) \<notin> D'" for a b n
  proof (cases "(a, b) \<in> D")
    case True
    then have "L a b \<noteq> None" "getEmulatedNode b s \<noteq> None" "unheard s b"
      using assms(2)[of a b] n b by (auto simp: unheard_def getEmulatedNode_def)
    then show ?thesis by (auto simp: pair_ok_def unheard_def getEmulatedNode_def)
  qed (use V n b in \<open>auto simp: told_def\<close>)
  then have "told q L D' (ts_nodes s) V" using V unfolding told_def by blast
  then show ?thesis using assms(1) by (auto simp: informed_def)
qed

lemma informed_topo: "informed q L D s \<Longrightarrow> same_topo (ts_topo s) t \<Longrightarrow> informed q L D (s\<lparr>ts_topo := t\<rparr>)"
  by (simp add: informed_def ts_wf_def opts_ok_same) (simp add: same_topo_def)

text \<open>A command for the node \<open>a\<close>.\<close>

lemma informed_write:
  assumes inf: "informed q L D s" and c: "cmd_ok c"
    and pairs: "\<And>V b. b \<noteq> a \<Longrightarrow> (a, b) \<notin> D' \<Longrightarrow> ((a, b) \<notin> D \<Longrightarrow> pair_ok q L (ts_nodes s) a b (V b)) \<Longrightarrow>
      pair_ok q L (ts_nodes s) a b (cmd_apply c V b)"
    and D: "\<And>x y. x \<noteq> a \<Longrightarrow> (x, y) \<in> D \<Longrightarrow> (x, y) \<in> D'"
  shows "informed q L D' (snd (ts_write send a (cmd_line c) s))"
proof (cases "map_of (ts_nodes s) a")
  case None
  then have "unheard s a" by (simp add: unheard_def getEmulatedNode_def)
  then have "informed q L D' s" by (intro informed_mono[OF inf]) (metis D)
  then show ?thesis using None by (simp add: ts_write_def getEmulatedNode_def)
next
  case (Some n)
  obtain V where V: "told q L D (ts_nodes s) V" and wf: "ts_wf s" and o: "opts_ok (ts_topo s)"
    using inf by (auto simp: informed_def)
  obtain ok n' k where w: "en_writeLine send (ts_sends s) (cmd_line c) n = (ok, n', k)" by (metis prod_cases3)
  let ?N = "AList.update a n' (ts_nodes s)"
  have same: "same_node n n'" by (rule en_writeLine_same[OF w])
  have rel: "list_all2 same_entry (ts_nodes s) ?N" by (rule same_entry_update[OF Some same])
  have "told q L D' ?N (V(a := cmd_apply c (V a)))"
    unfolding told_def
  proof (intro allI impI, elim conjE)
    fix x m
    assume m: "map_of ?N x = Some m" "isAlive m"
    show "heard m ((V(a := cmd_apply c (V a))) x) \<and>
      (\<forall>b. b \<noteq> x \<and> (x, b) \<notin> D' \<longrightarrow> pair_ok q L ?N x b ((V(a := cmd_apply c (V a))) x b))"
    proof (cases "x = a")
      case True
      then have "m = n'" using m by (simp add: update_conv')
      with m same have "isAlive n" using same_node_alive by blast
      with V Some have n: "heard n (V a)" "\<And>b. b \<noteq> a \<Longrightarrow> (a, b) \<notin> D \<Longrightarrow> pair_ok q L (ts_nodes s) a b (V a b)"
        by (auto simp: told_def)
      have "heard n' (cmd_apply c (V a))" using heard_write[OF n(1) c w] m \<open>m = n'\<close> by simp
      then show ?thesis using True \<open>m = n'\<close> pair_ok_mono[OF rel] pairs[of _ "V a"] n(2) by auto
    next
      case False
      then have "map_of (ts_nodes s) x = Some m" using m by (simp add: update_conv')
      with V m D False show ?thesis using pair_ok_mono[OF rel] by (fastforce simp: told_def)
    qed
  qed
  moreover have "ts_wf (s\<lparr>ts_nodes := ?N, ts_sends := k\<rparr>)" using wf same_entry_ok[OF rel] by (simp add: ts_wf_def)
  ultimately show ?thesis using o by (auto simp: informed_def ts_write_def getEmulatedNode_def Some w)
qed

lemma fish_addr: "ts_wf s \<Longrightarrow> getEmulatedNode a s = Some n \<Longrightarrow> en_fishAddr n = a \<and> node_entry_ok (a, n)"
  by (auto simp: ts_wf_def nodes_ok_def getEmulatedNode_def list_all_iff node_entry_ok_def dest!: map_of_SomeD)

lemma addr_ok: "node_entry_ok (a, n) \<Longrightarrow> validAddress a \<and> in_i32 a"
  by (simp add: node_entry_ok_def validAddress_def in_i32_def cxx_const)

lemma informed_remove:
  assumes "informed q L D s" "validAddress b" "L a b = None \<or> getEmulatedNode b s = None"
  shows "informed q L (D - {(a, b)}) (snd (sendRemoveNeighbor send a b s))"
proof -
  have "informed q L (D - {(a, b)}) (snd (ts_write send a (cmd_line (ArpRemove b)) s))"
    using assms(2,3) by (intro informed_write[OF assms(1)]) (auto simp: pair_ok_def quiet_def getEmulatedNode_def split: option.split)
  then show ?thesis by (simp add: sendRemoveNeighbor_def)
qed

lemma informed_reset:
  assumes "informed q L D s" "\<And>b. L a b = None"
  shows "informed q L (D - {a} \<times> UNIV) (snd (sendReset send a s))"
proof -
  have "informed q L (D - {a} \<times> UNIV) (snd (ts_write send a (cmd_line ArpReset) s))"
    using assms(2) by (intro informed_write[OF assms(1)]) (auto simp: pair_ok_def quiet_def)
  then show ?thesis by (simp add: sendReset_def)
qed

lemma informed_add:
  assumes inf: "informed q L D s" and peer: "getEmulatedNode b s = Some p"
      "en_fishAddr peer = b" "en_ipAddress peer = en_ipAddress p" "en_udpPort peer = en_udpPort p"
    and L: "L a b = live_opts (ts_topo s) a b" and q: "q \<Longrightarrow> L a b \<noteq> None"
  shows "informed q L (D - {(a, b)}) (snd (sendAddNeighbor send a peer s))"
proof (cases "getEmulatedNode a s")
  case None
  then have "informed q L (D - {(a, b)}) s" by (intro informed_mono[OF inf]) (auto simp: unheard_def)
  then show ?thesis using None by (simp add: sendAddNeighbor_def)
next
  case (Some n)
  have wf: "ts_wf s" using inf by (simp add: informed_def)
  note b = fish_addr[OF wf peer(1)] and a = fish_addr[OF wf Some]
  obtain e t where g: "getLiveEdge a b (ts_topo s) = (e, t)" by fastforce
  note ge = getLiveEdge_opts[OF _ g]
  have tw: "topo_wf (ts_topo s)" using wf by (simp add: ts_wf_def)
  let ?r = "\<lparr>anr_nodeId = b, anr_ipAddress = en_ipAddress p, anr_port = en_udpPort p, anr_options = L a b\<rparr>"
  have line: "snd (sendAddNeighbor send a peer s) = snd (ts_write send a (cmd_line (ArpAdd ?r)) (s\<lparr>ts_topo := t\<rparr>))"
  proof -
    have "L a b = map_option (\<lambda>i. e_options (edges t ! i)) e" using ge(2)[OF tw] L by simp
    then show ?thesis using a by (cases e) (simp_all add: sendAddNeighbor_def Some peer g add_line_def)
  qed
  have "options_printable opt" if "L a b = Some opt" for opt
    using that L inf opts_ok_live[of "ts_topo s" a b] by (simp add: informed_def)
  then have "neighbor_ok ?r" using b addr_ok by (auto simp: neighbor_ok_def node_entry_ok_def plain_text_def split: option.split)
  then have ok: "cmd_ok (ArpAdd ?r)" using b addr_ok by (auto simp: node_entry_ok_def plain_text_def)
  have N: "map_of (ts_nodes s) b = Some p" using peer(1) by (simp add: getEmulatedNode_def)
  show ?thesis unfolding line
  proof (rule informed_write[OF informed_topo[OF inf ge(1)[OF tw]] ok])
    fix V y assume y: "y \<noteq> a" "(a, y) \<notin> D - {(a, b)}"
      "(a, y) \<notin> D \<Longrightarrow> pair_ok q L (ts_nodes (s\<lparr>ts_topo := t\<rparr>)) a y (V y)"
    show "pair_ok q L (ts_nodes (s\<lparr>ts_topo := t\<rparr>)) a y (cmd_apply (ArpAdd ?r) V y)"
    proof (cases "y = b")
      case True
      then show ?thesis using q N by (cases "L a b") (auto simp: pair_ok_def quiet_def)
    qed (use y in auto)
  qed auto
qed

section \<open>The loops over the nodes\<close>

text \<open>Forget about the pairs of \<open>D\<close> as each node is told.\<close>

lemma informed_fold:
  assumes "\<And>k s D. k \<in> set ks \<Longrightarrow> I s \<Longrightarrow> informed q L D s \<Longrightarrow> D \<subseteq> D0 \<Longrightarrow> informed q L (D - P k) (f k s) \<and> I (f k s)"
    and "I s" "informed q L D s" "D \<subseteq> D0"
  shows "informed q L (D - (\<Union>k\<in>set ks. P k)) (fold f ks s)"
  using assms
proof (induction ks arbitrary: s D)
  case (Cons k ks)
  have 1: "informed q L (D - P k) (f k s)" "I (f k s)" using Cons.prems(1)[of k s D] Cons.prems by auto
  have "informed q L (D - P k - (\<Union>k\<in>set ks. P k)) (fold f ks (f k s))"
    using Cons.prems(1,4) by (intro Cons.IH 1) auto
  moreover have "D - P k - (\<Union>k\<in>set ks. P k) = D - (\<Union>k\<in>set (k # ks). P k)" by auto
  ultimately show ?case by simp
qed simp

lemma informed_drop:
  assumes inf: "informed q L D s" and d: "validAddress d" and L: "L k d = None \<or> getEmulatedNode d s = None"
    and D: "(k, d) \<in> D \<Longrightarrow> live_opts (ts_topo s) k d \<noteq> None"
  shows "informed q L (D - {(k, d)}) (ts_drop_neighbor send d k s)"
proof (cases "getEmulatedNode k s")
  case None
  then have "informed q L (D - {(k, d)}) s" by (intro informed_mono[OF inf]) (auto simp: unheard_def)
  then show ?thesis using None by (simp add: ts_drop_neighbor_def)
next
  case (Some n)
  have wf: "ts_wf s" "topo_wf (ts_topo s)" using inf by (simp_all add: informed_def ts_wf_def)
  note k = fish_addr[OF wf(1) Some]
  obtain e t where g: "getLiveEdge k d (ts_topo s) = (e, t)" by fastforce
  note ge = getLiveEdge_opts[OF wf(2) g]
  have 1: "informed q L D (s\<lparr>ts_topo := t\<rparr>)" by (rule informed_topo[OF inf ge(1)])
  show ?thesis
  proof (cases "e \<noteq> None \<and> isAlive n")
    case True
    then have "ts_drop_neighbor send d k s = snd (sendRemoveNeighbor send k d (s\<lparr>ts_topo := t\<rparr>))"
      using k by (simp add: ts_drop_neighbor_def Some g Let_def)
    then show ?thesis using informed_remove[OF 1 d] L by (auto simp: getEmulatedNode_def)
  next
    case False
    then have *: "ts_drop_neighbor send d k s = s\<lparr>ts_topo := t\<rparr>"
      using k by (auto simp: ts_drop_neighbor_def Some g Let_def)
    have "(k, d) \<notin> D \<or> \<not> isAlive n" using False D ge(3) by blast
    then show ?thesis unfolding *
      using Some by (intro informed_mono[OF 1]) (auto simp: unheard_def getEmulatedNode_def)
  qed
qed

lemma informed_drops:
  assumes inf: "informed q L D s" and d: "validAddress d" and L: "(\<forall>k. L k d = None) \<or> getEmulatedNode d s = None"
    and D: "\<forall>k. (k, d) \<in> D \<longrightarrow> live_opts (ts_topo s) k d \<noteq> None"
  shows "informed q L (D - set ks \<times> {d}) (fold (ts_drop_neighbor send d) ks s)"
proof -
  have "informed q L (D - (\<Union>k\<in>set ks. {(k, d)})) (fold (ts_drop_neighbor send d) ks s)"
  proof (rule informed_fold[where I = "sends s" and D0 = D])
    fix k s' D'
    assume s': "sends s s'" "informed q L D' s'" "D' \<subseteq> D"
    have "L k d = None \<or> getEmulatedNode d s' = None" using L sends_node[OF s'(1), of d] by auto
    then have "informed q L (D' - {(k, d)}) (ts_drop_neighbor send d k s')"
      using s' D by (intro informed_drop d) (auto simp: sends_live)
    moreover have "sends s (ts_drop_neighbor send d k s')"
      using sends_trans[OF s'(1) sends_drop] s'(2) by (simp add: informed_def)
    ultimately show "informed q L (D' - {(k, d)}) (ts_drop_neighbor send d k s') \<and> sends s (ts_drop_neighbor send d k s')" ..
  qed (use inf sends_refl in \<open>auto simp: informed_def\<close>)
  moreover have "(\<Union>k\<in>set ks. {(k, d)}) = set ks \<times> {d}" by auto
  ultimately show ?thesis by simp
qed

lemma informed_update:
  assumes inf: "informed q L D s" and L: "L = live_opts (ts_topo s)"
    and st: "getEmulatedNode a s = Some st" and n: "getEmulatedNode k s = Some n"
    and D: "\<forall>x y. (x, y) \<in> D \<longrightarrow> L x y \<noteq> None"
  shows "informed q L (D - {(a, k), (k, a)}) (ts_update_neighbor send a k s)"
proof -
  have wf: "ts_wf s" "topo_wf (ts_topo s)" using inf by (simp_all add: informed_def ts_wf_def)
  note k = fish_addr[OF wf(1) n] and a = fish_addr[OF wf(1) st]
  obtain e t where g: "getLiveEdge k a (ts_topo s) = (e, t)" by fastforce
  note ge = getLiveEdge_opts[OF wf(2) g]
  let ?s = "s\<lparr>ts_topo := t\<rparr>"
  have sym: "L a k = L k a" by (simp add: L live_opts_sym)
  have 1: "informed q L D ?s" by (rule informed_topo[OF inf ge(1)])
  have L1: "L = live_opts (ts_topo ?s)" using live_opts_same[OF ge(1)] L by simp
  consider "k = a" | "k \<noteq> a" "e \<noteq> None" "isAlive n" | "k \<noteq> a" "e = None \<or> \<not> isAlive n" by (cases "k = a"; cases "isAlive n"; cases e) auto
  then show ?thesis
  proof cases
    case 1
    then have "ts_update_neighbor send a k s = s" using k n by (simp add: ts_update_neighbor_def)
    then show ?thesis using 1 informed_mono[OF inf, of "D - {(a, k), (k, a)}"] by simp
  next
    case 2
    then have live: "L k a \<noteq> None" using ge(3) L by simp
    let ?s1 = "snd (sendAddNeighbor send k st ?s)"
    have snd1: "sends ?s ?s1" using 1 by (intro sends_add) (simp add: informed_def)
    have i1: "informed q L (D - {(k, a)}) ?s1"
      using st a live L1 by (intro informed_add[OF 1]) (auto simp: getEmulatedNode_def)
    obtain n' where n': "getEmulatedNode k ?s1 = Some n'" "same_node n n'"
      using sends_node[OF snd1, of k] n by (auto simp: getEmulatedNode_def option_rel_Some1)
    have "informed q L (D - {(k, a)} - {(a, k)}) (snd (sendAddNeighbor send a n ?s1))"
      using n' k live sym L1 sends_live[OF snd1] by (intro informed_add[OF i1 n'(1)]) (auto simp: same_node_def)
    moreover have "D - {(k, a)} - {(a, k)} = D - {(a, k), (k, a)}" by auto
    ultimately show ?thesis using 2 k a by (simp add: ts_update_neighbor_def n st g Let_def)
  next
    case 3
    then have "ts_update_neighbor send a k s = ?s" using k a by (auto simp: ts_update_neighbor_def n st g Let_def)
    moreover have "informed q L (D - {(a, k), (k, a)}) ?s"
    proof (rule informed_mono[OF 1])
      fix x y assume xy: "(x, y) \<in> D"
      then have "L x y \<noteq> None" using D by blast
      moreover have "L k a = None \<or> \<not> isAlive n" using 3 ge(3) L by auto
      ultimately show "(x, y) \<in> D - {(a, k), (k, a)} \<or> x = y \<or> unheard ?s x \<or>
          L x y \<noteq> None \<and> getEmulatedNode y ?s \<noteq> None \<and> unheard ?s y"
        using xy n sym by (auto simp: unheard_def getEmulatedNode_def)
    qed
    ultimately show ?thesis by simp
  qed
qed

lemma informed_updates:
  assumes inf: "informed q L D s" and L: "L = live_opts (ts_topo s)" and st: "getEmulatedNode a s \<noteq> None"
    and D: "\<forall>x y. (x, y) \<in> D \<longrightarrow> L x y \<noteq> None" and ks: "\<forall>k \<in> set ks. getEmulatedNode k s \<noteq> None"
  shows "informed q L (D - (\<Union>k\<in>set ks. {(a, k), (k, a)})) (fold (ts_update_neighbor send a) ks s)"
proof (rule informed_fold[where I = "sends s" and D0 = D])
  fix k s' D'
  assume s': "k \<in> set ks" "sends s s'" "informed q L D' s'" "D' \<subseteq> D"
  have "getEmulatedNode a s' \<noteq> None" "getEmulatedNode k s' \<noteq> None"
    using st ks s'(1) by (simp_all add: sends_registered[OF s'(2)])
  then obtain st n where "getEmulatedNode a s' = Some st" "getEmulatedNode k s' = Some n" by blast
  then have "informed q L (D' - {(a, k), (k, a)}) (ts_update_neighbor send a k s')"
    using s' D L by (intro informed_update) (auto simp: sends_live)
  moreover have "sends s (ts_update_neighbor send a k s')"
    using sends_trans[OF s'(2) sends_update] s'(3) by (simp add: informed_def)
  ultimately show "informed q L (D' - {(a, k), (k, a)}) (ts_update_neighbor send a k s') \<and>
    sends s (ts_update_neighbor send a k s')" ..
qed (use inf sends_refl in \<open>auto simp: informed_def\<close>)

lemma registered: "getEmulatedNode k s \<noteq> None \<longleftrightarrow> k \<in> set (map fst (ts_nodes s))"
  by (simp add: getEmulatedNode_def map_of_eq_None_iff)

lemma informed_updateNeighbors:
  assumes inf: "informed q L D s" and L: "L = live_opts (ts_topo s)"
    and D: "\<forall>x y. (x, y) \<in> D \<longrightarrow> L x y \<noteq> None \<and> getEmulatedNode x s \<noteq> None \<and> getEmulatedNode y s \<noteq> None \<and> (x = a \<or> y = a)"
  shows "informed q L {} (updateNeighbors send a s)"
proof (cases "getEmulatedNode a s")
  case None
  have "(x, y) \<notin> D" for x y
  proof
    assume "(x, y) \<in> D"
    from D[rule_format, OF this] None show False by auto
  qed
  then have "D = {}" by auto
  then show ?thesis using inf None by (simp add: updateNeighbors_def)
next
  case (Some st)
  let ?ks = "map fst (ts_nodes s)"
  have "informed q L (D - (\<Union>k\<in>set ?ks. {(a, k), (k, a)})) (fold (ts_update_neighbor send a) ?ks s)"
    using Some D[rule_format, THEN conjunct1] registered[of _ s] by (intro informed_updates[OF inf L]) blast+
  moreover have "(x, y) \<in> (\<Union>k\<in>set ?ks. {(a, k), (k, a)})" if "(x, y) \<in> D" for x y
    using D[rule_format, OF that] unfolding registered by auto
  then have "D - (\<Union>k\<in>set ?ks. {(a, k), (k, a)}) = {}" by auto
  ultimately show ?thesis by (simp only: updateNeighbors_def Some option.case)
qed

section \<open>Commands\<close>

lemma informed_change:
  assumes "informed q L D s"
    and "\<And>x y. x \<noteq> y \<Longrightarrow> getEmulatedNode x s \<noteq> None \<Longrightarrow> (x, y) \<notin> D' \<Longrightarrow>
      (x, y) \<notin> D \<and> (L' x y = L x y \<or> getEmulatedNode y s = None)"
  shows "informed q L' D' s"
proof -
  obtain V where V: "told q L D (ts_nodes s) V" using assms(1) by (auto simp: informed_def)
  have "pair_ok q L' (ts_nodes s) a b (V a b)"
    if n: "map_of (ts_nodes s) a = Some n" "isAlive n" and b: "b \<noteq> a" "(a, b) \<notin> D'" for a b n
  proof -
    have ab: "(a, b) \<notin> D" "L' a b = L a b \<or> map_of (ts_nodes s) b = None"
      using assms(2)[of a b] n b by (auto simp: getEmulatedNode_def)
    then have "pair_ok q L (ts_nodes s) a b (V a b)" using V n b by (auto simp: told_def)
    with ab show ?thesis by (cases "L a b"; cases "L' a b") (auto simp: pair_ok_def)
  qed
  then have "told q L' D' (ts_nodes s) V" using V unfolding told_def by blast
  then show ?thesis using assms(1) by (auto simp: informed_def)
qed

lemma informed_set_topo: "informed q L D s \<Longrightarrow> topo_wf t \<Longrightarrow> opts_ok t \<Longrightarrow> informed q L D (s\<lparr>ts_topo := t\<rparr>)"
  by (simp add: informed_def ts_wf_def)

lemma node_set_topo [simp]: "getEmulatedNode k (s\<lparr>ts_topo := t\<rparr>) = getEmulatedNode k s"
  by (simp add: getEmulatedNode_def)

text \<open>The pair of an edge command, when both its nodes are there.\<close>

definition edge_pair :: "int \<Rightarrow> int \<Rightarrow> trawler \<Rightarrow> (int \<times> int) set" where
  "edge_pair a b s = (if getEmulatedNode a s \<noteq> None \<and> getEmulatedNode b s \<noteq> None then {(a, b), (b, a)} else {})"

lemma informed_edge_change:
  assumes inf: "informed q L {} s" and "topo_wf t" "opts_ok t" and L: "\<And>x y. {x, y} \<noteq> {a, b} \<Longrightarrow> L' x y = L x y"
  shows "informed q L' (edge_pair a b s) (s\<lparr>ts_topo := t\<rparr>)"
proof (rule informed_change[OF informed_set_topo[OF assms(1-3)]])
  fix x y
  assume x: "x \<noteq> y" "getEmulatedNode x (s\<lparr>ts_topo := t\<rparr>) \<noteq> None" "(x, y) \<notin> edge_pair a b s"
  then show "(x, y) \<notin> {} \<and> (L' x y = L x y \<or> getEmulatedNode y (s\<lparr>ts_topo := t\<rparr>) = None)"
    using L[of x y] by (cases "{x, y} = {a, b}") (auto simp: edge_pair_def doubleton_eq_iff split: if_splits)
qed

lemma informed_startEdge:
  assumes inf: "informed q L (edge_pair a b s) s" and L: "L = live_opts (ts_topo s)" and q: "q \<Longrightarrow> L a b \<noteq> None"
  shows "informed q L {} (ts_startEdge send a b s)"
proof (cases "getEmulatedNode a s = None \<or> getEmulatedNode b s = None")
  case True
  then show ?thesis using inf by (auto simp: ts_startEdge_def edge_pair_def split: option.split)
next
  case False
  then obtain nA nB where n: "getEmulatedNode a s = Some nA" "getEmulatedNode b s = Some nB" by auto
  have wf: "ts_wf s" using inf by (simp add: informed_def)
  let ?s1 = "snd (sendAddNeighbor send a nB s)"
  have i1: "informed q L (edge_pair a b s - {(a, b)}) ?s1"
    using n fish_addr[OF wf n(2)] L q by (intro informed_add[OF inf]) auto
  have snd1: "sends s ?s1" by (rule sends_add[OF wf])
  obtain nA' where nA': "getEmulatedNode a ?s1 = Some nA'" "same_node nA nA'"
    using sends_node[OF snd1, of a] n by (auto simp: option_rel_Some1)
  have "informed q L (edge_pair a b s - {(a, b)} - {(b, a)}) (snd (sendAddNeighbor send b nA ?s1))"
    using nA' fish_addr[OF wf n(1)] L q sends_live[OF snd1] live_opts_sym[of "ts_topo s" a b]
    by (intro informed_add[OF i1 nA'(1)]) (auto simp: same_node_def)
  moreover have "edge_pair a b s - {(a, b)} - {(b, a)} = {}" by (auto simp: edge_pair_def)
  ultimately show ?thesis by (simp add: ts_startEdge_def n Let_def)
qed

lemma informed_failEdge:
  assumes inf: "informed q L (edge_pair a b s) s" and L: "L a b = None" "L b a = None"
  shows "informed q L {} (ts_failEdge send a b s)"
proof (cases "getEmulatedNode a s = None \<or> getEmulatedNode b s = None")
  case True
  then show ?thesis using inf by (auto simp: ts_failEdge_def edge_pair_def split: option.split)
next
  case False
  then obtain nA nB where n: "getEmulatedNode a s = Some nA" "getEmulatedNode b s = Some nB" by auto
  have wf: "ts_wf s" using inf by (simp add: informed_def)
  have v: "validAddress a" "validAddress b" using fish_addr[OF wf] n addr_ok by blast+
  let ?s1 = "snd (sendRemoveNeighbor send a b s)"
  have "informed q L (edge_pair a b s - {(a, b)} - {(b, a)}) (snd (sendRemoveNeighbor send b a ?s1))"
    using L v by (intro informed_remove inf) auto
  moreover have "edge_pair a b s - {(a, b)} - {(b, a)} = {}" by (auto simp: edge_pair_def)
  ultimately show ?thesis by (simp add: ts_failEdge_def n Let_def)
qed

text \<open>The state between commands.\<close>

definition tables_ok :: "bool \<Rightarrow> trawler \<Rightarrow> bool" where
  "tables_ok q s \<longleftrightarrow> informed q (live_opts (ts_topo s)) {} s \<and> (q \<longrightarrow> all_up (ts_topo s))"

lemma tables_ok_topo: "tables_ok q s \<Longrightarrow> topo_wf (ts_topo s) \<and> opts_ok (ts_topo s) \<and> ts_wf s"
  by (simp add: tables_ok_def informed_def ts_wf_def)

lemma tables_okI: "informed q L {} s' \<Longrightarrow> sends s s' \<Longrightarrow> L = live_opts (ts_topo s) \<Longrightarrow> (q \<Longrightarrow> all_up (ts_topo s)) \<Longrightarrow> tables_ok q s'"
  using all_up_same by (auto simp: tables_ok_def sends_live sends_def)

lemma tables_ok_create:
  assumes ok: "tables_ok q s" and opt: "options_printable opt"
  shows "tables_ok q (ts_createNewEdge send a b opt s)"
proof -
  note wf = tables_ok_topo[OF ok]
  let ?t = "newEdge a b opt (ts_topo s)" and ?s = "s\<lparr>ts_topo := newEdge a b opt (ts_topo s)\<rparr>"
  have t: "topo_wf ?t" "opts_ok ?t" using wf opt by (simp_all add: newEdge_spec opts_ok_ops)
  have up: "q \<Longrightarrow> all_up ?t" using ok wf by (simp add: tables_ok_def all_up_ops)
  have live: "q \<Longrightarrow> live_opts ?t a b \<noteq> None" using wf by (simp add: all_up_live[OF up] newEdge_spec)
  have "informed q (live_opts ?t) (edge_pair a b s) ?s"
    using ok live_opts_newEdge wf t by (intro informed_edge_change) (auto simp: tables_ok_def)
  then have "informed q (live_opts ?t) {} (ts_startEdge send a b ?s)"
    using live by (intro informed_startEdge) (simp_all add: edge_pair_def)
  moreover have "sends ?s (ts_startEdge send a b ?s)" using wf t by (intro sends_startEdge) (simp add: ts_wf_def)
  ultimately show ?thesis unfolding ts_createNewEdge_def using up by (intro tables_okI[where s = ?s]) simp_all
qed

lemma tables_ok_restartEdge:
  assumes ok: "tables_ok q s"
  shows "tables_ok q (snd (ts_restartEdgeHook send a b s))"
proof -
  note wf = tables_ok_topo[OF ok]
  obtain r t where c: "restartEdge a b (ts_topo s) = (r, t)" by fastforce
  then have c': "changeEdge a b True (ts_topo s) = (r, t)" by (simp add: restartEdge_def)
  have t: "topo_wf t" "opts_ok t" "r \<longleftrightarrow> edge_state (ts_topo s) a b \<noteq> None"
    using wf changeEdge_spec(1,2)[of "ts_topo s" a b True] opts_ok_ops(2)[of "ts_topo s" a b True] c' by simp_all
  have up: "q \<Longrightarrow> all_up t" using ok wf all_up_ops(2)[of "ts_topo s" a b] c' by (simp add: tables_ok_def)
  have i: "informed q (live_opts t) (edge_pair a b s) (s\<lparr>ts_topo := t\<rparr>)"
    using ok live_opts_changeEdge(1)[of "ts_topo s" _ _ a b True] wf t c'
    by (intro informed_edge_change) (auto simp: tables_ok_def)
  show ?thesis
  proof (cases r)
    case True
    have live: "q \<Longrightarrow> live_opts t a b \<noteq> None"
      using wf t True changeEdge_spec(3)[of "ts_topo s" a b True a b] c' by (simp add: all_up_live[OF up])
    have "informed q (live_opts t) {} (ts_startEdge send a b (s\<lparr>ts_topo := t\<rparr>))"
      using live i by (intro informed_startEdge) (simp_all add: edge_pair_def)
    moreover have "sends (s\<lparr>ts_topo := t\<rparr>) (ts_startEdge send a b (s\<lparr>ts_topo := t\<rparr>))"
      using wf t by (intro sends_startEdge) (simp add: ts_wf_def)
    ultimately have "tables_ok q (ts_startEdge send a b (s\<lparr>ts_topo := t\<rparr>))"
      using up by (intro tables_okI[where s = "s\<lparr>ts_topo := t\<rparr>"]) simp_all
    then show ?thesis using True c by (simp add: ts_restartEdgeHook_def)
  next
    case False
    have "live_opts t = live_opts (ts_topo s)" using live_opts_changeEdge(3)[of "ts_topo s" a b True] wf c' False by simp
    then show ?thesis using ok False c t up informed_set_topo[of q _ "{}" s t]
      by (simp add: ts_restartEdgeHook_def tables_ok_def)
  qed
qed

lemma tables_ok_failEdge:
  assumes ok: "tables_ok False s"
  shows "tables_ok False (snd (ts_failEdgeHook send a b s))"
proof -
  note wf = tables_ok_topo[OF ok]
  obtain r t where c: "failEdge a b (ts_topo s) = (r, t)" by fastforce
  then have c': "changeEdge a b False (ts_topo s) = (r, t)" by (simp add: failEdge_def)
  have t: "topo_wf t" "opts_ok t"
    using wf changeEdge_spec(1)[of "ts_topo s" a b False] opts_ok_ops(2)[of "ts_topo s" a b False] c' by simp_all
  have i: "informed False (live_opts t) (edge_pair a b s) (s\<lparr>ts_topo := t\<rparr>)"
    using ok live_opts_changeEdge(1)[of "ts_topo s" _ _ a b False] wf t c'
    by (intro informed_edge_change) (auto simp: tables_ok_def)
  show ?thesis
  proof (cases r)
    case True
    have "live_opts t a b = None" "live_opts t b a = None"
      using wf c' live_opts_changeEdge(2)[of "ts_topo s" _ _ a b False] by (auto simp: insert_commute)
    then have "informed False (live_opts t) {} (ts_failEdge send a b (s\<lparr>ts_topo := t\<rparr>))"
      using i by (intro informed_failEdge) (simp_all add: edge_pair_def)
    moreover have "sends (s\<lparr>ts_topo := t\<rparr>) (ts_failEdge send a b (s\<lparr>ts_topo := t\<rparr>))"
      using wf t by (intro sends_failEdge) (simp add: ts_wf_def)
    ultimately have "tables_ok False (ts_failEdge send a b (s\<lparr>ts_topo := t\<rparr>))"
      by (intro tables_okI[where s = "s\<lparr>ts_topo := t\<rparr>"]) simp_all
    then show ?thesis using True c by (simp add: ts_failEdgeHook_def)
  next
    case False
    have "live_opts t = live_opts (ts_topo s)" using live_opts_changeEdge(3)[of "ts_topo s" a b False] wf c' False by simp
    then show ?thesis using ok False c t informed_set_topo[of False _ "{}" s t]
      by (simp add: ts_failEdgeHook_def tables_ok_def)
  qed
qed

lemma tables_ok_failNode:
  assumes ok: "tables_ok False s"
  shows "tables_ok False (ts_failNodeHook send a s)"
proof -
  note wf = tables_ok_topo[OF ok]
  let ?L = "live_opts (failNode a (ts_topo s))"
  let ?D = "{(x, y). (x = a \<or> y = a) \<and> live_opts (ts_topo s) x y \<noteq> None \<and> getEmulatedNode a s \<noteq> None}"
  let ?s1 = "snd (sendReset send a s)" and ?ks = "filter (\<lambda>k. k \<noteq> a) (map fst (ts_nodes s))"
  have "informed False (live_opts (ts_topo s)) {} s" using ok by (simp add: tables_ok_def)
  then have i0: "informed False ?L ?D s"
  proof (rule informed_change)
    fix x y assume "getEmulatedNode x s \<noteq> None" "(x, y) \<notin> ?D"
    then show "(x, y) \<notin> {} \<and> (?L x y = live_opts (ts_topo s) x y \<or> getEmulatedNode y s = None)"
      by (cases "live_opts (ts_topo s) x y") (auto simp: live_opts_node)
  qed
  have "informed False ?L {} (ts_failNode send a s) \<and> sends s (ts_failNode send a s)"
  proof (cases "getEmulatedNode a s")
    case None
    then show ?thesis using i0 wf by (simp add: ts_failNode_def sends_refl)
  next
    case (Some n)
    have sn: "sends s ?s1" using wf sends_reset by blast
    have ks: "filter (\<lambda>k. k \<noteq> a) (map fst (ts_nodes ?s1)) = ?ks" by (simp only: sends_keys[OF sn])
    have f: "ts_failNode send a s = fold (ts_drop_neighbor send a) ?ks ?s1"
      by (simp only: ts_failNode_def Some removeAsNeighbor_def ks option.case)
    have "informed False ?L (?D - {a} \<times> UNIV) ?s1" by (intro informed_reset i0) (simp add: live_opts_node)
    moreover have "validAddress a" using fish_addr[OF _ Some] addr_ok wf by blast
    ultimately have drops: "informed False ?L (?D - {a} \<times> UNIV - set ?ks \<times> {a}) (ts_failNode send a s)"
      unfolding f by (intro informed_drops) (auto simp: live_opts_node sends_live[OF sn])
    have s2: "sends s (ts_failNode send a s)" unfolding f
      using wf by (intro sends_seq[OF sn] sends_fold sends_drop) auto
    have "informed False ?L {} (ts_failNode send a s)"
    proof (rule informed_mono[OF drops])
      fix x y assume "(x, y) \<in> ?D - {a} \<times> UNIV - set ?ks \<times> {a}"
      then have "getEmulatedNode x s = None" using registered[of x s] by auto
      then show "(x, y) \<in> {} \<or> x = y \<or> unheard (ts_failNode send a s) x \<or>
          ?L x y \<noteq> None \<and> getEmulatedNode y (ts_failNode send a s) \<noteq> None \<and> unheard (ts_failNode send a s) y"
        using unheard_gone[OF s2] by blast
    qed
    with s2 show ?thesis by blast
  qed
  then have *: "informed False ?L {} (ts_failNode send a s)" "same_topo (ts_topo s) (ts_topo (ts_failNode send a s))"
    by (simp_all add: sends_def)
  then have "live_opts (failNode a (ts_topo (ts_failNode send a s))) = ?L"
    by (intro live_opts_same) (simp add: same_topo_def)
  moreover have "informed False ?L {} (ts_failNodeHook send a s)"
    unfolding ts_failNodeHook_def Let_def using *
    by (intro informed_set_topo) (simp_all add: informed_def ts_wf_def opts_ok_ops)
  ultimately show ?thesis by (simp add: tables_ok_def ts_failNodeHook_def Let_def)
qed

lemma sends_updateNeighbors: "ts_wf s \<Longrightarrow> sends s (updateNeighbors send a s)"
  by (auto simp: updateNeighbors_def sends_refl split: option.split intro: sends_fold sends_update)

lemma tables_ok_restartNode:
  assumes ok: "tables_ok q s"
  shows "tables_ok q (ts_restartNodeHook send a s)"
proof -
  note wf = tables_ok_topo[OF ok]
  let ?t = "restartNode a (ts_topo s)"
  let ?s = "s\<lparr>ts_topo := restartNode a (ts_topo s)\<rparr>"
  let ?D = "{(x, y). (x = a \<or> y = a) \<and> live_opts ?t x y \<noteq> None \<and> getEmulatedNode x s \<noteq> None \<and> getEmulatedNode y s \<noteq> None}"
  have mono: "live_opts (ts_topo s) x y = live_opts ?t x y" if "live_opts ?t x y = None" for x y
    using that by (auto simp: live_opts_def isNodeAlive_def split: if_splits)
  have "informed q (live_opts (ts_topo s)) {} ?s"
    using ok wf by (intro informed_set_topo) (auto simp: tables_ok_def opts_ok_ops)
  then have "informed q (live_opts ?t) ?D ?s"
  proof (rule informed_change)
    fix x y
    assume "getEmulatedNode x ?s \<noteq> None" "(x, y) \<notin> ?D"
    then show "(x, y) \<notin> {} \<and> (live_opts ?t x y = live_opts (ts_topo s) x y \<or> getEmulatedNode y ?s = None)"
      using mono[of x y] live_opts_node(2)[of x a y "ts_topo s"] by auto
  qed
  then have "informed q (live_opts ?t) {} (updateNeighbors send a ?s)"
    by (intro informed_updateNeighbors) auto
  moreover have "sends ?s (updateNeighbors send a ?s)" using wf by (intro sends_updateNeighbors) (simp add: ts_wf_def)
  moreover have "q \<Longrightarrow> all_up ?t" using ok by (simp add: tables_ok_def all_up_ops)
  ultimately show ?thesis unfolding ts_restartNodeHook_def ts_restartNode_def by (intro tables_okI[where s = ?s]) simp_all
qed

section \<open>Connections\<close>

text \<open>A node that is gone.\<close>

lemma ts_check_node_eq:
  assumes "getEmulatedNode k s = Some n" "\<not> isAlive n"
  shows "ts_check_node send k s =
    (let s1 = s\<lparr>ts_nodes := AList.delete k (ts_nodes s)\<rparr> in fold (ts_drop_neighbor send (en_fishAddr n)) (map fst (ts_nodes s1)) s1)"
proof -
  have "AList.delete k (AList.update k v N) = AList.delete k N" for v and N :: "(int \<times> emulated_node) list"
    by (induction N) (auto simp: AList.delete_eq)
  then show ?thesis using assms by (simp add: ts_check_node_def Let_def)
qed

lemma nodes_ok_delete: "nodes_ok N \<Longrightarrow> nodes_ok (AList.delete k N)"
proof -
  have "distinct (map endpoint (filter P N))" if "distinct (map endpoint N)" for P
    using that by (simp add: distinct_map_filter)
  moreover have "distinct (map fst (filter P N))" if "distinct (map fst N)" for P
    using that by (simp add: distinct_map_filter)
  ultimately show "nodes_ok N \<Longrightarrow> nodes_ok (AList.delete k N)"
    by (auto simp: nodes_ok_def AList.delete_eq list_all_iff)
qed

lemma ts_wf_delete: "ts_wf s \<Longrightarrow> ts_wf (s\<lparr>ts_nodes := AList.delete k (ts_nodes s)\<rparr>)"
  by (simp add: ts_wf_def nodes_ok_delete)

lemma node_delete: "getEmulatedNode x (s\<lparr>ts_nodes := AList.delete k (ts_nodes s)\<rparr>) = (if x = k then None else getEmulatedNode x s)"
  by (simp add: getEmulatedNode_def delete_conv')

lemma informed_delete:
  assumes inf: "informed q L {} s"
  shows "informed q L {(x, y). y = k \<and> L x k \<noteq> None} (s\<lparr>ts_nodes := AList.delete k (ts_nodes s)\<rparr>)"
proof -
  let ?N = "AList.delete k (ts_nodes s)" and ?D = "{(x, y). y = k \<and> L x k \<noteq> None}"
  obtain V where V: "told q L {} (ts_nodes s) V" using inf by (auto simp: informed_def)
  have "told q L ?D ?N V"
    unfolding told_def
  proof (intro allI impI, elim conjE)
    fix a n assume n: "map_of ?N a = Some n" "isAlive n"
    then have "map_of (ts_nodes s) a = Some n" by (auto simp: delete_conv' split: if_splits)
    with V n have v: "heard n (V a)" "\<And>b. b \<noteq> a \<Longrightarrow> pair_ok q L (ts_nodes s) a b (V a b)" by (auto simp: told_def)
    have "pair_ok q L ?N a b (V a b)" if "b \<noteq> a" "(a, b) \<notin> ?D" for b
      using v(2)[OF that(1)] that(2) by (cases "b = k"; cases "L a b") (auto simp: pair_ok_def delete_conv')
    with v show "heard n (V a) \<and> (\<forall>b. b \<noteq> a \<and> (a, b) \<notin> ?D \<longrightarrow> pair_ok q L ?N a b (V a b))" by blast
  qed
  then show ?thesis using inf ts_wf_delete[of s k] by (auto simp: informed_def)
qed

text \<open>What checking for nodes that are gone leaves as it was.\<close>

definition prunes :: "trawler \<Rightarrow> trawler \<Rightarrow> bool" where
  "prunes s s' \<longleftrightarrow> same_topo (ts_topo s) (ts_topo s') \<and> ts_reader s' = ts_reader s \<and> ts_defer s' = ts_defer s \<and> ts_wf s'"

lemma prunes_trans: "prunes s s1 \<Longrightarrow> prunes s1 s2 \<Longrightarrow> prunes s s2"
  using same_topo_trans by (auto simp: prunes_def)

lemma prunes_check: "ts_wf s \<Longrightarrow> prunes s (ts_check_node send k s)"
proof -
  assume wf: "ts_wf s"
  have r: "prunes s s" using wf sends_refl by (auto simp: prunes_def sends_def)
  show "prunes s (ts_check_node send k s)"
  proof (cases "\<exists>n. getEmulatedNode k s = Some n \<and> \<not> isAlive n")
    case True
    then obtain n where n: "getEmulatedNode k s = Some n" "\<not> isAlive n" by blast
    let ?s1 = "s\<lparr>ts_nodes := AList.delete k (ts_nodes s)\<rparr>"
    have "sends ?s1 (ts_check_node send k s)"
      unfolding ts_check_node_eq[OF n] Let_def by (intro sends_fold sends_drop ts_wf_delete wf)
    then have "sends ?s1 (ts_check_node send k s) \<and> ts_wf (ts_check_node send k s)"
      using sends_wf[of ?s1] ts_wf_delete[OF wf] by blast
    then show ?thesis by (simp add: prunes_def sends_def)
  qed (auto simp: ts_check_node_def r split: option.split)
qed

lemma tables_ok_check:
  assumes ok: "tables_ok q s"
  shows "tables_ok q (ts_check_node send k s)"
proof (cases "\<exists>n. getEmulatedNode k s = Some n \<and> \<not> isAlive n")
  case True
  then obtain n where n: "getEmulatedNode k s = Some n" "\<not> isAlive n" by blast
  note wf = tables_ok_topo[OF ok]
  note k = fish_addr[OF conjunct2[OF conjunct2[OF wf]] n(1)]
  let ?L = "live_opts (ts_topo s)"
  let ?s1 = "s\<lparr>ts_nodes := AList.delete k (ts_nodes s)\<rparr>" and ?D = "{(x, y). y = k \<and> live_opts (ts_topo s) x k \<noteq> None}"
  let ?ks = "map fst (ts_nodes ?s1)"
  have c: "ts_check_node send k s = fold (ts_drop_neighbor send k) ?ks ?s1"
    using ts_check_node_eq[OF n, of send] k by (simp only: Let_def)
  have sn: "sends ?s1 (ts_check_node send k s)" unfolding c using wf by (intro sends_fold sends_drop ts_wf_delete) simp_all
  have "informed q ?L ?D ?s1" using ok by (intro informed_delete) (simp add: tables_ok_def)
  then have i: "informed q ?L (?D - set ?ks \<times> {k}) (ts_check_node send k s)"
    unfolding c using k addr_ok by (intro informed_drops) (auto simp: node_delete)
  have "informed q ?L {} (ts_check_node send k s)"
  proof (rule informed_mono[OF i])
    fix x y assume "(x, y) \<in> ?D - set ?ks \<times> {k}"
    then have "getEmulatedNode x ?s1 = None" using registered[of x ?s1] by auto
    then show "(x, y) \<in> {} \<or> x = y \<or> unheard (ts_check_node send k s) x \<or>
        ?L x y \<noteq> None \<and> getEmulatedNode y (ts_check_node send k s) \<noteq> None \<and> unheard (ts_check_node send k s) y"
      using unheard_gone[OF sn] by blast
  qed
  then show ?thesis using ok sn by (intro tables_okI[where s = ?s1]) (auto simp: tables_ok_def)
qed (use ok in \<open>auto simp: ts_check_node_def split: option.split\<close>)

lemma tables_ok_checkNodesQuit: "tables_ok q s \<Longrightarrow> tables_ok q (checkNodesQuit send s)"
proof -
  have "tables_ok q s \<Longrightarrow> tables_ok q (fold (ts_check_node send) ks s)" for ks
    by (induction ks arbitrary: s) (simp_all add: tables_ok_check)
  then show "tables_ok q s \<Longrightarrow> tables_ok q (checkNodesQuit send s)" by (simp add: checkNodesQuit_def)
qed

lemma prunes_checkNodesQuit: "ts_wf s \<Longrightarrow> prunes s (checkNodesQuit send s)"
proof -
  have "ts_wf s \<Longrightarrow> prunes s (fold (ts_check_node send) ks s)" for ks
  proof (induction ks arbitrary: s)
    case (Cons k ks)
    from prunes_check[OF Cons.prems, of send k] Cons.IH[of "ts_check_node send k s"] show ?case
      using prunes_trans by (auto simp: prunes_def)
  qed (use sends_refl in \<open>auto simp: prunes_def sends_def\<close>)
  then show "ts_wf s \<Longrightarrow> prunes s (checkNodesQuit send s)" by (simp add: checkNodesQuit_def)
qed

text \<open>A node that is new.\<close>

lemma freeFishAddr_free:
  assumes "freeFishAddr s \<noteq> - 1"
  shows "getEmulatedNode (freeFishAddr s) s = None" "0 \<le> freeFishAddr s" "freeFishAddr s < BROADCAST_ADDRESS"
    "\<And>i. 0 \<le> i \<Longrightarrow> i < freeFishAddr s \<Longrightarrow> getEmulatedNode i s \<noteq> None"
proof -
  obtain i where i: "find (\<lambda>i. getEmulatedNode i s = None) (map int [0..<nat BROADCAST_ADDRESS]) = Some i"
    using assms by (auto simp: freeFishAddr_def split: option.splits)
  then obtain j where j: "j < nat BROADCAST_ADDRESS" "i = int j" "getEmulatedNode i s = None"
    "\<forall>l < j. getEmulatedNode (int l) s \<noteq> None" by (auto simp: find_Some_iff)
  have f: "freeFishAddr s = i" by (simp add: freeFishAddr_def i)
  show "getEmulatedNode (freeFishAddr s) s = None" "0 \<le> freeFishAddr s" "freeFishAddr s < BROADCAST_ADDRESS"
    using j f by auto
  show "getEmulatedNode x s \<noteq> None" if "0 \<le> x" "x < freeFishAddr s" for x
    using j(4)[rule_format, of "nat x"] that f j(2) by auto
qed

lemma addrToString_plain: "plain_text (addrToString ip)"
proof -
  have "CHR '' '' \<notin> set (string_of_int v) \<and> newline \<notin> set (string_of_int v)" for v
    using string_of_int_no_space number_chars_not by blast
  then show ?thesis by (cases ip) (simp add: plain_text_def addrToString_def)
qed

lemma update_new: "map_of N a = None \<Longrightarrow> AList.update a v N = N @ [(a, v)]"
  by (induction N) auto

lemma ts_wf_new:
  assumes "ts_wf s" "getEmulatedNode a s = None" "0 \<le> a" "a < BROADCAST_ADDRESS"
    "1024 \<le> port" "in_i32 port" "plain_text ip" "\<not> portConflict ip port s"
  shows "ts_wf (s\<lparr>ts_nodes := AList.update a (emulated_node_ctor fd a ip port g) (ts_nodes s)\<rparr>)"
proof -
  have n: "map_of (ts_nodes s) a = None" using assms(2) by (simp add: getEmulatedNode_def)
  have "(ip, port) \<notin> endpoint ` set (ts_nodes s)" using assms(8) by (auto simp: portConflict_def endpoint_def list_ex_iff)
  moreover have "endpoint (a, emulated_node_ctor fd a ip port g) = (ip, port)" by (simp add: endpoint_def emulated_node_ctor_def)
  ultimately show ?thesis
    using assms n by (auto simp: ts_wf_def nodes_ok_def update_new map_of_eq_None_iff node_entry_ok_def emulated_node_ctor_def)
qed

lemma informed_new:
  assumes inf: "informed q L {} s" and a: "getEmulatedNode a s = None"
    and wf: "ts_wf (s\<lparr>ts_nodes := AList.update a (emulated_node_ctor fd a ip port g) (ts_nodes s)\<rparr>)" (is "ts_wf ?s")
  shows "informed q L {(x, y). L x y \<noteq> None \<and> getEmulatedNode x ?s \<noteq> None \<and> getEmulatedNode y ?s \<noteq> None \<and> (x = a \<or> y = a)} ?s"
    (is "informed q L ?D ?s")
proof -
  obtain V where V: "told q L {} (ts_nodes s) V" using inf by (auto simp: informed_def)
  have a': "map_of (ts_nodes s) a = None" using a by (simp add: getEmulatedNode_def)
  have "told q L ?D (ts_nodes ?s) (V(a := Map.empty))"
    unfolding told_def
  proof (intro allI impI, elim conjE)
    fix x n assume n: "map_of (ts_nodes ?s) x = Some n" "isAlive n"
    show "heard n ((V(a := Map.empty)) x) \<and>
      (\<forall>b. b \<noteq> x \<and> (x, b) \<notin> ?D \<longrightarrow> pair_ok q L (ts_nodes ?s) x b ((V(a := Map.empty)) x b))"
    proof (cases "x = a")
      case True
      then have "n = emulated_node_ctor fd a ip port g" using n by (simp add: update_conv')
      then have "heard n Map.empty" unfolding heard_def by (intro exI[of _ "[]"]) (simp add: emulated_node_ctor_def)
      moreover have "pair_ok q L (ts_nodes ?s) a b None" if "(a, b) \<notin> ?D" for b
        using that by (cases "L a b"; cases "map_of (ts_nodes ?s) b")
          (auto simp: pair_ok_def quiet_def getEmulatedNode_def update_conv' split: if_splits)
      ultimately show ?thesis using True by simp
    next
      case False
      then have x: "map_of (ts_nodes s) x = Some n" using n by (simp add: update_conv')
      with V n have v: "heard n (V x)" "\<And>b. b \<noteq> x \<Longrightarrow> pair_ok q L (ts_nodes s) x b (V x b)" by (auto simp: told_def)
      have "pair_ok q L (ts_nodes ?s) x b (V x b)" if "b \<noteq> x" "(x, b) \<notin> ?D" for b
        using v(2)[OF that(1)] that(2) x a' False
        by (cases "b = a"; cases "L x b") (auto simp: pair_ok_def getEmulatedNode_def update_conv')
      with v False show ?thesis by simp
    qed
  qed
  then show ?thesis using inf wf by (auto simp: informed_def)
qed

lemma print_fields [simp]:
  "ts_topo (ts_print x s) = ts_topo s" "ts_nodes (ts_print x s) = ts_nodes s" "ts_reader (ts_print x s) = ts_reader s"
  "ts_defer (ts_print x s) = ts_defer s" "getEmulatedNode k (ts_print x s) = getEmulatedNode k s"
  by (simp_all add: ts_print_def getEmulatedNode_def)

lemma reply_fields:
  "ts_topo (snd (ts_reply send v s)) = ts_topo s" "ts_nodes (snd (ts_reply send v s)) = ts_nodes s"
  "ts_reader (snd (ts_reply send v s)) = ts_reader s" "ts_defer (snd (ts_reply send v s)) = ts_defer s"
  by (simp_all add: ts_reply_def split_beta)

lemma ts_wf_cong: "ts_topo s' = ts_topo s \<Longrightarrow> ts_nodes s' = ts_nodes s \<Longrightarrow> ts_wf s' = ts_wf s"
  by (simp add: ts_wf_def)

lemma tables_ok_cong: "ts_topo s' = ts_topo s \<Longrightarrow> ts_nodes s' = ts_nodes s \<Longrightarrow> tables_ok q s' = tables_ok q s"
  by (simp add: tables_ok_def informed_def ts_wf_def)

lemma portConflict_cong: "ts_nodes s' = ts_nodes s \<Longrightarrow> portConflict ip port s' = portConflict ip port s"
  by (simp add: portConflict_def)

lemma ts_admit_cases:
  obtains (refused) s1 where "port < 1024 \<or> portConflict ip port s \<or> freeFishAddr s = - 1"
      "ts_admit send fd ip port s = ts_reply send BROADCAST_ADDRESS s1" "ts_topo s1 = ts_topo s" "ts_nodes s1 = ts_nodes s"
      "ts_reader s1 = ts_reader s" "ts_defer s1 = ts_defer s" "ts_sends s1 = ts_sends s"
  | (admitted) out s1 where "\<not> port < 1024" "\<not> portConflict ip port s" "freeFishAddr s \<noteq> - 1"
      "ts_admit send fd ip port s =
        (out, updateNeighbors send (freeFishAddr s)
           (s1\<lparr>ts_nodes := AList.update (freeFishAddr s) (emulated_node_ctor fd (freeFishAddr s) ip port out) (ts_nodes s1)\<rparr>))"
      "ts_topo s1 = ts_topo s" "ts_nodes s1 = ts_nodes s" "ts_reader s1 = ts_reader s" "ts_defer s1 = ts_defer s"
      "fst (ts_reply send (freeFishAddr s) s) = out"
proof (cases "port < 1024 \<or> portConflict ip port s \<or> freeFishAddr s = - 1")
  case True
  have p: "ts_sends (ts_print x s) = ts_sends s" for x by (simp add: ts_print_def)
  show thesis
  proof (cases "port < 1024 \<or> portConflict ip port s")
    case 1: True
    show thesis
      by (rule refused[of "ts_print (Cerr (''Trawler: Illegal port: '' @ string_of_int port)) s"]) (use True 1 in \<open>auto simp: ts_admit_def p\<close>)
  next
    case False
    show thesis
      by (rule refused[of "ts_print (Cerr ''Trawler: out of addresses'') s"]) (use True False in \<open>auto simp: ts_admit_def p\<close>)
  qed
next
  case False
  let ?s = "ts_print (Cout (''Got port '' @ string_of_int port @ '': assigning addr: '' @ string_of_int (freeFishAddr s))) s"
  obtain out s1 where r: "ts_reply send (freeFishAddr s) ?s = (out, s1)" by fastforce
  have "ts_topo s1 = ts_topo s" "ts_nodes s1 = ts_nodes s" "ts_reader s1 = ts_reader s" "ts_defer s1 = ts_defer s"
    using reply_fields[of send "freeFishAddr s" ?s, unfolded r snd_conv] by simp_all
  moreover have "fst (ts_reply send (freeFishAddr s) s) = out" using r by (simp add: ts_reply_def ts_print_def split_beta)
  ultimately show thesis using False r by (intro admitted[of out s1]) (auto simp: ts_admit_def Let_def)
qed

lemma admit_new_wf:
  assumes "ts_wf s" "\<not> port < 1024" "\<not> portConflict ip port s" "freeFishAddr s \<noteq> - 1" "in_i32 port" "plain_text ip"
    "ts_topo s1 = ts_topo s" "ts_nodes s1 = ts_nodes s"
  shows "ts_wf (s1\<lparr>ts_nodes := AList.update (freeFishAddr s) (emulated_node_ctor fd (freeFishAddr s) ip port g) (ts_nodes s1)\<rparr>)"
proof (rule ts_wf_new)
  show "getEmulatedNode (freeFishAddr s) s1 = None"
    using freeFishAddr_free(1)[OF assms(4)] assms(8) by (simp add: getEmulatedNode_def)
  show "\<not> portConflict ip port s1" using assms(3) portConflict_cong[OF assms(8)] by simp
  show "ts_wf s1" using assms(1) ts_wf_cong[OF assms(7,8)] by simp
qed (use assms(2,5,6) freeFishAddr_free(2,3)[OF assms(4)] in auto)

lemma ts_wf_admit:
  assumes "ts_wf s" "in_i32 port" "plain_text ip"
  shows "ts_wf (snd (ts_admit send fd ip port s))"
proof (cases rule: ts_admit_cases[of port ip s send fd])
  case (refused s1)
  then show ?thesis using assms reply_fields[of send BROADCAST_ADDRESS s1] by (simp add: ts_wf_def)
next
  case (admitted out s1)
  have "ts_wf (snd (ts_admit send fd ip port s))" unfolding admitted(4) snd_conv
    using admit_new_wf[OF assms(1) admitted(1-3) assms(2,3) admitted(5,6)] sends_updateNeighbors sends_wf by blast
  then show ?thesis .
qed

lemma tables_ok_admit:
  assumes ok: "tables_ok q s" and "in_i32 port" "plain_text ip"
  shows "tables_ok q (snd (ts_admit send fd ip port s))"
proof (cases rule: ts_admit_cases[of port ip s send fd])
  case (refused s1)
  have "tables_ok q (snd (ts_reply send BROADCAST_ADDRESS s1)) = tables_ok q s"
    by (rule tables_ok_cong) (simp_all add: refused reply_fields)
  then show ?thesis using ok refused by simp
next
  case (admitted out s1)
  let ?s = "s1\<lparr>ts_nodes := AList.update (freeFishAddr s) (emulated_node_ctor fd (freeFishAddr s) ip port out) (ts_nodes s1)\<rparr>"
  note wf = tables_ok_topo[OF ok]
  have w: "ts_wf ?s" using admit_new_wf[OF _ admitted(1-3) assms(2,3) admitted(5,6)] wf by blast
  have ok1: "tables_ok q s1" using ok tables_ok_cong[of s1 s] admitted by simp
  have free: "getEmulatedNode (freeFishAddr s) s1 = None"
    using freeFishAddr_free(1)[OF admitted(3)] admitted(6) by (simp add: getEmulatedNode_def)
  have i: "informed q (live_opts (ts_topo ?s)) {} (updateNeighbors send (freeFishAddr s) ?s)"
    using informed_new[OF _ free w, of q "live_opts (ts_topo s1)"] ok1
    by (intro informed_updateNeighbors) (auto simp: tables_ok_def)
  have "tables_ok q (updateNeighbors send (freeFishAddr s) ?s)"
    by (rule tables_okI[OF i sends_updateNeighbors[OF w]]) (use ok1 in \<open>simp_all add: tables_ok_def\<close>)
  then show ?thesis by (simp add: admitted(4))
qed

end
