(* ===== verification/Trawler_Properties.thy ===== *)
theory Trawler_Properties
  imports Trawler_Invariant
begin

text \<open>
  The commands of the topology file and the accept loop keep the invariants of the trawler, and
  the properties of its runs: the registry of nodes, admission, and the agreement between what
  the topology says and what the emulators on the other end of the sockets hold in their tables.
\<close>

section \<open>The commands of the topology file\<close>

lemma ts_wf_set: "ts_wf s \<Longrightarrow> topo_wf t \<Longrightarrow> ts_wf (s\<lparr>ts_topo := t\<rparr>)"
  by (simp add: ts_wf_def)

lemma sends_failNode:
  assumes "ts_wf s"
  shows "sends s (ts_failNode send a s)"
proof (cases "getEmulatedNode a s")
  case (Some n)
  have "sends s (removeAsNeighbor send a (snd (sendReset send a s)))"
    unfolding removeAsNeighbor_def
    by (rule sends_seq[OF sends_reset[OF assms] assms], rule sends_fold) (rule sends_drop)
  then show ?thesis by (simp add: ts_failNode_def Some)
qed (simp add: ts_failNode_def sends_refl assms)

lemma topo_hook_create:
  assumes "ts_wf s"
  shows "same_topo (newEdge a b opt (ts_topo s)) (ts_topo (ts_createNewEdge send a b opt s)) \<and> ts_wf (ts_createNewEdge send a b opt s)"
proof -
  have "ts_wf (s\<lparr>ts_topo := newEdge a b opt (ts_topo s)\<rparr>)" using assms by (intro ts_wf_set newEdge_spec(1)) (simp_all add: ts_wf_def)
  with sends_startEdge[OF this] sends_wf[OF sends_startEdge[OF this] this] show ?thesis
    by (simp add: ts_createNewEdge_def sends_def)
qed

lemma topo_hook_edge:
  assumes wf: "ts_wf s"
  shows "fst (ts_failEdgeHook send a b s) = fst (failEdge a b (ts_topo s))"
    "same_topo (snd (failEdge a b (ts_topo s))) (ts_topo (snd (ts_failEdgeHook send a b s)))"
    "ts_wf (snd (ts_failEdgeHook send a b s))"
    "fst (ts_restartEdgeHook send a b s) = fst (restartEdge a b (ts_topo s))"
    "same_topo (snd (restartEdge a b (ts_topo s))) (ts_topo (snd (ts_restartEdgeHook send a b s)))"
    "ts_wf (snd (ts_restartEdgeHook send a b s))"
proof -
  have w: "topo_wf (snd (changeEdge a b st (ts_topo s)))" for st using wf by (intro changeEdge_spec(1)) (simp add: ts_wf_def)
  obtain r t where f: "failEdge a b (ts_topo s) = (r, t)" by fastforce
  have t: "ts_wf (s\<lparr>ts_topo := t\<rparr>)" using w[of False] f wf by (intro ts_wf_set) (simp_all add: failEdge_def)
  have sn: "sends (s\<lparr>ts_topo := t\<rparr>) (ts_failEdge send a b (s\<lparr>ts_topo := t\<rparr>))" by (rule sends_failEdge[OF t])
  show "fst (ts_failEdgeHook send a b s) = fst (failEdge a b (ts_topo s))"
    by (cases r) (simp_all add: ts_failEdgeHook_def f)
  show "same_topo (snd (failEdge a b (ts_topo s))) (ts_topo (snd (ts_failEdgeHook send a b s)))"
    using sn t by (cases r) (simp_all add: ts_failEdgeHook_def f sends_def same_topo_refl ts_wf_def)
  show "ts_wf (snd (ts_failEdgeHook send a b s))"
    using sends_wf[OF sn t] t by (cases r) (simp_all add: ts_failEdgeHook_def f)
  obtain r' t' where g: "restartEdge a b (ts_topo s) = (r', t')" by fastforce
  have t': "ts_wf (s\<lparr>ts_topo := t'\<rparr>)" using w[of True] g wf by (intro ts_wf_set) (simp_all add: restartEdge_def)
  have sn': "sends (s\<lparr>ts_topo := t'\<rparr>) (ts_startEdge send a b (s\<lparr>ts_topo := t'\<rparr>))" by (rule sends_startEdge[OF t'])
  show "fst (ts_restartEdgeHook send a b s) = fst (restartEdge a b (ts_topo s))"
    by (cases r') (simp_all add: ts_restartEdgeHook_def g)
  show "same_topo (snd (restartEdge a b (ts_topo s))) (ts_topo (snd (ts_restartEdgeHook send a b s)))"
    using sn' t' by (cases r') (simp_all add: ts_restartEdgeHook_def g sends_def same_topo_refl ts_wf_def)
  show "ts_wf (snd (ts_restartEdgeHook send a b s))"
    using sends_wf[OF sn' t'] t' by (cases r') (simp_all add: ts_restartEdgeHook_def g)
qed

lemma topo_hook_node:
  assumes wf: "ts_wf s"
  shows "same_topo (failNode a (ts_topo s)) (ts_topo (ts_failNodeHook send a s))" "ts_wf (ts_failNodeHook send a s)"
    "same_topo (restartNode a (ts_topo s)) (ts_topo (ts_restartNodeHook send a s))" "ts_wf (ts_restartNodeHook send a s)"
proof -
  have sn: "sends s (ts_failNode send a s)" by (rule sends_failNode[OF wf])
  then show "same_topo (failNode a (ts_topo s)) (ts_topo (ts_failNodeHook send a s))"
    by (simp add: ts_failNodeHook_def Let_def sends_def same_topo_def)
  show "ts_wf (ts_failNodeHook send a s)"
    using sends_wf[OF sn wf] by (simp add: ts_failNodeHook_def Let_def ts_wf_def)
  let ?s = "s\<lparr>ts_topo := restartNode a (ts_topo s)\<rparr>"
  have w: "ts_wf ?s" using wf by (simp add: ts_wf_def)
  have sn': "sends ?s (ts_restartNodeHook send a s)"
    using sends_updateNeighbors[OF w] by (simp add: ts_restartNodeHook_def ts_restartNode_def)
  then show "same_topo (restartNode a (ts_topo s)) (ts_topo (ts_restartNodeHook send a s))" by (simp add: sends_def)
  show "ts_wf (ts_restartNodeHook send a s)" by (rule sends_wf[OF sn' w])
qed

interpretation ts_cmd: topology_hooks "ts_ops send" ts_topo ts_wf for send
  by unfold_locales
     (use topo_hook_create topo_hook_edge(1,2,4,5) topo_hook_node(1,3) in \<open>auto simp: ts_ops_def, (metis fst_conv snd_conv)+\<close>)

lemma ts_wf_print [simp]: "ts_wf (ts_print x s) = ts_wf s"
  by (simp add: ts_wf_def)

interpretation ts_parser: parser_keeps "ts_ops send" ts_wf for send
  by unfold_locales
     (auto simp: ts_ops_def topo_hook_create topo_hook_edge(3,6) topo_hook_node(2,4) ts_exitCmd_def ts_exit_def ts_parseNodeCmd_def)

text \<open>The lines for which more is shown: options that can be printed and read back, and for \<open>q\<close> no
  \<open>fail\<close> command.\<close>

definition line_ok :: "bool \<Rightarrow> string \<Rightarrow> bool" where
  "line_ok q line \<longleftrightarrow>
     (let cmd = splitSpaces line
      in (cmd ! 0 = ''edge'' \<longrightarrow> (case edge_args cmd of Inl _ \<Rightarrow> True | Inr (_, _, opt) \<Rightarrow> options_printable opt)) \<and>
         (q \<longrightarrow> cmd ! 0 \<noteq> ''fail''))"

definition ts_ops_ok :: "bool \<Rightarrow> (nat \<Rightarrow> nat \<Rightarrow> int) \<Rightarrow> trawler parser_ops" where
  "ts_ops_ok q send = (ts_ops send)
     \<lparr>po_createNewEdge := (\<lambda>a b opt s. if options_printable opt then ts_createNewEdge send a b opt s else s),
      po_failEdge := (\<lambda>a b s. if q then (False, s) else ts_failEdgeHook send a b s),
      po_failNode := (\<lambda>a s. if q then s else ts_failNodeHook send a s)\<rparr>"

lemma parse_same_hooks:
  "parseRestart (ops\<lparr>po_createNewEdge := f, po_failEdge := g, po_failNode := h\<rparr>) cmd s = parseRestart ops cmd s" (is ?R)
  "parseCommonCmds (ops\<lparr>po_createNewEdge := f, po_failEdge := g, po_failNode := h\<rparr>) cmd now s = parseCommonCmds ops cmd now s"
    (is ?C)
proof -
  let ?ops = "ops\<lparr>po_createNewEdge := f, po_failEdge := g, po_failNode := h\<rparr>"
  have eq: "po_print ?ops = po_print ops" "po_restartEdge ?ops = po_restartEdge ops" "po_restartNode ?ops = po_restartNode ops"
    "po_exitCmd ?ops = po_exitCmd ops" "po_parseNodeCmd ?ops = po_parseNodeCmd ops" by simp_all
  show ?R unfolding parseRestart_def eq ..
  show ?C unfolding parseCommonCmds_def echo_def parseTime_def eq ..
qed

lemma parseLine_ops_ok:
  assumes "line_ok q line"
  shows "parseLine (ts_ops send) line now s = parseLine (ts_ops_ok q send) line now s"
proof -
  let ?cmd = "splitSpaces line"
  have e: "parseEdge (ts_ops send) ?cmd s = parseEdge (ts_ops_ok q send) ?cmd s"
    using assms by (cases "edge_args ?cmd") (auto simp: parseEdge_def line_ok_def ts_ops_ok_def ts_ops_def Let_def)
  have f: "parseFail (ts_ops send) ?cmd s' = parseFail (ts_ops_ok q send) ?cmd s'" for s'
  proof (cases "?cmd ! 0 = ''fail''")
    case True
    then have q: "\<not> q" using assms by (auto simp: line_ok_def Let_def)
    have eq: "po_print (ts_ops_ok q send) = po_print (ts_ops send)" "po_failEdge (ts_ops_ok q send) = po_failEdge (ts_ops send)"
      "po_failNode (ts_ops_ok q send) = po_failNode (ts_ops send)"
      using q by (simp_all add: ts_ops_ok_def) (simp_all add: ts_ops_def)
    show ?thesis unfolding parseFail_def eq ..
  qed (simp add: parseFail_def)
  have r: "parseRestart (ts_ops send) ?cmd s' = parseRestart (ts_ops_ok q send) ?cmd s'"
    "parseCommonCmds (ts_ops send) ?cmd now s' = parseCommonCmds (ts_ops_ok q send) ?cmd now s'" for s'
    by (simp_all add: ts_ops_ok_def parse_same_hooks)
  show ?thesis unfolding parseLine_def Let_def e f r ..
qed

lemma parse_lines_ops_ok:
  "list_all (line_ok q) ls \<Longrightarrow>
     parse_lines (parseLine (ts_ops send)) now ls s = parse_lines (parseLine (ts_ops_ok q send)) now ls s"
  by (induction ls arbitrary: s) (simp_all add: parseLine_ops_ok[of q] split_beta split: option.split)

lemma tables_ok_print [simp]: "tables_ok q (ts_print x s) = tables_ok q s"
  by (rule tables_ok_cong) simp_all

interpretation ts_tables: parser_keeps "ts_ops_ok q send" "tables_ok q" for q send
  by unfold_locales
     (auto simp: ts_ops_ok_def ts_ops_def ts_exitCmd_def ts_exit_def ts_parseNodeCmd_def tables_ok_create
        tables_ok_failEdge tables_ok_failNode tables_ok_restartEdge tables_ok_restartNode)

section \<open>Every round\<close>

lemma parse_lines_suffix: "parse_lines pl now ls s = (r, rest, s') \<Longrightarrow> list_all P ls \<Longrightarrow> list_all P rest"
  by (induction ls arbitrary: s) (auto split: prod.splits option.splits if_splits)

definition reader_ok :: "bool \<Rightarrow> string list option \<Rightarrow> bool" where
  "reader_ok q rd = pred_option (list_all (line_ok q)) rd"

lemma tables_ok_remainder:
  assumes "tables_ok q s" "reader_ok q rd" "parseRemainder (parseLine (ts_ops send)) now rd s = (r, rd', s')"
  shows "tables_ok q s' \<and> reader_ok q rd'"
proof (cases rd)
  case (Some ls)
  obtain r0 rest s0 where p: "parse_lines (parseLine (ts_ops send)) now ls s = (r0, rest, s0)" by (metis prod_cases3)
  have ls: "list_all (line_ok q) ls" using assms(2) Some by (simp add: reader_ok_def)
  have "tables_ok q s0" using ts_tables.parse_lines_keeps[OF assms(1), of send now ls] p parse_lines_ops_ok[OF ls] by simp
  moreover have "list_all (line_ok q) rest" by (rule parse_lines_suffix[OF p ls])
  ultimately show ?thesis using assms(3) Some p by (auto simp: parseRemainder_def reader_ok_def)
qed (use assms in \<open>auto simp: parseRemainder_def\<close>)

definition ts_good :: "bool \<Rightarrow> trawler \<Rightarrow> bool" where
  "ts_good q s \<longleftrightarrow> tables_ok q s \<and> reader_ok q (ts_reader s)"

lemma admit_reader: "ts_wf s \<Longrightarrow> in_i32 port \<Longrightarrow> plain_text ip \<Longrightarrow> ts_reader (snd (ts_admit send fd ip port s)) = ts_reader s"
proof (cases rule: ts_admit_cases[of port ip s send fd])
  case (refused s1)
  then show ?thesis by (simp add: reply_fields)
next
  case (admitted out s1)
  assume "ts_wf s" "in_i32 port" "plain_text ip"
  from sends_updateNeighbors[OF admit_new_wf[OF this(1) admitted(1-3) this(2,3) admitted(5,6)]] show ?thesis
    unfolding admitted(4) by (simp add: sends_def admitted)
qed

lemma ts_good_accept:
  assumes ok: "ts_good q s"
  shows "ts_good q (snd (tr_accept send r now s))"
proof (cases r)
  case (Accepted fd peer input)
  let ?s1 = "checkNodesQuit send s"
  have wf: "ts_wf s" using ok tables_ok_topo by (auto simp: ts_good_def)
  have ok1: "ts_good q ?s1"
    using ok tables_ok_checkNodesQuit prunes_checkNodesQuit[OF wf] by (auto simp: ts_good_def prunes_def)
  obtain b s2 where d: "(if ts_defer ?s1 > - 1 \<and> ts_defer ?s1 < now then ts_parseRemainder send now ?s1 else (True, ?s1)) = (b, s2)"
    by fastforce
  have ok2: "ts_good q s2"
  proof (cases "ts_defer ?s1 > - 1 \<and> ts_defer ?s1 < now")
    case True
    obtain r0 rd s0 where p: "parseRemainder (parseLine (ts_ops send)) now (ts_reader ?s1) ?s1 = (r0, rd, s0)" by (metis prod_cases3)
    have "tables_ok q s0 \<and> reader_ok q rd" using tables_ok_remainder[OF _ _ p] ok1 by (simp add: ts_good_def)
    moreover have "s2 = s0\<lparr>ts_reader := rd\<rparr> \<or> (\<exists>d. s2 = s0\<lparr>ts_reader := rd, ts_defer := d\<rparr>)"
      using d True p by (cases r0) (auto simp: ts_parseRemainder_def)
    ultimately show ?thesis using tables_ok_cong[of s2 s0] by (auto simp: ts_good_def)
  qed (use d ok1 in auto)
  have "ts_good q (snd (ts_admit send fd (addrToString peer) port s2))" if "stoi l = Inr port" for l port
  proof -
    have "tables_ok q (snd (ts_admit send fd (addrToString peer) port s2))"
      using ok2 stoi_in_i32[OF that] addrToString_plain by (intro tables_ok_admit) (simp_all add: ts_good_def)
    moreover have "ts_reader (snd (ts_admit send fd (addrToString peer) port s2)) = ts_reader s2"
      using ok2 stoi_in_i32[OF that] addrToString_plain tables_ok_topo by (intro admit_reader) (auto simp: ts_good_def)
    ultimately show ?thesis using ok2 by (simp add: ts_good_def)
  qed
  then show ?thesis using ok2 d
    by (auto simp: tr_accept_def Accepted Let_def ts_good_def split: bool.split option.split sum.split)
qed (use ok in \<open>auto simp: tr_accept_def ts_good_def\<close>)

lemma ts_wf_accept:
  assumes wf: "ts_wf s"
  shows "ts_wf (snd (tr_accept send r now s))"
proof (cases r)
  case (Accepted fd peer input)
  let ?s1 = "checkNodesQuit send s"
  have wf1: "ts_wf ?s1" using prunes_checkNodesQuit[OF wf] by (simp add: prunes_def)
  obtain b s2 where d: "(if ts_defer ?s1 > - 1 \<and> ts_defer ?s1 < now then ts_parseRemainder send now ?s1 else (True, ?s1)) = (b, s2)"
    by fastforce
  have "ts_wf (snd (ts_parseRemainder send now ?s1))"
    using ts_parser.parseRemainder_keeps[OF wf1, of send now "ts_reader ?s1"]
    by (auto simp: ts_parseRemainder_def ts_wf_def split_beta split: option.split)
  then have wf2: "ts_wf s2" using d wf1 by (auto split: if_splits)
  have "ts_wf (snd (ts_admit send fd (addrToString peer) port s2))" if "stoi l = Inr port" for l port
    by (rule ts_wf_admit[OF wf2 stoi_in_i32[OF that] addrToString_plain])
  then show ?thesis using wf2 d by (auto simp: tr_accept_def Accepted Let_def split: bool.split option.split sum.split)
qed (use wf in \<open>auto simp: tr_accept_def\<close>)

text \<open>The runs of the program: the file decides whether all nodes are neighbours.\<close>

inductive tr_reachable :: "(nat \<Rightarrow> nat \<Rightarrow> int) \<Rightarrow> string list option \<Rightarrow> bool \<times> trawler \<Rightarrow> bool" for send topo where
  start: "tr_start send topo now so bo lo (ts_ctor port topoFile (topoFile = []) seeds) = Inr (Some s) \<Longrightarrow>
    tr_reachable send topo (True, s)"
| step: "tr_reachable send topo c \<Longrightarrow> tr_step send c c' \<Longrightarrow> tr_reachable send topo c'"

lemma tr_start_cases:
  assumes "tr_start send topo now so bo lo s0 = Inr (Some s)"
  obtains s1 where "s = ts_print (Cout ''Trawler awaiting fish...'') (s1\<lparr>ts_running := True\<rparr>)"
    "s1 = s0 \<or> (\<exists>ls r rd s2 d. topo = Some ls \<and> parseRemainder (parseLine (ts_ops send)) now (Some ls) s0 = (r, rd, s2) \<and>
       s1 = s2\<lparr>ts_reader := rd, ts_defer := d\<rparr>)"
proof -
  have "\<exists>s1. s = ts_print (Cout ''Trawler awaiting fish...'') (s1\<lparr>ts_running := True\<rparr>) \<and>
      (s1 = s0 \<or> (\<exists>ls r rd s2 d. topo = Some ls \<and> parseRemainder (parseLine (ts_ops send)) now (Some ls) s0 = (r, rd, s2) \<and>
       s1 = s2\<lparr>ts_reader := rd, ts_defer := d\<rparr>))"
    using assms
    by (auto simp: tr_start_def ebind_def parseFile_def split: if_splits option.splits sum.splits prod.splits)
  then show thesis using that by blast
qed

lemma printable_0: "printable 0"
  by (rule printableI[of 1]) (simp_all add: format_g_def stod_eval)

lemma ctor_ok: "ts_wf (ts_ctor port topoFile a2a seeds)" "ts_good q (ts_ctor port topoFile a2a seeds)"
proof -
  let ?s = "ts_ctor port topoFile a2a seeds"
  show wf: "ts_wf ?s" by (simp add: ts_ctor_def ts_wf_def topo_wf_def topology_ctor_def nodes_ok_def)
  have d: "options_printable default_edge_options"
    using printable_0 by (simp add: options_printable_def default_edge_options_def in_i32_def in_i64_def)
  have e: "edge_state (ts_topo ?s) x y = (if a2a then Some (default_edge_options, True) else None)" for x y
    by (simp add: ts_ctor_def topology_ctor_def edge_state_def topo_view_def)
  have "failedNodes (ts_topo ?s) = {}" by (simp add: ts_ctor_def topology_ctor_def)
  then have "opts_ok (ts_topo ?s)" "all_up (ts_topo ?s)"
    using d by (auto simp: opts_ok_def all_up_def e split: if_splits)
  moreover have "ts_nodes ?s = []" "ts_reader ?s = None" by (simp_all add: ts_ctor_def)
  ultimately show "ts_good q ?s"
    using wf by (simp add: ts_good_def tables_ok_def informed_def told_def reader_ok_def)
qed

lemma reachable_ts_wf: "tr_reachable send topo c \<Longrightarrow> ts_wf (snd c)"
proof (induction rule: tr_reachable.induct)
  case (start now so bo lo port topoFile seeds s)
  let ?s0 = "ts_ctor port topoFile (topoFile = []) seeds"
  from start show ?case
  proof (cases rule: tr_start_cases)
    case (1 s1)
    have "ts_wf s1" using 1(2)
    proof (elim disjE exE conjE)
      fix ls r rd s2 d
      assume "parseRemainder (parseLine (ts_ops send)) now (Some ls) ?s0 = (r, rd, s2)" "s1 = s2\<lparr>ts_reader := rd, ts_defer := d\<rparr>"
      then show ?thesis using ts_parser.parseRemainder_keeps[OF ctor_ok(1), of send now "Some ls" port topoFile "topoFile = []" seeds]
        by (simp add: ts_wf_def)
    qed (simp add: ctor_ok)
    then show ?thesis by (simp add: 1 ts_wf_def)
  qed
next
  case (step c c')
  then show ?case by (auto elim!: tr_step.cases simp: ts_wf_accept)
qed

lemma reachable_ts_good: "tr_reachable send topo c \<Longrightarrow> reader_ok q topo \<Longrightarrow> ts_good q (snd c)"
proof (induction rule: tr_reachable.induct)
  case (start now so bo lo port topoFile seeds s)
  let ?s0 = "ts_ctor port topoFile (topoFile = []) seeds"
  from start(1) show ?case
  proof (cases rule: tr_start_cases)
    case (1 s1)
    have "ts_good q s1" using 1(2)
    proof (elim disjE exE conjE)
      fix ls r rd s2 d
      assume p: "topo = Some ls" "parseRemainder (parseLine (ts_ops send)) now (Some ls) ?s0 = (r, rd, s2)" "s1 = s2\<lparr>ts_reader := rd, ts_defer := d\<rparr>"
      have "tables_ok q s2 \<and> reader_ok q rd"
        using tables_ok_remainder[OF _ _ p(2)] ctor_ok(2)[of q port topoFile "topoFile = []" seeds] start(2) p(1) by (simp add: ts_good_def)
      then show ?thesis using p(3) tables_ok_cong[of s1 s2] by (simp add: ts_good_def)
    qed (simp add: ctor_ok)
    moreover have "tables_ok q (ts_print x (s1\<lparr>ts_running := True\<rparr>)) = tables_ok q s1" for x by (rule tables_ok_cong) simp_all
    ultimately show ?thesis by (simp add: 1(1) ts_good_def del: tables_ok_print)
  qed
next
  case (step c c')
  then show ?case by (auto elim!: tr_step.cases simp: ts_good_accept)
qed

section \<open>Answers and lines\<close>

lemma heard_reads:
  assumes "heard n v" "env_trawler env (er_feeds m) = (chunks, WouldBlock)" "concat chunks = en_out n"
    "er_trawlerBuf m = []" "arp_view m = Map.empty"
  shows "arp_view (refreshARP env m) = v"
proof -
  obtain cs where cs: "list_all cmd_ok cs" "en_out n = concat (map (\<lambda>c. cmd_line c @ [newline]) cs)"
    "v = fold cmd_apply cs Map.empty" using assms(1) by (auto simp: heard_def)
  have "er_trawlerBuf m @ concat chunks = concat (map (\<lambda>c. cmd_line c @ [newline]) cs) @ []" using cs assms by simp
  from refreshARP_stream[OF assms(2) _ cs(1) this] show ?thesis using cs assms by simp
qed

lemma emu_start_table:
  assumes "emu_start env b host (emu_setCommandFile f (emu_ctor env port)) = Inr (Some e)"
  shows "er_feeds (io_rt (em_io e)) = 0" "er_trawlerBuf (io_rt (em_io e)) = []" "arp_view (io_rt (em_io e)) = Map.empty"
    "map_option stoi (recv_line (bt_reply b)) = Some (Inr (em_assignedNodeId e))"
proof -
  show "er_feeds (io_rt (em_io e)) = 0" "er_trawlerBuf (io_rt (em_io e)) = []"
    using emu_start_fresh[OF assms] by (simp_all add: emu_setCommandFile_def emu_upd_def emu_ctor_def)
  have "er_arp (io_rt (em_io e)) = er_arp (io_rt (em_io (emu_setCommandFile f (emu_ctor env port))))"
    using assms by (auto simp: emu_start_def ebind_def Let_def sn_start_def tm_start_def addTimer_io_def emu_runtime_def emu_addTimer_def
      split: sum.splits if_splits option.splits)
  then show "arp_view (io_rt (em_io e)) = Map.empty"
    by (simp add: arp_view_def fun_eq_iff emu_setCommandFile_def emu_upd_def emu_ctor_def)
  show "map_option stoi (recv_line (bt_reply b)) = Some (Inr (em_assignedNodeId e))"
    using assms by (auto simp: emu_start_def ebind_def Let_def split: sum.splits if_splits option.splits)
qed

lemma reply_line:
  assumes "\<And>k n. 0 < send k n"
  shows "fst (ts_reply send v s) = string_of_int v @ [newline]"
  using write_from_completes[of send "ts_sends s" "string_of_int v @ [newline]"] assms
  by (auto simp: ts_reply_def writeLineToFd_def)

lemma find_int_None: "find P (map int [0..<N]) = None \<longleftrightarrow> (\<forall>i. 0 \<le> i \<and> i < int N \<longrightarrow> \<not> P i)"
proof -
  have "set (map int [0..<N]) = {i. 0 \<le> i \<and> i < int N}"
    by (auto simp: image_iff) (metis atLeastLessThan_iff nat_0_le of_nat_0_le_iff of_nat_less_iff zero_le)
  then show ?thesis unfolding find_None_iff by blast
qed

lemma freeFishAddr_none: "freeFishAddr s = - 1 \<longleftrightarrow> (\<forall>i. 0 \<le> i \<and> i < BROADCAST_ADDRESS \<longrightarrow> getEmulatedNode i s \<noteq> None)"
proof -
  define N where "N = nat BROADCAST_ADDRESS"
  have N: "int N = BROADCAST_ADDRESS" by (simp add: N_def cxx_const)
  let ?f = "find (\<lambda>i. getEmulatedNode i s = None) (map int [0..<N])"
  have "freeFishAddr s = - 1 \<longleftrightarrow> ?f = None"
  proof (cases ?f)
    case (Some i)
    then have "0 \<le> i" by (auto simp: find_Some_iff)
    with Some show ?thesis by (simp add: freeFishAddr_def N_def)
  qed (simp add: freeFishAddr_def N_def)
  then show ?thesis unfolding find_int_None N .
qed

lemma write_progress:
  assumes "\<And>k n. 0 < send k n" "getEmulatedNode a s = Some n" "en_tcpFd n \<ge> 0"
  shows "\<exists>n'. getEmulatedNode a (snd (ts_write send a line s)) = Some n' \<and> en_out n' = en_out n @ line @ [newline]"
  using write_from_completes[of send "ts_sends s" "line @ [newline]"] assms
  by (auto simp: ts_write_def en_writeLine_def getEmulatedNode_def update_conv')

lemma write_other: "a \<noteq> b \<Longrightarrow> getEmulatedNode a (snd (ts_write send b line s)) = getEmulatedNode a s"
  by (simp add: ts_write_def getEmulatedNode_def update_conv' split_beta split: option.split)

lemma add_other: "a \<noteq> b \<Longrightarrow> getEmulatedNode a (snd (sendAddNeighbor send b peer s)) = getEmulatedNode a s"
  by (simp add: sendAddNeighbor_def write_other split_beta split: option.split)

section \<open>A small trawler\<close>

definition demo_send :: "nat \<Rightarrow> nat \<Rightarrow> int" where
  "demo_send k n = int n + 1"

lemma demo_write [simp]: "write_from demo_send k s = (True, s, if s = [] then k else Suc k)"
  by (simp add: write_from.simps[of demo_send k s] write_from.simps[of demo_send _ "[]"] demo_send_def)

definition demo_trawler :: trawler where
  "demo_trawler = ts_print (Cout ''Trawler awaiting fish...'') ((ts_ctor 9000 [] True (\<lambda>_ _. 0))\<lparr>ts_running := True\<rparr>)"

definition demo_trawler1 :: trawler where
  "demo_trawler1 = snd (tr_accept demo_send (Accepted 4 (10, 0, 0, 1) ''5000\<newline>'') 0 demo_trawler)"

definition demo_trawler2 :: trawler where
  "demo_trawler2 = snd (tr_accept demo_send (Accepted 5 (10, 0, 0, 2) ''5000\<newline>'') 0 demo_trawler1)"

lemma demo_start: "tr_start demo_send None 0 True True True (ts_ctor 9000 [] True (\<lambda>_ _. 0)) = Inr (Some demo_trawler)"
  by (simp add: tr_start_def ts_ctor_def ebind_def demo_trawler_def)

lemma stoi_5000: "recv_line ''5000\<newline>'' = Some ''5000''" "stoi ''5000'' = Inr 5000"
  by code_simp+

lemma demo_ip: "addrToString (10, 0, 0, 1) = ''10.0.0.1''" "addrToString (10, 0, 0, 2) = ''10.0.0.2''"
  by code_simp+

lemma find_upt: "find P (map int [i..<j]) = (if i < j then if P (int i) then Some (int i) else find P (map int [Suc i..<j]) else None)"
  by (simp add: upt_conv_Cons)

lemma demo_nodes1: "ts_nodes demo_trawler1 = [(0, (emulated_node_ctor 4 0 ''10.0.0.1'' 5000 ''0\<newline>''))]"
  "ts_topo demo_trawler1 = topology_ctor True (\<lambda>_ _. 0)" "ts_defer demo_trawler1 = -1"
proof -
  have n: "ts_nodes demo_trawler = []" "ts_defer demo_trawler = -1" "ts_topo demo_trawler = topology_ctor True (\<lambda>_ _. 0)" 
    by (simp_all add: demo_trawler_def ts_ctor_def)
  have f: "freeFishAddr demo_trawler = 0" by (simp add: freeFishAddr_def getEmulatedNode_def n find_upt[of _ 0] cxx_const)
  show "ts_nodes demo_trawler1 = [(0, (emulated_node_ctor 4 0 ''10.0.0.1'' 5000 ''0\<newline>''))]"
  "ts_topo demo_trawler1 = topology_ctor True (\<lambda>_ _. 0)" "ts_defer demo_trawler1 = -1"
    by (simp_all add: demo_trawler1_def tr_accept_def checkNodesQuit_def n stoi_5000 demo_ip ts_admit_def portConflict_def
     f ts_reply_def writeLineToFd_def updateNeighbors_def getEmulatedNode_def ts_update_neighbor_def Let_def emulated_node_ctor_def
     print_eval)
qed

lemma demo_nodes2:
  "ts_nodes demo_trawler2 =
     [(0, (emulated_node_ctor 4 0 ''10.0.0.1'' 5000 ''0\<newline>'')
            \<lparr>en_out := addNeighborOptions 1 ''10.0.0.2'' 5000 default_edge_options @ [newline]\<rparr>),
      (1, (emulated_node_ctor 5 1 ''10.0.0.2'' 5000 ''1\<newline>'')
            \<lparr>en_out := addNeighborOptions 0 ''10.0.0.1'' 5000 default_edge_options @ [newline]\<rparr>)]"
  "ts_topo demo_trawler2 = push_edge 0 1 default_edge_options (topology_ctor True (\<lambda>_ _. 0))"
proof -
  let ?c = "checkNodesQuit demo_send demo_trawler1"
  have a: "isAlive (emulated_node_ctor fd a ip port g)" if "fd \<ge> 0" for fd a ip port g
    using that by (simp add: emulated_node_ctor_def isAlive_def)
  have c: "?c = demo_trawler1" by (simp add: checkNodesQuit_def demo_nodes1 ts_check_node_def getEmulatedNode_def a)
  have f: "freeFishAddr demo_trawler1 = 1"
    by (simp add: freeFishAddr_def getEmulatedNode_def demo_nodes1 find_upt[of _ 0] find_upt[of _ "Suc 0"] cxx_const)
  note eval = demo_trawler2_def tr_accept_def c demo_nodes1 stoi_5000 demo_ip ts_admit_def portConflict_def
     f ts_reply_def writeLineToFd_def updateNeighbors_def getEmulatedNode_def ts_update_neighbor_def Let_def emulated_node_ctor_def
     print_eval sendAddNeighbor_def ts_write_def en_writeLine_def getLiveEdge_def getEdge_def topology_ctor_def push_edge_def
     edge_ctor_def isNodeAlive_def isAlive_def isEdge_def
  show "ts_nodes demo_trawler2 =
     [(0, (emulated_node_ctor 4 0 ''10.0.0.1'' 5000 ''0\<newline>'')
            \<lparr>en_out := addNeighborOptions 1 ''10.0.0.2'' 5000 default_edge_options @ [newline]\<rparr>),
      (1, (emulated_node_ctor 5 1 ''10.0.0.2'' 5000 ''1\<newline>'')
            \<lparr>en_out := addNeighborOptions 0 ''10.0.0.1'' 5000 default_edge_options @ [newline]\<rparr>)]"
    by (simp add: eval)
  show "ts_topo demo_trawler2 = push_edge 0 1 default_edge_options (topology_ctor True (\<lambda>_ _. 0))"
    by (simp add: eval)
qed

lemma demo_reachable2: "\<exists>run. tr_reachable demo_send None (run, demo_trawler2)"
proof -
  have 0: "tr_reachable demo_send None (True, demo_trawler)"
    using demo_start by (intro tr_reachable.start[of _ _ 0 True True True 9000 "[]" "\<lambda>_ _. 0"]) simp
  have "fst (tr_accept demo_send (Accepted 4 (10, 0, 0, 1) ''5000\<newline>'') 0 demo_trawler)"
    by (simp add: tr_accept_def stoi_5000 checkNodesQuit_def demo_trawler_def ts_ctor_def Let_def)
  then have "tr_accept demo_send (Accepted 4 (10, 0, 0, 1) ''5000\<newline>'') 0 demo_trawler = (True, demo_trawler1)"
    by (simp add: demo_trawler1_def prod_eq_iff)
  then have "tr_reachable demo_send None (True, demo_trawler1)"
    using tr_reachable.step[OF 0] tr_step.accept[of demo_send demo_trawler] by metis
  from tr_reachable.step[OF this tr_step.accept[of demo_send demo_trawler1 "Accepted 5 (10, 0, 0, 2) ''5000\<newline>''" 0]]
  show ?thesis unfolding demo_trawler2_def by (metis prod.collapse)
qed

lemma demo_wf2: "ts_wf demo_trawler2"
  using demo_reachable2 reachable_ts_wf by fastforce

section \<open>Properties\<close>

text \<open>C25. In every state of the trawler the nodes have different addresses between 0 and 254 and
  different UDP endpoints with a legal port, each is filed under its own address, and no two
  edges of the topology join the same nodes.\<close>

theorem trawler_registry_invariant:
  assumes "tr_reachable send topo (run, s)"
  shows "distinct (map fst (ts_nodes s)) \<and> distinct (map endpoint (ts_nodes s)) \<and>
    list_all node_entry_ok (ts_nodes s) \<and> topo_wf (ts_topo s)"
  using reachable_ts_wf[OF assms] by (simp add: ts_wf_def nodes_ok_def)

theorem trawler_registry_invariant_witness:
  "\<exists>run. tr_reachable demo_send None (run, demo_trawler2) \<and> distinct (map fst (ts_nodes demo_trawler2)) \<and>
     map fst (ts_nodes demo_trawler2) = [0, 1]"
proof -
  obtain run where r: "tr_reachable demo_send None (run, demo_trawler2)" using demo_reachable2 by blast
  then show ?thesis using trawler_registry_invariant[OF r] by (intro exI[of _ run]) (simp add: demo_nodes2)
qed

text \<open>C5. Trawler and emulator agree. Take any run of the trawler, a node it has registered whose
  socket works, and an emulator that has read everything the trawler wrote to it, in any
  chunks. The emulator runs under the address the trawler assigned; every registered node with
  a working socket that the topology joins to it by a live edge is in its table with the right
  address, port and link options; every other is not, or, when the topology file uses \<open>fail\<close>,
  is at most there without link options.\<close>

theorem trawler_emulator_agree:
  assumes run: "tr_reachable send topo (run, s)" "reader_ok q topo"
    and n: "getEmulatedNode a s = Some n" "isAlive n" "en_greeting n = string_of_int a @ [newline]"
    and e: "emu_start env b host (emu_setCommandFile f (emu_ctor env port)) = Inr (Some e)"
    and io: "bt_reply b = en_greeting n @ en_out n" "env_trawler env 0 = (chunks, WouldBlock)" "concat chunks = en_out n"
    and c: "c \<noteq> a"
  shows "em_assignedNodeId e = a \<and>
    pair_ok q (live_opts (ts_topo s)) (ts_nodes s) a c (arp_view (refreshARP env (io_rt (em_io e))) c)"
proof
  note st = emu_start_table[OF e]
  have good: "ts_good q s" "ts_wf s" using reachable_ts_good[OF run] reachable_ts_wf[OF run(1)] by simp_all
  have a: "in_i32 a" using fish_addr[OF good(2) n(1)] addr_ok by blast
  have "recv_line (string_of_int a @ newline # en_out n) = Some (string_of_int a)"
    using string_of_int_chars[of a] number_char_not by (intro recv_line_line) (auto simp: list_all_iff)
  then show "em_assignedNodeId e = a" using st(4) io(1) n(3) stoi_string_of_int[OF a] by simp
  obtain V where V: "told q (live_opts (ts_topo s)) {} (ts_nodes s) V"
    using good by (auto simp: ts_good_def tables_ok_def informed_def)
  have v: "heard n (V a)" "pair_ok q (live_opts (ts_topo s)) (ts_nodes s) a c (V a c)"
    using V n(1,2) c by (auto simp: told_def getEmulatedNode_def)
  have "arp_view (refreshARP env (io_rt (em_io e))) = V a"
    using heard_reads[OF v(1) _ io(3) st(2,3)] io(2) st(1) by simp
  then show "pair_ok q (live_opts (ts_topo s)) (ts_nodes s) a c (arp_view (refreshARP env (io_rt (em_io e))) c)"
    using v(2) by simp
qed

theorem trawler_emulator_agree_witness:
  "\<exists>e :: emulator. em_assignedNodeId e = 0 \<and>
     arp_view (refreshARP (demo_env\<lparr>env_trawler := \<lambda>_. ([en_out (the (getEmulatedNode 0 demo_trawler2))], WouldBlock)\<rparr>) (io_rt (em_io e))) 1 =
       Some (''10.0.0.2'', 5000, Some default_edge_options)"
proof -
  obtain run where r: "tr_reachable demo_send None (run, demo_trawler2)" using demo_reachable2 by blast
  obtain n m where n: "getEmulatedNode 0 demo_trawler2 = Some n" "isAlive n" "en_greeting n = string_of_int 0 @ [newline]"
    and m: "map_of (ts_nodes demo_trawler2) 1 = Some m" "isAlive m" "en_ipAddress m = ''10.0.0.2''" "en_udpPort m = 5000"
    by (simp add: getEmulatedNode_def demo_nodes2 emulated_node_ctor_def isAlive_def print_eval)
  let ?env = "demo_env\<lparr>env_trawler := \<lambda>_. ([en_out n], WouldBlock)\<rparr>"
  let ?b = "demo_boot\<lparr>bt_send := demo_send, bt_reply := en_greeting n @ en_out n\<rparr>"
  have "recv_line (string_of_int 0 @ newline # en_out n) = Some (string_of_int 0)"
    using string_of_int_chars[of 0] number_char_not by (intro recv_line_line) (auto simp: list_all_iff)
  then obtain e where e: "emu_start ?env ?b ''localhost'' (emu_setCommandFile None (emu_ctor ?env 5000)) = Inr (Some e)"
    using stoi_string_of_int[of 0] n(3)
    by (simp add: emu_start_def ebind_def connectToTrawler_def openUdpSocket_def writeLineToFd_def demo_boot_def in_i32_def cxx_const Let_def)
  have "reader_ok True None" by (simp add: reader_ok_def)
  from trawler_emulator_agree[OF r this n e, of "[en_out n]" 1]
  have "em_assignedNodeId e = 0 \<and>
    pair_ok True (live_opts (ts_topo demo_trawler2)) (ts_nodes demo_trawler2) 0 1 (arp_view (refreshARP ?env (io_rt (em_io e))) 1)"
    by simp
  moreover have "live_opts (ts_topo demo_trawler2) 0 1 = Some default_edge_options"
    by (simp add: demo_nodes2 live_opts_def edge_state_def topo_view_def push_edge_def topology_ctor_def edge_ctor_def ends_def isNodeAlive_def)
  ultimately show ?thesis using n(1) m by (intro exI[of _ e]) (simp add: pair_ok_def)
qed

text \<open>C24. Admission of a node: a client whose port is below 1024 or already in use at its IP address,
  or that comes when all 255 addresses are taken, is sent 255 and nothing else changes;
  any other is sent the smallest free address and registered under it with its endpoint.\<close>

theorem trawler_admission:
  assumes wf: "ts_wf s" "in_i32 port" "plain_text ip" and send: "\<And>k n. 0 < send k n"
    and r: "ts_admit send fd ip port s = (out, s')"
  shows "if port < 1024 \<or> portConflict ip port s \<or> (\<forall>i. 0 \<le> i \<and> i < 255 \<longrightarrow> getEmulatedNode i s \<noteq> None)
    then out = ''255\<newline>'' \<and> ts_nodes s' = ts_nodes s
    else \<exists>a n. 0 \<le> a \<and> a < 255 \<and> getEmulatedNode a s = None \<and> (\<forall>i. 0 \<le> i \<and> i < a \<longrightarrow> getEmulatedNode i s \<noteq> None) \<and>
      out = string_of_int a @ [newline] \<and> map fst (ts_nodes s') = map fst (ts_nodes s) @ [a] \<and>
      getEmulatedNode a s' = Some n \<and> endpoint (a, n) = (ip, port) \<and> en_greeting n = out"
proof (cases rule: ts_admit_cases[of port ip s send fd])
  case (refused s1)
  have rr: "ts_reply send BROADCAST_ADDRESS s1 = (out, s')" using refused(2) r by simp
  have "out = string_of_int BROADCAST_ADDRESS @ [newline]"
    using reply_line[of send BROADCAST_ADDRESS s1, OF send, unfolded rr fst_conv] .
  then have "out = ''255\<newline>''" by (simp add: print_eval cxx_const)
  moreover have "ts_nodes s' = ts_nodes s" using refused(4) reply_fields(2)[of send BROADCAST_ADDRESS s1, unfolded rr snd_conv] by simp
  ultimately show ?thesis using refused(1) by (simp add: freeFishAddr_none cxx_const)
next
  case (admitted out' s1)
  let ?a = "freeFishAddr s"
  let ?n = "emulated_node_ctor fd ?a ip port out"
  let ?s = "s1\<lparr>ts_nodes := AList.update ?a ?n (ts_nodes s1)\<rparr>"
  have o: "out' = out" "s' = updateNeighbors send ?a ?s" using admitted(4) r by auto
  have sn: "sends ?s s'" unfolding o(2)
    using admit_new_wf[OF wf(1) admitted(1-3) wf(2,3) admitted(5,6)] by (rule sends_updateNeighbors)
  have free: "map_of (ts_nodes s1) ?a = None"
    using freeFishAddr_free(1)[OF admitted(3)] admitted(6) by (simp add: getEmulatedNode_def)
  have "getEmulatedNode ?a ?s = Some ?n" by (simp add: getEmulatedNode_def update_conv')
  then obtain n where n: "getEmulatedNode ?a s' = Some n" "same_node ?n n"
    using sends_node[OF sn, of ?a] by (auto simp: option_rel_Some1)
  have keys: "map fst (ts_nodes s') = map fst (ts_nodes s) @ [?a]"
    unfolding sends_keys[OF sn] using admitted(6) free by (simp add: update_new)
  have out: "out = string_of_int ?a @ [newline]" using admitted(9) o reply_line[of send ?a s, OF send] by simp
  have ep: "endpoint (?a, n) = (ip, port)" "en_greeting n = out" using n(2) by (simp_all add: endpoint_def same_node_def emulated_node_ctor_def)
  have no: "\<not> (port < 1024 \<or> portConflict ip port s \<or> (\<forall>i. 0 \<le> i \<and> i < 255 \<longrightarrow> getEmulatedNode i s \<noteq> None))"
    using admitted(1-3) freeFishAddr_none[of s] by (simp add: cxx_const)
  have "\<forall>i. 0 \<le> i \<and> i < ?a \<longrightarrow> getEmulatedNode i s \<noteq> None" using freeFishAddr_free(4)[OF admitted(3)] by blast
  moreover have "0 \<le> ?a" "?a < 255" using freeFishAddr_free(2,3)[OF admitted(3)] by (simp_all add: cxx_const)
  ultimately show ?thesis unfolding if_not_P[OF no]
    using freeFishAddr_free(1)[OF admitted(3)] n(1) keys out ep by blast
qed

theorem trawler_admission_witness:
  "\<exists>out s'. ts_admit demo_send 6 ''10.0.0.3'' 5000 demo_trawler2 = (out, s') \<and> out = ''2\<newline>'' \<and>
     map fst (ts_nodes s') = [0, 1, 2]"
proof -
  obtain out s' where r: "ts_admit demo_send 6 ''10.0.0.3'' 5000 demo_trawler2 = (out, s')" by fastforce
  have k: "map fst (ts_nodes demo_trawler2) = [0, 1]" by (simp add: demo_nodes2)
  have reg: "getEmulatedNode i demo_trawler2 \<noteq> None \<longleftrightarrow> i = 0 \<or> i = 1" for i by (simp only: registered k) auto
  have no: "\<not> (5000 < (1024::int) \<or> portConflict ''10.0.0.3'' 5000 demo_trawler2 \<or>
      (\<forall>i. 0 \<le> i \<and> i < 255 \<longrightarrow> getEmulatedNode i demo_trawler2 \<noteq> None))"
    unfolding reg by (auto simp: portConflict_def demo_nodes2 emulated_node_ctor_def intro: exI[of _ 2])
  have p: "in_i32 5000" "plain_text ''10.0.0.3''" "\<And>k n. 0 < demo_send k n" by (simp_all add: in_i32_def plain_text_def demo_send_def)
  from trawler_admission[OF demo_wf2 p(1,2) p(3) r, unfolded if_not_P[OF no]]
  obtain a where a: "0 \<le> a" "\<not> (a = 0 \<or> a = 1)" "\<forall>i. 0 \<le> i \<and> i < a \<longrightarrow> i = 0 \<or> i = 1"
    "out = string_of_int a @ [newline]" "map fst (ts_nodes s') = [0, 1] @ [a]"
    unfolding reg k using reg by metis
  have "\<not> 2 < a" using a(3)[rule_format, of 2] by auto
  then have "a = 2" using a(1,2) by presburger
  then show ?thesis using r a by (simp add: print_eval)
qed



end
