(* ===== verification/Simulator.thy ===== *)
theory Simulator
  imports Commands_Parser Node_Invariant
begin

text \<open>
  \<open>Simulator\<close> (\<open>sim/simulator.cpp\<close>) with \<open>SimulationCommandsParser\<close>: the nodes, the event
  queue, the topology and the main loop. \<open>sim_rt\<close> is the part of the state that the nodes reach
  through \<open>RuntimeManager\<close>; \<open>simulator\<close> adds the nodes and the files. An integer division by
  zero inside \<open>sendPkt\<close> cannot be caught: it sets \<open>sr_fault\<close>, and the loop ends. What
  \<open>sendPkt\<close> itself prints to \<open>cerr\<close> is collected in \<open>sr_err\<close>.

  The main loop is a transition system over the phases \<open>Top\<close> (about to read a command and
  to wait for input), \<open>Drain\<close> (running the events that are due) and \<open>Ended\<close>. The line that
  the user may type and the time that passed until then are arguments of a step.
\<close>

definition MAX_NODES_TO_SIMULATE :: int where [cxx_const]: "MAX_NODES_TO_SIMULATE = 254"

record sim_rt =
  sr_base :: rt_base
  sr_nowMicros :: int
  sr_topo :: topology
  sr_numNodes :: nat
  sr_err :: "string list"
  sr_fault :: bool

section \<open>The runtime operations\<close>

definition sim_now :: "sim_rt \<Rightarrow> int" where
  "sim_now m = sr_nowMicros m sdiv 1000"

text \<open>Hand a packet to the edge \<open>i\<close> and schedule its delivery.\<close>

definition sim_transmit :: "nat \<Rightarrow> int \<Rightarrow> int \<Rightarrow> byte list \<Rightarrow> sim_rt \<Rightarrow> (exn + bool) \<times> sim_rt" where
  "sim_transmit i from to pkt m =
     (case edge_schedulePkt (edges (sr_topo m) ! i) from (int (length pkt)) (sr_nowMicros m) (rb_stats (sr_base m)) of
        (Inl (Fault _), _, _) \<Rightarrow> (Inr True, m\<lparr>sr_fault := True\<rparr>)
      | (Inl e, _, _) \<Rightarrow> (Inl e, m)
      | (Inr arrival, e', st) \<Rightarrow>
          let b = (sr_base m)\<lparr>rb_stats := st\<rparr>;
              m1 = m\<lparr>sr_topo := update_edge i (\<lambda>_. e') (sr_topo m), sr_base := b\<rparr>
          in (Inr True,
              if arrival = - 1 then m1
              else m1\<lparr>sr_base := addEventAtMicros arrival (Some (CbDeliverPkt from to pkt)) b\<rparr>))"

fun sim_broadcast :: "int \<Rightarrow> byte list \<Rightarrow> int list \<Rightarrow> sim_rt \<Rightarrow> (exn + bool) \<times> sim_rt" where
  "sim_broadcast from pkt [] m = (Inr True, m)"
| "sim_broadcast from pkt (i # is) m =
     (case getLiveEdge from i (sr_topo m) of
        (None, t) \<Rightarrow> sim_broadcast from pkt is (m\<lparr>sr_topo := t\<rparr>)
      | (Some k, t) \<Rightarrow>
          (case sim_transmit k from i pkt (m\<lparr>sr_topo := t\<rparr>) of
             (Inl e, m1) \<Rightarrow> (Inl e, m1)
           | (Inr _, m1) \<Rightarrow> sim_broadcast from pkt is m1))"

definition sim_sendPkt :: "int \<Rightarrow> int \<Rightarrow> byte list \<Rightarrow> sim_rt \<Rightarrow> (exn + bool) \<times> sim_rt" where
  "sim_sendPkt from to pkt m =
     (case base_sendPkt from to pkt (sr_base m) of
        (Inl e, _) \<Rightarrow> (Inl e, m)
      | (Inr _, b) \<Rightarrow>
          let m1 = m\<lparr>sr_base := b\<rparr>
          in if to = BROADCAST_ADDRESS then sim_broadcast from pkt (map int [0..<sr_numNodes m1]) m1
             else
               (case getLiveEdge from to (sr_topo m1) of
                  (None, t) \<Rightarrow>
                    (Inr False,
                     m1\<lparr>sr_topo := t,
                        sr_err := sr_err m1 @ [''Failed to send pkt from: '' @ string_of_int from @
                                               '' to: '' @ string_of_int to]\<rparr>)
                | (Some k, t) \<Rightarrow> sim_transmit k from to pkt (m1\<lparr>sr_topo := t\<rparr>)))"

definition sim_addTimer :: "int \<Rightarrow> int \<Rightarrow> callback option \<Rightarrow> sim_rt \<Rightarrow> sim_rt" where
  "sim_addTimer addr deltaMs cb m = m\<lparr>sr_base := addTimer (sim_now m) deltaMs cb (sr_base m)\<rparr>"

definition sim_runtime :: "sim_rt runtime" where
  "sim_runtime = \<lparr>rt_sendPkt = sim_sendPkt, rt_now = sim_now, rt_addTimer = sim_addTimer\<rparr>"

section \<open>The simulator\<close>

record simulator =
  sim_nodes :: "stack_node list"
  sim_io :: "sim_rt io"
  sim_topoReader :: "string list option"
  sim_timescale :: rat
  sim_defer :: int

definition sim_upd :: "(sim_rt \<Rightarrow> sim_rt) \<Rightarrow> simulator \<Rightarrow> simulator" where
  "sim_upd f s = s\<lparr>sim_io := (sim_io s)\<lparr>io_rt := f (io_rt (sim_io s))\<rparr>\<rparr>"

definition sim_print :: "console_out \<Rightarrow> simulator \<Rightarrow> simulator" where
  "sim_print x s = s\<lparr>sim_io := (sim_io s)\<lparr>io_out := io_out (sim_io s) @ [x]\<rparr>\<rparr>"

definition isNodeAddrValid :: "int \<Rightarrow> simulator \<Rightarrow> bool" where
  "isNodeAddrValid a s \<longleftrightarrow> 0 \<le> a \<and> a < int (length (sim_nodes s))"

text \<open>Run an operation of node \<open>a\<close>.\<close>

definition sim_at_node ::
  "int \<Rightarrow> (stack_node \<Rightarrow> sim_rt io \<Rightarrow> stack_node \<times> sim_rt io) \<Rightarrow> simulator \<Rightarrow> simulator" where
  "sim_at_node a f s =
     (case f (sim_nodes s ! nat a) (sim_io s) of
        (n, w) \<Rightarrow> s\<lparr>sim_nodes := (sim_nodes s)[nat a := n], sim_io := w\<rparr>)"

definition sim_sendNodeMsg :: "int \<Rightarrow> string \<Rightarrow> simulator \<Rightarrow> bool \<times> simulator" where
  "sim_sendNodeMsg a msg s =
     (if \<not> isNodeAddrValid a s then (False, s) else (True, sim_at_node a (onCommand sim_runtime msg) s))"

definition deliverPkt :: "int \<Rightarrow> int \<Rightarrow> byte list \<Rightarrow> simulator \<Rightarrow> simulator" where
  "deliverPkt from to pkt s =
     (if isNodeAddrValid to s then sim_at_node to (onReceive sim_runtime from pkt) s else s)"

definition sim_setTimescale :: "rat \<Rightarrow> simulator \<Rightarrow> simulator" where
  "sim_setTimescale timescale s = s\<lparr>sim_timescale := timescale\<rparr>"

section \<open>SimulationCommandsParser\<close>

definition sim_parseNodeCmd :: "string list \<Rightarrow> simulator \<Rightarrow> simulator" where
  "sim_parseNodeCmd cmd s =
     (if length cmd < 2 then s
      else
        (case stoi (cmd ! 0) of
           Inl _ \<Rightarrow> sim_print (Cerr (''Error parsing command to node: '' @ printStrArray cmd)) s
         | Inr a \<Rightarrow>
             (case sim_sendNodeMsg a (join_words (tl cmd)) s of
                (True, s1) \<Rightarrow> s1
              | (False, s1) \<Rightarrow>
                  sim_print (Cerr (''Node address: '' @ string_of_int a @ '' does not exist!'')) s1)))"

definition sim_exitCmd :: "string list \<Rightarrow> simulator \<Rightarrow> bool \<times> simulator" where
  "sim_exitCmd cmd s =
     (if cmd ! 0 = ''exit''
      then (True, fold (\<lambda>l. sim_print (Cerr l))
                    (stop_report (sim_now (io_rt (sim_io s))) (sr_base (io_rt (sim_io s)))) s)
      else (False, s))"

definition sim_set_topo :: "topology \<Rightarrow> simulator \<Rightarrow> simulator" where
  "sim_set_topo t = sim_upd (\<lambda>m. m\<lparr>sr_topo := t\<rparr>)"

abbreviation sim_topo :: "simulator \<Rightarrow> topology" where
  "sim_topo s \<equiv> sr_topo (io_rt (sim_io s))"

definition sim_ops :: "simulator parser_ops" where
  "sim_ops =
     \<lparr>po_exitCmd = sim_exitCmd, po_parseNodeCmd = sim_parseNodeCmd,
      po_createNewEdge = (\<lambda>a b opt s. sim_set_topo (newEdge a b opt (sim_topo s)) s),
      po_failEdge = (\<lambda>a b s. case failEdge a b (sim_topo s) of (r, t) \<Rightarrow> (r, sim_set_topo t s)),
      po_failNode = (\<lambda>a s. sim_set_topo (failNode a (sim_topo s)) s),
      po_restartEdge = (\<lambda>a b s. case restartEdge a b (sim_topo s) of (r, t) \<Rightarrow> (r, sim_set_topo t s)),
      po_restartNode = (\<lambda>a s. sim_set_topo (restartNode a (sim_topo s)) s),
      po_print = sim_print\<rparr>"

definition sim_parseLine :: "string \<Rightarrow> int \<Rightarrow> simulator \<Rightarrow> int option \<times> simulator" where
  "sim_parseLine = parseLine sim_ops"

section \<open>Start-up\<close>

text \<open>Parse the topology file from where it was left; \<open>False\<close> when a command ended the process.\<close>

definition parseRestOfTopoFile :: "simulator \<Rightarrow> bool \<times> simulator" where
  "parseRestOfTopoFile s =
     (case parseRemainder sim_parseLine (sr_nowMicros (io_rt (sim_io s))) (sim_topoReader s) s of
        (None, rd, s1) \<Rightarrow> (False, s1\<lparr>sim_topoReader := rd\<rparr>)
      | (Some deferTill, rd, s1) \<Rightarrow>
          let s2 = s1\<lparr>sim_topoReader := rd\<rparr>
          in (True,
              if deferTill \<ge> 0
              then sim_upd (\<lambda>m. m\<lparr>sr_base := addEventAtMicros deferTill (Some CbParseRestOfTopoFile) (sr_base m)\<rparr>) s2
              else s2))"

text \<open>The constructor: \<open>topoFile\<close> is the name and the lines of the topology file, no lines when
  it cannot be opened; the seeds are those the edges will draw.\<close>

definition sim_init :: "int \<Rightarrow> (nat \<Rightarrow> nat \<Rightarrow> rat) \<Rightarrow> simulator" where
  "sim_init numNodes seeds =
     \<lparr>sim_nodes = map (\<lambda>i. stack_node_ctor (int i)) [0..<nat numNodes],
      sim_io = \<lparr>io_rt = \<lparr>sr_base = rt_base_ctor 0, sr_nowMicros = 0, sr_topo = topology_ctor False seeds,
                         sr_numNodes = nat numNodes, sr_err = [], sr_fault = False\<rparr>, io_out = []\<rparr>,
      sim_topoReader = None, sim_timescale = 1, sim_defer = 0\<rparr>"

definition sim_ctor ::
  "int \<Rightarrow> string \<times> string list option \<Rightarrow> (nat \<Rightarrow> nat \<Rightarrow> rat) \<Rightarrow> exn + bool \<times> simulator" where
  "sim_ctor numNodes topoFile seeds =
     (if numNodes \<le> 0 \<or> numNodes > MAX_NODES_TO_SIMULATE
      then Inl (InvalidArgument (''Simulator: invalid number of nodes: '' @ string_of_int numNodes))
      else
        let s = sim_init numNodes seeds
        in if fst topoFile = [] then Inr (True, s)
           else (case snd topoFile of
                   None \<Rightarrow> Inl (RuntimeError (''Could not open topo/command file: '' @ fst topoFile))
                 | Some ls \<Rightarrow> Inr (parseRestOfTopoFile (s\<lparr>sim_topoReader := Some ls\<rparr>))))"

definition sim_setCommandFile :: "string list option \<Rightarrow> simulator \<Rightarrow> simulator" where
  "sim_setCommandFile f = sim_upd (\<lambda>m. m\<lparr>sr_base := snd (setCommandFile f (sr_base m))\<rparr>)"

fun start_nodes :: "stack_node list \<Rightarrow> sim_rt io \<Rightarrow> sim_rt io" where
  "start_nodes [] w = w"
| "start_nodes (n # ns) w = start_nodes ns (sn_start sim_runtime n w)"

text \<open>The head of \<open>start\<close>, up to the loop.\<close>

definition sim_start :: "simulator \<Rightarrow> simulator" where
  "sim_start s =
     sim_upd (\<lambda>m. m\<lparr>sr_nowMicros := 1\<rparr>) (s\<lparr>sim_io := start_nodes (sim_nodes s) (sim_io s), sim_defer := 0\<rparr>)"

section \<open>The main loop\<close>

datatype sim_phase = Top | Drain | Ended

definition sim_readCommandFile :: "simulator \<Rightarrow> int option \<times> simulator" where
  "sim_readCommandFile s =
     readCommandFile sim_parseLine (\<lambda>s. rb_commandFile (sr_base (io_rt (sim_io s))))
       (\<lambda>f. sim_upd (\<lambda>m. m\<lparr>sr_base := (sr_base m)\<lparr>rb_commandFile := f\<rparr>\<rparr>))
       (sim_now (io_rt (sim_io s))) (sim_defer s) s"

text \<open>The time to the next event or command.\<close>

definition sim_delta :: "int \<Rightarrow> sim_rt \<Rightarrow> int" where
  "sim_delta deferTill m =
     (case getNextEvent (rb_events (sr_base m)) of
        Some e \<Rightarrow> i64 (timeToOccur e - sr_nowMicros m)
      | None \<Rightarrow> if deferTill \<ge> 0 then i64 (deferTill - sr_nowMicros m) else 0)"

text \<open>The part of the loop body before the events: a command of the file, then either a line of
  the user with the clock time that passed, or the advance of the time.\<close>

definition sim_iterate :: "(string \<times> int) option \<Rightarrow> simulator \<Rightarrow> sim_phase \<times> simulator" where
  "sim_iterate input s =
     (case sim_readCommandFile s of
        (None, s1) \<Rightarrow> (Ended, s1)
      | (Some deferTill, s1) \<Rightarrow>
          let s2 = s1\<lparr>sim_defer := deferTill\<rparr>
          in if sr_fault (io_rt (sim_io s2)) then (Ended, s2)
             else
               (case input of
                  Some (line, elapsed) \<Rightarrow>
                    let dt = (let x = of_int elapsed * sim_timescale s2 in if x < 0 then ceiling x else floor x);
                        s3 = sim_upd (\<lambda>m. m\<lparr>sr_nowMicros := i64 (sr_nowMicros m + dt)\<rparr>) s2
                    in (case sim_parseLine line (sr_nowMicros (io_rt (sim_io s3))) s3 of
                          (None, s4) \<Rightarrow> (Ended, s4)
                        | (Some _, s4) \<Rightarrow> (if sr_fault (io_rt (sim_io s4)) then Ended else Top, s4))
                | None \<Rightarrow>
                    (Drain,
                     sim_upd (\<lambda>m. m\<lparr>sr_nowMicros :=
                       max (sr_nowMicros m) (i64 (sr_nowMicros m + sim_delta deferTill m))\<rparr>) s2)))"

text \<open>A callback of the event queue; \<open>False\<close> when it ended the process.\<close>

definition sim_callback :: "callback \<Rightarrow> simulator \<Rightarrow> bool \<times> simulator" where
  "sim_callback cb s =
     (let at_node = (\<lambda>a.
        (case sn_callback sim_runtime cb (sim_nodes s ! nat a) (sim_io s) of
           (r, n, w) \<Rightarrow>
             let s1 = s\<lparr>sim_nodes := (sim_nodes s)[nat a := n], sim_io := w\<rparr>
             in (case r of
                   Inr _ \<Rightarrow> (True, s1)
                 | Inl (Fault _) \<Rightarrow> (True, sim_upd (\<lambda>m. m\<lparr>sr_fault := True\<rparr>) s1)
                 | Inl e \<Rightarrow> (True, sim_print (Cerr (''Simulator: callback threw: '' @ what e)) s1))))
      in (case cb of
            CbDeliverPkt from to pkt \<Rightarrow> (True, deliverPkt from to pkt s)
          | CbParseRestOfTopoFile \<Rightarrow> parseRestOfTopoFile s
          | CbPingTimedOut a \<Rightarrow> at_node a
          | CbRetransmissionTick a \<Rightarrow> at_node a
          | CbTaskTick a _ \<Rightarrow> at_node a
          | CbPhysicalSend _ _ _ \<Rightarrow> (True, s)))"

text \<open>One round of the inner loop: the next event that is due, or back to the top.\<close>

definition sim_fire :: "simulator \<Rightarrow> sim_phase \<times> simulator" where
  "sim_fire s =
     (let m = io_rt (sim_io s)
      in (case removeNextEvent (rb_events (sr_base m)) of
            None \<Rightarrow> (Top, s)
          | Some (e, q) \<Rightarrow>
              if timeToOccur e > sr_nowMicros m then (Top, s)
              else
                let s1 = sim_upd (\<lambda>m. m\<lparr>sr_base := (sr_base m)\<lparr>rb_events := q\<rparr>\<rparr>) s
                in (case callback e of
                      None \<Rightarrow> (Drain, s1)
                    | Some cb \<Rightarrow>
                        (case sim_callback cb s1 of
                           (False, s2) \<Rightarrow> (Ended, s2)
                         | (True, s2) \<Rightarrow> (if sr_fault (io_rt (sim_io s2)) then Ended else Drain, s2)))))"

inductive sim_step :: "sim_phase \<times> simulator \<Rightarrow> sim_phase \<times> simulator \<Rightarrow> bool" where
  wake: "sim_step (Top, s) (sim_iterate None s)"
| typed: "0 \<le> elapsed \<Longrightarrow> sim_step (Top, s) (sim_iterate (Some (line, elapsed)) s)"
| event: "sim_step (Drain, s) (sim_fire s)"

inductive_cases sim_stepE: "sim_step c c'"

text \<open>The loop without user input, for a number of steps.\<close>

fun sim_run :: "nat \<Rightarrow> sim_phase \<times> simulator \<Rightarrow> sim_phase \<times> simulator" where
  "sim_run 0 c = c"
| "sim_run (Suc k) (Top, s) = sim_run k (sim_iterate None s)"
| "sim_run (Suc k) (Drain, s) = sim_run k (sim_fire s)"
| "sim_run (Suc k) (Ended, s) = (Ended, s)"

end
