(* ===== verification/Sim_Invariant.thy ===== *)
theory Sim_Invariant
  imports Simulator Node_Effects
begin

text \<open>
  The invariant of the simulator: a well-formed topology, an ordered event queue whose entries
  are timers of existing nodes and tasks or deliveries of valid packets, and well-formed nodes.
  Every step of the main loop keeps it.
\<close>

section \<open>The runtime state\<close>

text \<open>What may be in the event queue when there are \<open>n\<close> nodes and node \<open>i\<close> has \<open>tk i\<close> tasks.\<close>

fun event_ok :: "nat \<Rightarrow> (nat \<Rightarrow> nat) \<Rightarrow> callback \<Rightarrow> bool" where
  "event_ok n tk (CbPingTimedOut a) \<longleftrightarrow> 0 \<le> a \<and> a < int n"
| "event_ok n tk (CbRetransmissionTick a) \<longleftrightarrow> 0 \<le> a \<and> a < int n"
| "event_ok n tk (CbTaskTick a i) \<longleftrightarrow> 0 \<le> a \<and> a < int n \<and> i < tk (nat a)"
| "event_ok n tk (CbDeliverPkt from to pkt) \<longleftrightarrow> (\<exists>p. packet_ok p \<and> pkt = packet_pack p)"
| "event_ok n tk CbParseRestOfTopoFile \<longleftrightarrow> True"
| "event_ok n tk (CbPhysicalSend _ _ _) \<longleftrightarrow> False"

definition queue_ok :: "nat \<Rightarrow> (nat \<Rightarrow> nat) \<Rightarrow> rt_base \<Rightarrow> bool" where
  "queue_ok n tk b \<longleftrightarrow> base_wf b \<and> (\<forall>e \<in> set (rb_events b). event_ok n tk (the (callback e)))"

definition sim_rt_ok :: "nat \<Rightarrow> (nat \<Rightarrow> nat) \<Rightarrow> sim_rt \<Rightarrow> bool" where
  "sim_rt_ok n tk m \<longleftrightarrow> sr_numNodes m = n \<and> topo_wf (sr_topo m) \<and> queue_ok n tk (sr_base m)"

lemma queue_ok_ops:
  "queue_ok n tk b \<Longrightarrow> event_ok n tk cb \<Longrightarrow> queue_ok n tk (addTimer now d (Some cb) b)"
  "queue_ok n tk b \<Longrightarrow> event_ok n tk cb \<Longrightarrow> queue_ok n tk (addEventAtMicros t (Some cb) b)"
  "queue_ok n tk (b\<lparr>rb_stats := st\<rparr>) = queue_ok n tk b"
  "queue_ok n tk b \<Longrightarrow> queue_ok n tk (snd (base_sendPkt from to pkt b))"
  by (auto simp: queue_ok_def wf_intro) 
     (auto simp: addTimer_def addTimerAt_def addEventAtMicros_def base_wf_def base_sendPkt_def split: option.splits if_splits)

lemma edge_schedulePkt_frame:
  assumes "edge_schedulePkt e src sz now st = (r, e', st')"
  shows "ends e' = ends e" "e_options e' = e_options e" "e_live e' = e_live e"
  using assms by (auto simp: edge_schedulePkt_def set_edge_sendTime_def ends_def Let_def split: if_splits)

lemma sim_transmit_ok:
  assumes ok: "sim_rt_ok n tk m" and p: "packet_ok p" "pkt = packet_pack p" and i: "i < length (edges (sr_topo m))"
    and r: "sim_transmit i from to pkt m = (r, m')"
  shows "sim_rt_ok n tk m' \<and> edge_state (sr_topo m') = edge_state (sr_topo m) \<and>
    failedNodes (sr_topo m') = failedNodes (sr_topo m)"
proof -
  obtain q e' st where s: "edge_schedulePkt (edges (sr_topo m) ! i) from (int (length pkt)) (sr_nowMicros m) (rb_stats (sr_base m)) = (q, e', st)"
    by (metis prod_cases3)
  note fr = edge_schedulePkt_frame[OF s]
  let ?t = "update_edge i (\<lambda>_. e') (sr_topo m)"
  obtain a b where ab: "ends (edges (sr_topo m) ! i) = {a, b}" by (auto simp: ends_def)
  have wf: "topo_wf ?t"
    using ok i ab fr by (intro update_edge_spec(1)[where a=a and b=b]) (simp_all add: sim_rt_ok_def)
  have "topo_view (sr_topo m) {a, b} = Some (e_options (edges (sr_topo m) ! i), e_live (edges (sr_topo m) ! i))"
    using ok i view_list_nth[of "edges (sr_topo m)" i]
    by (simp add: topo_view_def sim_rt_ok_def topo_wf_def flip: ab)
  then have st: "edge_state ?t = edge_state (sr_topo m)"
    using ok i ab fr edge_state_update[of "sr_topo m" i a b "\<lambda>_. e'"] 
    by (auto simp: fun_eq_iff edge_state_def sim_rt_ok_def)
  have "event_ok n tk (CbDeliverPkt from to pkt)" using p by auto
  then have "queue_ok n tk (addEventAtMicros x (Some (CbDeliverPkt from to pkt)) ((sr_base m)\<lparr>rb_stats := st\<rparr>))" for x
    using ok by (intro queue_ok_ops(2)) (simp_all add: sim_rt_ok_def queue_ok_ops(3))
  then show ?thesis
    using r ok wf st
    by (auto simp: sim_transmit_def s sim_rt_ok_def queue_ok_ops(3) Let_def split: sum.splits exn.splits if_splits)
qed


lemma sim_rt_ok_topo: "sim_rt_ok n tk m \<Longrightarrow> topo_wf t \<Longrightarrow> sim_rt_ok n tk (m\<lparr>sr_topo := t\<rparr>)"
  by (simp add: sim_rt_ok_def)

lemma sim_rt_ok_wf: "sim_rt_ok n tk m \<Longrightarrow> topo_wf (sr_topo m)"
  by (simp add: sim_rt_ok_def)

lemma sim_rt_ok_transmit:
  assumes ok: "sim_rt_ok n tk m" and p: "packet_ok p" "pkt = packet_pack p"
    and g: "getLiveEdge from to (sr_topo m) = (Some i, t)" and r: "sim_transmit i from to' pkt (m\<lparr>sr_topo := t\<rparr>) = (r, m')"
  shows "sim_rt_ok n tk m' \<and> same_topo (sr_topo m) (sr_topo m')"
proof -
  note sp = getLiveEdge_spec[OF sim_rt_ok_wf[OF ok] g]
  have "sim_rt_ok n tk m' \<and> edge_state (sr_topo m') = edge_state t \<and> failedNodes (sr_topo m') = failedNodes t"
    using sim_transmit_ok[OF sim_rt_ok_topo[OF ok sp(1)] p _ r] sp(5) by simp
  then show ?thesis using sp by (auto simp: same_topo_def sim_rt_ok_wf)
qed

lemma sim_rt_ok_broadcast:
  assumes "sim_rt_ok n tk m" "packet_ok p" "pkt = packet_pack p" "sim_broadcast from pkt is m = (r, m')"
  shows "sim_rt_ok n tk m' \<and> same_topo (sr_topo m) (sr_topo m')"
  using assms
proof (induction "from" pkt "is" m arbitrary: r rule: sim_broadcast.induct)
  case (1 "from" pkt m)
  then show ?case by (simp add: same_topo_def sim_rt_ok_wf)
next
  case (2 "from" pkt i "is" m)
  obtain g t where g: "getLiveEdge from i (sr_topo m) = (g, t)" by fastforce
  have t: "same_topo (sr_topo m) t" using same_topo_getLiveEdge[OF sim_rt_ok_wf[OF 2(3)] g] .
  show ?case
  proof (cases g)
    case None
    have "sim_rt_ok n tk (m\<lparr>sr_topo := t\<rparr>)" using sim_rt_ok_topo[OF 2(3)] t by (simp add: same_topo_def)
    with 2(1)[OF g[symmetric] None] 2(4-6) t g None show ?thesis by (auto intro: same_topo_trans)
  next
    case (Some k)
    obtain q m1 where q: "sim_transmit k from i pkt (m\<lparr>sr_topo := t\<rparr>) = (q, m1)" by fastforce
    have 1: "sim_rt_ok n tk m1 \<and> same_topo (sr_topo m) (sr_topo m1)"
      using sim_rt_ok_transmit[OF 2(3,4,5) g[unfolded Some] q] .
    with 2(2)[OF g[symmetric] Some q[symmetric]] 2(4-6) g Some q show ?thesis
      by (auto split: sum.splits intro: same_topo_trans)
  qed
qed

lemma base_sendPkt_Inr:
  assumes "base_sendPkt from to pkt b = (Inr r, b')"
  obtains p where "packet_ok p" "pkt = packet_pack p" "validAddress from" "validAddress to"
proof -
  have "fst (base_sendPkt from to pkt b) = Inr True" using assms
    by (auto simp: base_sendPkt_def split: if_splits option.splits)
  then show thesis using that base_sendPkt_accepts by blast
qed

lemma sim_rt_ok_sent:
  assumes "sim_rt_ok n tk m" "base_sendPkt from to pkt (sr_base m) = (q, b)"
  shows "sim_rt_ok n tk (m\<lparr>sr_base := b\<rparr>)"
  using assms queue_ok_ops(4)[of n tk "sr_base m" "from" to pkt] by (simp add: sim_rt_ok_def)

lemma sim_sendPkt_cases:
  obtains (refused) e where "fst (base_sendPkt from to pkt (sr_base m)) = Inl e" "sim_sendPkt from to pkt m = (Inl e, m)"
  | (broadcast) b where "base_sendPkt from to pkt (sr_base m) = (Inr True, b)" "to = BROADCAST_ADDRESS"
      "sim_sendPkt from to pkt m = sim_broadcast from pkt (map int [0..<sr_numNodes m]) (m\<lparr>sr_base := b\<rparr>)"
  | (cut) b t s where "base_sendPkt from to pkt (sr_base m) = (Inr True, b)" "to \<noteq> BROADCAST_ADDRESS"
      "getLiveEdge from to (sr_topo m) = (None, t)"
      "sim_sendPkt from to pkt m = (Inr False, m\<lparr>sr_base := b, sr_topo := t, sr_err := s\<rparr>)"
  | (edge) b t i where "base_sendPkt from to pkt (sr_base m) = (Inr True, b)" "to \<noteq> BROADCAST_ADDRESS"
      "getLiveEdge from to (sr_topo m) = (Some i, t)"
      "sim_sendPkt from to pkt m = sim_transmit i from to pkt (m\<lparr>sr_base := b, sr_topo := t\<rparr>)"
proof -
  obtain q b where q: "base_sendPkt from to pkt (sr_base m) = (q, b)" by (metis prod.exhaust)
  obtain g t where g: "getLiveEdge from to (sr_topo m) = (g, t)" by (metis prod.exhaust)
  have "q = Inr True" if "q = Inr x" for x
    using q that unfolding base_sendPkt_def by (auto split: if_splits option.splits)
  then consider (a) e where "q = Inl e" | (b) "q = Inr True" "to = BROADCAST_ADDRESS"
    | (c) "q = Inr True" "to \<noteq> BROADCAST_ADDRESS" "g = None"
    | (d) i where "q = Inr True" "to \<noteq> BROADCAST_ADDRESS" "g = Some i"
    by (cases q; cases g) auto
  then show thesis
  proof cases
    case a then show thesis using refused q by (simp add: sim_sendPkt_def)
  next
    case b then show thesis using broadcast q by (simp add: sim_sendPkt_def)
  next
    case c then show thesis using cut q g by (simp add: sim_sendPkt_def)
  next
    case d then show thesis using edge q g by (simp add: sim_sendPkt_def)
  qed
qed

lemma sim_sendPkt_keeps:
  assumes ok: "sim_rt_ok n tk m" and r: "sim_sendPkt from to pkt m = (r, m')"
  shows "sim_rt_ok n tk m' \<and> same_topo (sr_topo m) (sr_topo m')"
proof (cases rule: sim_sendPkt_cases[of "from" to pkt m])
  case (refused e)
  then show ?thesis using r ok by (simp add: same_topo_def sim_rt_ok_wf)
next
  case (broadcast b)
  obtain p where p: "packet_ok p" "pkt = packet_pack p" using base_sendPkt_Inr[OF broadcast(1)] by blast
  show ?thesis
    using sim_rt_ok_broadcast[OF sim_rt_ok_sent[OF ok broadcast(1)] p, of "from"] r broadcast(3) by simp
next
  case (cut b t s)
  then show ?thesis
    using r sim_rt_ok_sent[OF ok cut(1)] same_topo_getLiveEdge[OF sim_rt_ok_wf[OF ok] cut(3)]
    by (auto simp: same_topo_def sim_rt_ok_def)
next
  case (edge b t i)
  obtain p where p: "packet_ok p" "pkt = packet_pack p" using base_sendPkt_Inr[OF edge(1)] by blast
  show ?thesis
    using sim_rt_ok_transmit[OF sim_rt_ok_sent[OF ok edge(1)] p, of "from" to i t to r m'] r edge(3,4) by simp
qed

section \<open>The simulator is a runtime that keeps its state in order\<close>

definition sim_keep :: "nat \<Rightarrow> (nat \<Rightarrow> nat) \<Rightarrow> int \<Rightarrow> nat \<Rightarrow> topology \<Rightarrow> sim_rt \<Rightarrow> bool" where
  "sim_keep n tk a k t m \<longleftrightarrow> 0 \<le> a \<and> a < int n \<and> k \<le> tk (nat a) \<and> sim_rt_ok n tk m \<and> same_topo t (sr_topo m)"

lemma own_timer_event_ok: "own_timer a k cb \<Longrightarrow> 0 \<le> a \<Longrightarrow> a < int n \<Longrightarrow> k \<le> tk (nat a) \<Longrightarrow> event_ok n tk cb"
  by (cases cb) auto

interpretation sim_keeper: runtime_keeper sim_runtime a k "sim_keep n tk a k t" for n tk a k t
proof
  fix m dest bs
  assume "sim_keep n tk a k t m"
  then show "sim_keep n tk a k t (snd (rt_sendPkt sim_runtime a dest bs m))"
    using sim_sendPkt_keeps[of n tk m a dest bs, OF _ prod.collapse[symmetric]]
    by (auto simp: sim_keep_def sim_runtime_def intro: same_topo_trans)
next
  fix m cb d
  assume "sim_keep n tk a k t m" "own_timer a k cb"
  then show "sim_keep n tk a k t (rt_addTimer sim_runtime a d (Some cb) m)"
    by (auto simp: sim_keep_def sim_runtime_def sim_addTimer_def sim_rt_ok_def queue_ok_ops(1) own_timer_event_ok)
qed

section \<open>A node does not change the time\<close>

lemma sim_transmit_clock: "sr_nowMicros (snd (sim_transmit i from to pkt m)) = sr_nowMicros m"
  by (auto simp: sim_transmit_def Let_def split: prod.split sum.split exn.split)

lemma sim_broadcast_clock: "sr_nowMicros (snd (sim_broadcast from pkt is m)) = sr_nowMicros m"
proof (induction "from" pkt "is" m rule: sim_broadcast.induct)
  case (2 "from" pkt i "is" m)
  obtain g t where g: "getLiveEdge from i (sr_topo m) = (g, t)" by fastforce
  show ?case
  proof (cases g)
    case None
    then show ?thesis using 2(1)[OF g[symmetric] None] by (simp add: g)
  next
    case (Some k)
    obtain q m1 where q: "sim_transmit k from i pkt (m\<lparr>sr_topo := t\<rparr>) = (q, m1)" by fastforce
    have "sr_nowMicros m1 = sr_nowMicros m" using sim_transmit_clock[of k "from" i pkt "m\<lparr>sr_topo := t\<rparr>"] q by simp
    then show ?thesis using 2(2)[OF g[symmetric] Some q[symmetric]] by (simp add: g Some q split: sum.split)
  qed
qed simp

interpretation sim_timekeeper: runtime_keeper sim_runtime a k "\<lambda>m. sr_nowMicros m = t" for a k t
proof
  fix m :: sim_rt and dest bs
  assume "sr_nowMicros m = t"
  then show "sr_nowMicros (snd (rt_sendPkt sim_runtime a dest bs m)) = t"
    by (cases rule: sim_sendPkt_cases[of a dest bs m])
       (simp_all add: sim_runtime_def sim_transmit_clock sim_broadcast_clock)
qed (simp add: sim_runtime_def sim_addTimer_def)

section \<open>The simulator's invariant\<close>

abbreviation sim_clock :: "simulator \<Rightarrow> int" where
  "sim_clock s \<equiv> sr_nowMicros (io_rt (sim_io s))"

definition task_count :: "stack_node list \<Rightarrow> nat \<Rightarrow> nat" where
  "task_count ns i = (if i < length ns then length (sn_tasks (ns ! i)) else 0)"

definition sim_wf :: "simulator \<Rightarrow> bool" where
  "sim_wf s \<longleftrightarrow>
     (\<forall>i < length (sim_nodes s). sn_addr (sim_nodes s ! i) = int i \<and> node_wf (sim_nodes s ! i)) \<and>
     sim_rt_ok (length (sim_nodes s)) (task_count (sim_nodes s)) (io_rt (sim_io s))"

definition sim_room :: "simulator \<Rightarrow> bool" where
  "sim_room s \<longleftrightarrow> list_all node_room (sim_nodes s)"

lemma event_ok_mono: "event_ok n tk cb \<Longrightarrow> (\<And>i. i < n \<Longrightarrow> tk i \<le> tk' i) \<Longrightarrow> event_ok n tk' cb"
  by (cases cb) (auto intro: less_le_trans)

lemma sim_rt_ok_mono: "sim_rt_ok n tk m \<Longrightarrow> (\<And>i. i < n \<Longrightarrow> tk i \<le> tk' i) \<Longrightarrow> sim_rt_ok n tk' m"
  by (auto simp: sim_rt_ok_def queue_ok_def intro: event_ok_mono)

text \<open>What an operation of node \<open>i\<close> has to do.\<close>

definition node_op :: "nat \<Rightarrow> stack_node \<Rightarrow> sim_rt io \<Rightarrow> stack_node \<Rightarrow> sim_rt io \<Rightarrow> bool" where
  "node_op i n w n' w' \<longleftrightarrow> node_wf n' \<and> sn_addr n' = sn_addr n \<and> length (sn_tasks n) \<le> length (sn_tasks n') \<and>
     (\<forall>nn tk t. sim_keep nn tk (int i) (length (sn_tasks n')) t (io_rt w) \<longrightarrow>
       sim_keep nn tk (int i) (length (sn_tasks n')) t (io_rt w')) \<and>
     sr_nowMicros (io_rt w') = sr_nowMicros (io_rt w)"

lemma sim_wf_node_op:
  assumes wf: "sim_wf s" and i: "i < length (sim_nodes s)" and op: "node_op i (sim_nodes s ! i) (sim_io s) n' w'"
  shows "sim_wf (s\<lparr>sim_nodes := (sim_nodes s)[i := n'], sim_io := w'\<rparr>) \<and> same_topo (sim_topo s) (sr_topo (io_rt w')) \<and>
    sr_nowMicros (io_rt w') = sim_clock s"
proof -
  let ?ns = "(sim_nodes s)[i := n']"
  have grow: "task_count (sim_nodes s) j \<le> task_count ?ns j" for j
    using op i by (cases "j = i") (auto simp: task_count_def node_op_def)
  have "sim_rt_ok (length (sim_nodes s)) (task_count ?ns) (io_rt (sim_io s))"
    using wf sim_rt_ok_mono grow by (auto simp: sim_wf_def)
  then have "sim_keep (length (sim_nodes s)) (task_count ?ns) (int i) (length (sn_tasks n')) (sim_topo s) (io_rt (sim_io s))"
    using i by (simp add: sim_keep_def task_count_def same_topo_refl sim_rt_ok_wf)
  then have "sim_keep (length (sim_nodes s)) (task_count ?ns) (int i) (length (sn_tasks n')) (sim_topo s) (io_rt w')"
    using op by (simp add: node_op_def)
  then show ?thesis
    using wf op i by (auto simp: sim_wf_def sim_keep_def node_op_def nth_list_update)
qed

lemmas keeps_defs = node_op_def sim_keeper.keeps_def sim_timekeeper.keeps_def

lemma node_op_command:
  assumes "node_wf n" "sn_addr n = int i"
  shows "node_op i n w (fst (onCommand sim_runtime msg n w)) (snd (onCommand sim_runtime msg n w))"
  using assms sim_keeper.keeps_onCommand[OF assms order_refl] sim_timekeeper.keeps_onCommand[OF assms order_refl]
  by (simp add: keeps_defs node_wf_onCommand node_ops_grow)

lemma node_op_receive:
  assumes "node_wf n" "sn_addr n = int i" "node_room n"
  shows "node_op i n w (fst (onReceive sim_runtime from msg n w)) (snd (onReceive sim_runtime from msg n w))"
proof -
  have "tm_addr (sn_tcp n) = int i" using assms by (simp add: node_wf_def)
  from sim_keeper.keeps_onReceive[OF assms(2) this] sim_timekeeper.keeps_onReceive[OF assms(2) this] show ?thesis
    using assms by (simp add: keeps_defs node_wf_onReceive node_ops_grow)
qed

lemma node_op_callback:
  assumes "node_wf n" "sn_addr n = int i" "node_room n" "callback_ok n cb" "sn_callback sim_runtime cb n w = (r, n', w')"
  shows "node_op i n w n' w'"
proof -
  have g: "sn_addr n' = sn_addr n" "length (sn_tasks n) \<le> length (sn_tasks n')" using node_ops_grow(3)[OF assms(5)] by auto
  from sim_keeper.keeps_callback[OF assms(1,2,4) g(2) assms(5) order_refl]
    sim_timekeeper.keeps_callback[OF assms(1,2,4) g(2) assms(5) order_refl]
  show ?thesis using g node_wf_callback[OF assms(1,3,4,5)] by (simp add: keeps_defs)
qed

lemma node_op_start:
  assumes "node_wf n" "sn_addr n = int i"
  shows "node_op i n w n (sn_start sim_runtime n w)"
proof -
  have "tm_addr (sn_tcp n) = int i" using assms by (simp add: node_wf_def)
  from sim_keeper.keeps_start[OF assms(2) this] sim_timekeeper.keeps_start[OF assms(2) this] show ?thesis
    using assms by (simp add: keeps_defs)
qed

lemma sim_wf_print [simp]: "sim_wf (sim_print x s) = sim_wf s" "sim_nodes (sim_print x s) = sim_nodes s"
  "io_rt (sim_io (sim_print x s)) = io_rt (sim_io s)"
  by (simp_all add: sim_print_def sim_wf_def)

lemma fold_print [simp]: "sim_wf (fold (\<lambda>l. sim_print (Cerr l)) ls s) = sim_wf s"
  by (induction ls arbitrary: s) simp_all

lemma sim_wf_set_topo: "sim_wf s \<Longrightarrow> topo_wf t \<Longrightarrow> sim_wf (sim_set_topo t s)"
  by (simp add: sim_wf_def sim_set_topo_def sim_upd_def sim_rt_ok_def)

lemma sim_topo_set [simp]: "sim_topo (sim_set_topo t s) = t"
  by (simp add: sim_set_topo_def sim_upd_def)

lemma sim_clock_simps [simp]:
  "sim_clock (sim_upd f s) = sr_nowMicros (f (io_rt (sim_io s)))"
  "sim_clock (sim_set_topo t s) = sim_clock s"
  by (simp_all add: sim_upd_def sim_set_topo_def)

lemma sim_clock_fold_print [simp]: "sim_clock (fold (\<lambda>l. sim_print (Cerr l)) ls s) = sim_clock s"
  by (induction ls arbitrary: s) simp_all

lemma sim_wf_topo: "sim_wf s \<Longrightarrow> topo_wf (sim_topo s)"
  by (simp add: sim_wf_def sim_rt_ok_def)

lemma sim_wf_node: "sim_wf s \<Longrightarrow> i < length (sim_nodes s) \<Longrightarrow> node_wf (sim_nodes s ! i) \<and> sn_addr (sim_nodes s ! i) = int i"
  by (simp add: sim_wf_def)

lemma sim_wf_sendNodeMsg:
  assumes "sim_wf s"
  shows "sim_wf (snd (sim_sendNodeMsg a msg s)) \<and> same_topo (sim_topo s) (sim_topo (snd (sim_sendNodeMsg a msg s))) \<and>
    sim_clock (snd (sim_sendNodeMsg a msg s)) = sim_clock s"
proof (cases "isNodeAddrValid a s")
  case True
  then have i: "nat a < length (sim_nodes s)" by (auto simp: isNodeAddrValid_def)
  show ?thesis
    using sim_wf_node_op[OF assms i node_op_command] sim_wf_node[OF assms i] True
    by (simp add: sim_sendNodeMsg_def sim_at_node_def split_beta)
qed (simp add: sim_sendNodeMsg_def assms same_topo_refl sim_wf_topo)

lemma sim_wf_deliverPkt:
  assumes "sim_wf s" "sim_room s"
  shows "sim_wf (deliverPkt from to pkt s) \<and> sim_clock (deliverPkt from to pkt s) = sim_clock s"
proof (cases "isNodeAddrValid to s")
  case True
  then have i: "nat to < length (sim_nodes s)" by (auto simp: isNodeAddrValid_def)
  then have "node_room (sim_nodes s ! nat to)" using assms(2) by (simp add: sim_room_def list_all_length)
  then show ?thesis
    using sim_wf_node_op[OF assms(1) i node_op_receive] sim_wf_node[OF assms(1) i] True
    by (simp add: deliverPkt_def sim_at_node_def split_beta)
qed (simp add: deliverPkt_def assms)

section \<open>The parser's interfaces\<close>

interpretation sim_cmd: topology_hooks sim_ops sim_topo "\<lambda>s. topo_wf (sim_topo s)"
  by unfold_locales
     (auto simp: sim_ops_def same_topo_refl newEdge_spec(1) changeEdge_spec(1) failEdge_def restartEdge_def split_beta)

interpretation sim_parser: parser_keeps sim_ops "\<lambda>s. sim_wf s \<and> sim_clock s = t" for t
proof unfold_locales
  fix s cmd
  assume wf: "sim_wf s \<and> sim_clock s = t"
  show "sim_wf (snd (po_exitCmd sim_ops cmd s)) \<and> sim_clock (snd (po_exitCmd sim_ops cmd s)) = t"
    using wf by (simp add: sim_ops_def sim_exitCmd_def)
  show "sim_wf (po_parseNodeCmd sim_ops cmd s) \<and> sim_clock (po_parseNodeCmd sim_ops cmd s) = t"
  proof (cases "stoi (cmd ! 0)")
    case (Inr a)
    then show ?thesis using wf sim_wf_sendNodeMsg[of s a "join_words (tl cmd)"]
      by (cases "sim_sendNodeMsg a (join_words (tl cmd)) s") (simp add: sim_ops_def sim_parseNodeCmd_def split: bool.split)
  qed (simp add: sim_ops_def sim_parseNodeCmd_def wf)
qed (auto simp: sim_ops_def sim_wf_set_topo newEdge_spec changeEdge_spec failEdge_def restartEdge_def sim_wf_topo split_beta)

section \<open>Every step keeps the invariant\<close>

lemma sim_wf_frame [simp]:
  "sim_wf (s\<lparr>sim_topoReader := rd\<rparr>) = sim_wf s" "sim_wf (s\<lparr>sim_defer := d\<rparr>) = sim_wf s"
  "sim_wf (sim_upd (\<lambda>m. m\<lparr>sr_nowMicros := f m\<rparr>) s) = sim_wf s"
  "sim_wf (sim_upd (\<lambda>m. m\<lparr>sr_fault := b\<rparr>) s) = sim_wf s"
  by (simp_all add: sim_wf_def sim_upd_def sim_rt_ok_def)

lemma queue_ok_file [simp]: "queue_ok n tk (b\<lparr>rb_commandFile := f\<rparr>) = queue_ok n tk b"
  by (simp add: queue_ok_def base_wf_def)

lemma sim_wf_file [simp]: "sim_wf (sim_upd (\<lambda>m. m\<lparr>sr_base := (sr_base m)\<lparr>rb_commandFile := f\<rparr>\<rparr>) s) = sim_wf s"
  by (simp add: sim_wf_def sim_upd_def sim_rt_ok_def)

lemma sim_wf_parseLine:
  "sim_wf s \<Longrightarrow> sim_wf (snd (sim_parseLine line now s)) \<and> sim_clock (snd (sim_parseLine line now s)) = sim_clock s"
  unfolding sim_parseLine_def by (rule sim_parser.parseLine_keeps) simp

lemma sim_wf_schedule:
  "sim_wf s \<Longrightarrow> sim_wf (sim_upd (\<lambda>m. m\<lparr>sr_base := addEventAtMicros t (Some CbParseRestOfTopoFile) (sr_base m)\<rparr>) s)"
  by (simp add: sim_wf_def sim_upd_def sim_rt_ok_def queue_ok_ops(2))

lemma sim_wf_parseRest:
  "sim_wf s \<Longrightarrow> sim_wf (snd (parseRestOfTopoFile s)) \<and> sim_clock (snd (parseRestOfTopoFile s)) = sim_clock s"
  using sim_parser.parseRemainder_keeps[of s "sim_clock s" "sim_clock s" "sim_topoReader s"]
  by (auto simp: parseRestOfTopoFile_def sim_parseLine_def Let_def sim_wf_schedule split: prod.split option.split)

lemma sim_wf_readCommandFile:
  "sim_wf s \<Longrightarrow> sim_wf (snd (sim_readCommandFile s)) \<and> sim_clock (snd (sim_readCommandFile s)) = sim_clock s"
  unfolding sim_readCommandFile_def sim_parseLine_def by (rule sim_parser.readCommandFile_keeps) simp_all

lemma sim_wf_iterate:
  assumes "sim_wf s"
  shows "sim_wf (snd (sim_iterate input s))"
proof -
  obtain r s1 where r: "sim_readCommandFile s = (r, s1)" by fastforce
  have s1: "sim_wf s1" using sim_wf_readCommandFile[OF assms] by (simp add: r)
  have "sim_wf (snd (sim_parseLine l t (sim_upd (\<lambda>m. m\<lparr>sr_nowMicros := f m\<rparr>) (s1\<lparr>sim_defer := d\<rparr>))))" for l t f d
    using s1 sim_wf_parseLine by simp
  with s1 show ?thesis
    by (auto simp: sim_iterate_def r Let_def split_beta split: option.split)
qed

lemma callback_ok_event: "event_ok (length ns) (task_count ns) (CbTaskTick a idx) \<Longrightarrow> callback_ok (ns ! nat a) (CbTaskTick a idx)"
  by (auto simp: task_count_def split: if_splits)

lemma sim_wf_callback:
  assumes wf: "sim_wf s" "sim_room s" and ev: "event_ok (length (sim_nodes s)) (task_count (sim_nodes s)) cb"
  shows "sim_wf (snd (sim_callback cb s)) \<and> sim_clock (snd (sim_callback cb s)) = sim_clock s"
proof -
  let ?P = "\<lambda>c. sim_wf (snd c) \<and> sim_clock (snd c) = sim_clock s"
  have at: "?P (case sn_callback sim_runtime cb (sim_nodes s ! nat a) (sim_io s) of
      (r, n, w) \<Rightarrow> let s1 = s\<lparr>sim_nodes := (sim_nodes s)[nat a := n], sim_io := w\<rparr>
        in (case r of Inr _ \<Rightarrow> (True, s1)
            | Inl (Fault _) \<Rightarrow> (True, sim_upd (\<lambda>m. m\<lparr>sr_fault := True\<rparr>) s1)
            | Inl e \<Rightarrow> (True, sim_print (Cerr (''Simulator: callback threw: '' @ what e)) s1)))"
    if a: "0 \<le> a" "a < int (length (sim_nodes s))" "callback_ok (sim_nodes s ! nat a) cb" for a
  proof -
    obtain r n w where c: "sn_callback sim_runtime cb (sim_nodes s ! nat a) (sim_io s) = (r, n, w)" by (metis prod_cases3)
    have i: "nat a < length (sim_nodes s)" using a by auto
    have "node_room (sim_nodes s ! nat a)" using wf(2) i by (simp add: sim_room_def list_all_length)
    then have "node_op (nat a) (sim_nodes s ! nat a) (sim_io s) n w"
      using node_op_callback[OF _ _ _ a(3) c] sim_wf_node[OF wf(1) i] by simp
    then have "sim_wf (s\<lparr>sim_nodes := (sim_nodes s)[nat a := n], sim_io := w\<rparr>) \<and> sr_nowMicros (io_rt w) = sim_clock s"
      using sim_wf_node_op[OF wf(1) i] by blast
    then show ?thesis by (auto simp: c Let_def split: sum.split exn.split)
  qed
  show ?thesis
  proof (cases cb)
    case (CbTaskTick a idx)
    then show ?thesis using at[of a] ev callback_ok_event[of "sim_nodes s" a idx] by (simp add: sim_callback_def Let_def)
  qed (use at ev wf in \<open>simp_all add: sim_callback_def Let_def sim_wf_deliverPkt sim_wf_parseRest\<close>)
qed


lemma removeNextEvent_Some: "removeNextEvent q = Some (e, q') \<Longrightarrow> q = e # q'"
  by (cases q) (auto simp: removeNextEvent_def)

lemma queue_ok_pop:
  "queue_ok n tk b \<Longrightarrow> rb_events b = e # q \<Longrightarrow> queue_ok n tk (b\<lparr>rb_events := q\<rparr>) \<and> event_ok n tk (the (callback e)) \<and> callback e \<noteq> None"
  by (auto simp: queue_ok_def base_wf_def time_sorted_def)

lemma sim_wf_fire:
  assumes wf: "sim_wf s" "sim_room s"
  shows "sim_wf (snd (sim_fire s)) \<and> sim_clock (snd (sim_fire s)) = sim_clock s"
proof (cases "removeNextEvent (rb_events (sr_base (io_rt (sim_io s))))")
  case (Some p)
  obtain e q where p: "p = (e, q)" by fastforce
  let ?s = "sim_upd (\<lambda>m. m\<lparr>sr_base := (sr_base m)\<lparr>rb_events := q\<rparr>\<rparr>) s"
  have q: "rb_events (sr_base (io_rt (sim_io s))) = e # q" using removeNextEvent_Some Some p by simp
  have ns: "sim_nodes ?s = sim_nodes s" by (simp add: sim_upd_def)
  have ok: "queue_ok (length (sim_nodes s)) (task_count (sim_nodes s)) (sr_base (io_rt (sim_io s)))"
    using wf(1) by (simp add: sim_wf_def sim_rt_ok_def)
  note pop = queue_ok_pop[OF ok q]
  have "sim_wf ?s" "sim_room ?s"
    using wf pop by (simp_all add: sim_wf_def sim_upd_def sim_rt_ok_def sim_room_def)
  moreover obtain cb where "callback e = Some cb" using pop by auto
  ultimately have "sim_wf (snd (sim_callback cb ?s)) \<and> sim_clock (snd (sim_callback cb ?s)) = sim_clock s" "callback e = Some cb"
    using pop sim_wf_callback[of ?s cb] ns by simp_all
  then show ?thesis using wf(1)
    by (auto simp: sim_fire_def Some p Let_def split: prod.split bool.split if_splits)
qed (simp add: sim_fire_def wf)

lemma sim_wf_init: "0 < numNodes \<Longrightarrow> sim_wf (sim_init numNodes seeds)"
  using base_wf_ops(5)[of 0] node_wf_ctor
  by (auto simp: sim_wf_def sim_init_def sim_rt_ok_def queue_ok_def topology_ctor_def topo_wf_def)
     (auto simp: stack_node_ctor_def rt_base_ctor_def)

lemma sim_wf_ctor:
  assumes "sim_ctor numNodes topoFile seeds = Inr (b, s)"
  shows "sim_wf s"
proof -
  have pos: "0 < numNodes" using assms by (auto simp: sim_ctor_def split: if_splits)
  then have "sim_wf (snd (parseRestOfTopoFile (sim_init numNodes seeds\<lparr>sim_topoReader := rd\<rparr>)))" for rd
    using sim_wf_parseRest by (simp add: sim_wf_init)
  moreover have "s = sim_init numNodes seeds \<or> (\<exists>rd. s = snd (parseRestOfTopoFile (sim_init numNodes seeds\<lparr>sim_topoReader := rd\<rparr>)))"
    using assms by (auto simp: sim_ctor_def Let_def split: if_splits option.splits) (metis snd_conv)
  ultimately show ?thesis using sim_wf_init[OF pos] by metis
qed

lemma sim_wf_start_nodes:
  assumes "sim_wf s" "k \<le> length (sim_nodes s)"
  shows "sim_wf (s\<lparr>sim_io := start_nodes (drop k (sim_nodes s)) (sim_io s)\<rparr>)"
  using assms
proof (induction "length (sim_nodes s) - k" arbitrary: k s)
  case (Suc d)
  let ?n = "sim_nodes s ! k"
  let ?s = "s\<lparr>sim_io := sn_start sim_runtime ?n (sim_io s)\<rparr>"
  have k: "k < length (sim_nodes s)" using Suc.hyps(2) by simp
  have same: "s\<lparr>sim_nodes := (sim_nodes s)[k := ?n], sim_io := w\<rparr> = s\<lparr>sim_io := w\<rparr>" for w by simp
  have "sim_wf ?s"
    using sim_wf_node_op[OF Suc.prems(1) k node_op_start] sim_wf_node[OF Suc.prems(1) k] unfolding same by blast
  then have "sim_wf (?s\<lparr>sim_io := start_nodes (drop (Suc k) (sim_nodes ?s)) (sim_io ?s)\<rparr>)"
    using Suc.hyps(2) k by (intro Suc.hyps(1)) simp_all
  then show ?case using k by (simp flip: Cons_nth_drop_Suc)
qed simp

lemma sim_wf_start: "sim_wf s \<Longrightarrow> sim_wf (sim_start s)"
  using sim_wf_start_nodes[of s 0] by (simp add: sim_start_def)

lemma sim_wf_setCommandFile: "sim_wf s \<Longrightarrow> sim_wf (sim_setCommandFile f s)"
  by (cases f) (simp_all add: sim_setCommandFile_def setCommandFile_def sim_upd_def sim_wf_def sim_rt_ok_def)

lemma sim_wf_setTimescale [simp]: "sim_wf (sim_setTimescale x s) = sim_wf s"
  by (simp add: sim_setTimescale_def sim_wf_def)

inductive sim_reachable :: "sim_phase \<times> simulator \<Rightarrow> bool" where
  start: "sim_ctor numNodes topoFile seeds = Inr (True, s) \<Longrightarrow>
     sim_reachable (Top, sim_start (sim_setTimescale ts (sim_setCommandFile f s)))"
| step: "sim_reachable c \<Longrightarrow> sim_room (snd c) \<Longrightarrow> sim_step c c' \<Longrightarrow> sim_reachable c'"

lemma reachable_sim_wf: "sim_reachable c \<Longrightarrow> sim_wf (snd c)"
proof (induction rule: sim_reachable.induct)
  case (start numNodes topoFile seeds s ts f)
  then show ?case using sim_wf_ctor by (simp add: sim_wf_start sim_wf_setCommandFile)
next
  case (step c c')
  from step.hyps(3) show ?case
    by cases (use step in \<open>simp_all add: sim_wf_iterate sim_wf_fire\<close>)
qed




section \<open>The main loop's time\<close>

abbreviation sim_events :: "simulator \<Rightarrow> callback event_queue" where
  "sim_events s \<equiv> rb_events (sr_base (io_rt (sim_io s)))"

lemma sim_fire_cases:
  assumes wf: "sim_wf s" and r: "sim_fire s = (p, s')"
  obtains (idle) "p = Top" "s' = s" "\<forall>e \<in> set (sim_events s). sim_clock s < timeToOccur e"
  | (fired) e q where "sim_events s = e # q" "timeToOccur e \<le> sim_clock s" "p \<noteq> Top"
proof (cases "sim_events s")
  case Nil
  then show thesis using idle r by (simp add: sim_fire_def removeNextEvent_def Let_def)
next
  case (Cons e q)
  have sorted: "sorted (map timeToOccur (e # q))"
    using wf Cons by (simp add: sim_wf_def sim_rt_ok_def queue_ok_def base_wf_def time_sorted_def)
  show thesis
  proof (cases "timeToOccur e \<le> sim_clock s")
    case True
    then show thesis using fired[OF Cons] r Cons
      by (auto simp: sim_fire_def removeNextEvent_def Let_def split: option.splits prod.splits bool.splits if_splits)
  next
    case False
    then have "\<forall>x \<in> set (sim_events s). sim_clock s < timeToOccur x" using sorted Cons by fastforce
    then show thesis using False idle r Cons by (simp add: sim_fire_def removeNextEvent_def Let_def)
  qed
qed

lemma sim_delta_next:
  assumes "sim_events s = e # q" "in_i64 (timeToOccur e)" "in_i64 (sim_clock s)" "sim_clock s \<le> timeToOccur e" "0 \<le> sim_clock s"
  shows "i64 (sim_clock s + sim_delta d (io_rt (sim_io s))) = timeToOccur e"
proof -
  have "in_i64 (timeToOccur e - sim_clock s)" using assms by (auto simp: in_i64_def)
  then show ?thesis using assms by (simp add: sim_delta_def getNextEvent_def i64_id)
qed


lemma sim_iterate_None:
  assumes wf: "sim_wf s" and r: "sim_iterate None s = (p, s')"
  obtains (ended) "p = Ended" "sim_clock s' = sim_clock s"
  | (drain) d m where "p = Drain" "sr_nowMicros m = sim_clock s" "sim_events s' = rb_events (sr_base m)"
      "sim_clock s' = max (sim_clock s) (i64 (sim_clock s + sim_delta d m))"
proof -
  obtain q s1 where q: "sim_readCommandFile s = (q, s1)" by fastforce
  have c: "sim_clock s1 = sim_clock s" using sim_wf_readCommandFile[OF wf] q by simp
  show thesis
  proof (cases "q = None \<or> sr_fault (io_rt (sim_io s1))")
    case True
    then show thesis using ended r c by (auto simp: sim_iterate_def q Let_def split: option.splits)
  next
    case False
    then obtain d where "q = Some d" by auto
    then show thesis using drain[of "io_rt (sim_io s1)" d] r c False by (auto simp: sim_iterate_def q Let_def sim_upd_def)
  qed
qed

section \<open>Sending\<close>

lemma sim_send_on_edge:
  assumes p: "packet_ok p" "pk_ttl p > 0" and v: "validAddress from" "validAddress to" "to \<noteq> BROADCAST_ADDRESS"
    and g: "getLiveEdge from to (sr_topo m) = (Some i, t)"
    and ok: "edge_ok from (edges t ! i)" "0 \<le> sr_nowMicros m" "sr_nowMicros m < 2 ^ 60"
    and r: "sim_sendPkt from to (packet_pack p) m = (r, m')"
  defines "opt \<equiv> e_options (edges t ! i)" and "n \<equiv> int (length (packet_pack p))"
    and "st \<equiv> rb_stats (snd (base_sendPkt from to (packet_pack p) (sr_base m)))"
  shows "r = Inr True \<and>
    (rb_events (sr_base m') = rb_events (sr_base m) \<and> rb_stats (sr_base m') \<in> {packetDropped st, packetLost st} \<or>
     rb_stats (sr_base m') = st \<and>
     (\<exists>arr. rb_events (sr_base m') = addEvent \<lparr>timeToOccur = arr, callback = Some (CbDeliverPkt from to (packet_pack p))\<rparr>
             (rb_events (sr_base m)) \<and>
        sr_nowMicros m + tx_time n opt + delayMs opt * 1000 \<le> arr \<and>
        arr \<le> sr_nowMicros m + (bufferingMs opt + delayMs opt) * 1000))"
proof -
  let ?b = "snd (base_sendPkt from to (packet_pack p) (sr_base m))"
  note b = base_sendPkt_packed[OF p v(1,2), of "sr_base m"]
  have n: "0 \<le> n" "n \<le> 128" using length_packet_pack_ok[OF p(1)] by (simp_all add: n_def cxx_const)
  have opt: "options_ok opt" and tx: "0 \<le> tx_time n opt"
    using ok(1) edge.tx_time_nonneg[OF ok(1) n(1)] by (simp_all add: edge_ok_def opt_def)
  have snd: "sim_sendPkt from to (packet_pack p) m = sim_transmit i from to (packet_pack p) (m\<lparr>sr_base := ?b, sr_topo := t\<rparr>)"
    using b g v(3) by (simp add: sim_sendPkt_def)
  have ev: "rb_events ?b = rb_events (sr_base m)" by (simp add: b)
  have busy: "0 \<le> edge_sendTime (edges t ! i) from" using ok(1) by (simp add: edge_ok_def)
  obtain q e' st' where q: "edge_schedulePkt (edges t ! i) from n (sr_nowMicros m) (rb_stats ?b) = (q, e', st')"
    by (metis prod_cases3)
  then consider (gone) "q = Inr (- 1)" "st' = packetDropped st \<or> st' = packetLost st"
    | (through) arr where "q = Inr arr" "st' = st" "arr \<noteq> - 1" "0 \<le> arr"
        "sr_nowMicros m + tx_time n opt + delayMs opt * 1000 \<le> arr"
        "arr \<le> sr_nowMicros m + (bufferingMs opt + delayMs opt) * 1000"
    using opt tx busy ok(2) unfolding edge_schedulePkt_exact[OF ok(1) n ok(2,3)] options_ok_def
    by (auto simp: st_def opt_def algebra_simps split: if_splits)
  then show ?thesis
  proof cases
    case gone
    then show ?thesis using r snd q ev by (auto simp: sim_transmit_def n_def Let_def)
  next
    case (through arr)
    then show ?thesis using r snd q ev by (auto simp: sim_transmit_def n_def Let_def addEventAtMicros_def)
  qed
qed

end
