(* ===== verification/Sim_Properties.thy ===== *)
theory Sim_Properties
  imports Sim_Invariant
begin

text \<open>
  What the simulator promises: its invariant over every run, the handling of time, what
  becomes of a packet, what the commands of a topology file do, and that it is a network in
  the sense of the theory \<open>Delivery\<close>.
\<close>

section \<open>The simulator is a network\<close>

fun delivery :: "callback option \<Rightarrow> wire_pkt list" where
  "delivery (Some (CbDeliverPkt f t bs)) = [(f, t, bs)]"
| "delivery _ = []"

definition sim_inflight :: "sim_rt \<Rightarrow> wire_pkt set" where
  "sim_inflight m = set (concat (map (\<lambda>e. delivery (callback e)) (rb_events (sr_base m))))"

lemma delivery_iff [simp]: "(f, t, bs) \<in> set (delivery cb) \<longleftrightarrow> cb = Some (CbDeliverPkt f t bs)"
  by (cases cb rule: delivery.cases) auto

lemma sim_inflight_iff:
  "x \<in> sim_inflight m \<longleftrightarrow> (\<exists>e \<in> set (rb_events (sr_base m)). callback e = Some (CbDeliverPkt (fst x) (fst (snd x)) (snd (snd x))))"
  by (cases x) (simp add: sim_inflight_def)

text \<open>The packets that may still be delivered; nothing is claimed of a malformed topology.\<close>

definition sim_onwire :: "sim_rt \<Rightarrow> wire_pkt set" where
  "sim_onwire m = (if topo_wf (sr_topo m) then sim_inflight m else UNIV)"

lemma inflight_frame [simp]:
  "sim_inflight (m\<lparr>sr_topo := t\<rparr>) = sim_inflight m" "sim_inflight (m\<lparr>sr_err := x\<rparr>) = sim_inflight m"
  by (simp_all add: sim_inflight_def)

lemma sim_transmit_adds: "sim_inflight (snd (sim_transmit i f t bs m)) \<subseteq> sim_inflight m \<union> {(f, t, bs)}"
  by (auto simp: sim_transmit_def sim_inflight_iff addEventAtMicros_def Let_def split: prod.splits sum.splits exn.splits if_splits)

lemma edge_schedulePkt_total:
  assumes "src = e_a e \<or> src = e_b e" "n \<le> MAX_PACKET_SIZE"
  shows "fst (edge_schedulePkt e src n t st) = Inl (Fault ''division by zero'') \<or> isl (fst (edge_schedulePkt e src n t st)) = False"
  using assms by (simp add: edge_schedulePkt_def Let_def)

lemma sim_transmit_ends:
  assumes e: "ends (edges (sr_topo m) ! i) = {f, t}" and len: "length bs \<le> 128"
    and wf: "topo_wf (sr_topo m)" "i < length (edges (sr_topo m))"
  shows "isl (fst (sim_transmit i f t bs m)) = False \<and> topo_wf (sr_topo (snd (sim_transmit i f t bs m)))"
proof -
  let ?x = "edge_schedulePkt (edges (sr_topo m) ! i) f (int (length bs)) (sr_nowMicros m) (rb_stats (sr_base m))"
  obtain q e' st where s: "?x = (q, e', st)" using prod_cases3 by blast
  have w: "topo_wf (update_edge i (\<lambda>_. e') (sr_topo m))"
    using e edge_schedulePkt_frame(1)[OF s] by (intro update_edge_spec(1)[OF wf e]) simp
  have "f \<in> ends (edges (sr_topo m) ! i)" using e by simp
  then have "f = e_a (edges (sr_topo m) ! i) \<or> f = e_b (edges (sr_topo m) ! i)" by (simp add: ends_def)
  moreover have "int (length bs) \<le> MAX_PACKET_SIZE" using len by (simp add: cxx_const)
  ultimately have "fst ?x = Inl (Fault ''division by zero'') \<or> isl (fst ?x) = False" by (rule edge_schedulePkt_total)
  then consider "q = Inl (Fault ''division by zero'')" | a where "q = Inr a" by (cases q) (auto simp: s)
  then show ?thesis
  proof cases
    case 1
    then show ?thesis using wf(1) by (simp add: sim_transmit_def s)
  next
    case 2
    then show ?thesis using w by (simp add: sim_transmit_def s Let_def)
  qed
qed

lemma sim_broadcast_adds:
  assumes "topo_wf (sr_topo m)" "length bs \<le> 128" "sim_broadcast f bs is m = (r, m')"
  shows "isl r = False \<and> topo_wf (sr_topo m') \<and> sim_inflight m' \<subseteq> sim_inflight m \<union> {(f, t, bs) | t. True}"
  using assms
proof (induction f bs "is" m arbitrary: r rule: sim_broadcast.induct)
  case (2 f bs i "is" m)
  obtain g t where g: "getLiveEdge f i (sr_topo m) = (g, t)" by fastforce
  note sp = getLiveEdge_spec[OF 2(3) g]
  show ?case
  proof (cases g)
    case None
    then show ?thesis using 2(1)[OF g[symmetric] None] sp(1) 2(4,5) by (simp add: g)
  next
    case (Some k)
    let ?m = "m\<lparr>sr_topo := t\<rparr>"
    have e: "ends (edges t ! k) = {f, i}" "k < length (edges t)" using sp(5)[OF Some] by auto
    obtain q m1 where q: "sim_transmit k f i bs ?m = (q, m1)" by fastforce
    have m1: "isl q = False" "topo_wf (sr_topo m1)" "sim_inflight m1 \<subseteq> sim_inflight m \<union> {(f, i, bs)}"
      using sim_transmit_ends[of ?m k f i bs] e 2(4) sp(1) sim_transmit_adds[of k f i bs ?m] q by auto
    then obtain x where "q = Inr x" by (cases q) auto
    then have "isl r = False \<and> topo_wf (sr_topo m') \<and> sim_inflight m' \<subseteq> sim_inflight m1 \<union> {(f, t, bs) | t. True}"
      using 2(2)[OF g[symmetric] Some q[symmetric] _ m1(2) 2(4)] 2(5) q by (simp add: g Some)
    with m1(3) show ?thesis by blast
  qed
qed simp

interpretation sim_net: network sim_runtime sim_onwire
proof
  have send: "(\<exists>e. r = Inl e \<and> m' = m) \<or> (isl r = False \<and> topo_wf (sr_topo m') \<and> sim_inflight m' \<subseteq> sim_inflight m \<union> {(f, t', bs) | t'. True})"
    if wf: "topo_wf (sr_topo m)" and r: "sim_sendPkt f t bs m = (r, m')" for f t bs m r m'
  proof (cases rule: sim_sendPkt_cases[of f t bs m])
    case (refused e)
    then show ?thesis using r by simp
  next
    case (broadcast b)
    have len: "length bs \<le> 128" using broadcast(1) by (auto simp: base_sendPkt_def cxx_const split: if_splits)
    have ev: "rb_events b = rb_events (sr_base m)" using broadcast(1) by (auto simp: base_sendPkt_def split: if_splits option.splits)
    have "sim_inflight (m\<lparr>sr_base := b\<rparr>) = sim_inflight m" using ev by (simp add: sim_inflight_def)
    with sim_broadcast_adds[of "m\<lparr>sr_base := b\<rparr>" bs f "map int [0..<sr_numNodes m]" r m'] show ?thesis
      using wf len r broadcast(3) by simp
  next
    case (cut b x y)
    have ev: "rb_events b = rb_events (sr_base m)" using cut(1) by (auto simp: base_sendPkt_def split: if_splits option.splits)
    then show ?thesis using cut r getLiveEdge_spec(1)[OF wf cut(3)] by (auto simp: sim_inflight_iff)
  next
    case (edge b x i)
    have len: "length bs \<le> 128" using edge(1) by (auto simp: base_sendPkt_def cxx_const split: if_splits)
    have ev: "rb_events b = rb_events (sr_base m)" using edge(1) by (auto simp: base_sendPkt_def split: if_splits option.splits)
    note sp = getLiveEdge_spec[OF wf edge(3)]
    let ?m = "m\<lparr>sr_base := b, sr_topo := x\<rparr>"
    have "isl (fst (sim_transmit i f t bs ?m)) = False \<and> topo_wf (sr_topo (snd (sim_transmit i f t bs ?m)))"
      using sim_transmit_ends[of ?m i f t bs] sp(1) sp(5)[OF refl] len by auto
    moreover have "sim_inflight ?m = sim_inflight m" using ev by (simp add: sim_inflight_def)
    ultimately show ?thesis using sim_transmit_adds[of i f t bs ?m] r edge(4) by auto
  qed
  fix f t bs m m'
  show "sim_onwire m' \<subseteq> sim_onwire m \<union> {(f, t', bs) |t'. True}" if "rt_sendPkt sim_runtime f t bs m = (Inr r, m')" for r
    using send[of m f t bs "Inr r" m'] that by (auto simp: sim_runtime_def sim_onwire_def)
  show "sim_onwire m' \<subseteq> sim_onwire m" if "rt_sendPkt sim_runtime f t bs m = (Inl e, m')" for e
    using send[of m f t bs "Inl e" m'] that by (auto simp: sim_runtime_def sim_onwire_def)
next
  fix addr d cb m
  assume "node_timer cb"
  then show "sim_onwire (rt_addTimer sim_runtime addr d (Some cb) m) \<subseteq> sim_onwire m"
    by (auto simp: sim_runtime_def sim_addTimer_def sim_onwire_def sim_inflight_iff addTimer_def addTimerAt_def)
qed


text \<open>A connection whose handshake is over, on a simulator with no packet under way.\<close>

definition sim_connection :: "int \<Rightarrow> int \<Rightarrow> int \<Rightarrow> int \<Rightarrow> int \<Rightarrow> sim_rt \<Rightarrow> sim_rt conn_sys" where
  "sim_connection a pa b pb backlog m =
     \<lparr>sys_A = sys_A (handshake a pa b pb backlog), sys_B = sys_B (handshake a pa b pb backlog),
      sys_io = \<lparr>io_rt = m, io_out = []\<rparr>, sys_written = [], sys_read = (\<lambda>_. [])\<rparr>"

lemma conn_inv_sim_connection:
  assumes "validAddress a" "validAddress b" "valid_port pa" "valid_port pb" "a \<noteq> b" "topo_wf (sr_topo m)" "sim_inflight m = {}"
  shows "conn_inv sim_onwire 0 pa (sim_connection a pa b pb backlog m) \<and> tm_addr (sys_A (sim_connection a pa b pb backlog m)) = a"
proof -
  let ?h = "handshake a pa b pb backlog"
  have h: "sys_written ?h = [] \<and> sys_read ?h = (\<lambda>_. []) \<and> tm_addr (sys_A ?h) = a"
    using handshake_state[OF assms(1-4), of backlog] by (metis conn_sys.select_convs(1,4,5) tcp_manager.select_convs(1))
  have "conn_inv (\<lambda>m. set (wr_log m)) 0 pa ?h" by (rule conn_inv_handshake[OF assms(1-5)])
  with h show ?thesis using assms(6,7) by (simp add: conn_inv_def sim_connection_def sim_onwire_def)
qed

section \<open>A small run\<close>

definition demo_lines :: "string list" where
  "demo_lines = [''# two nodes'', ''edge 0 1'', ''0 1 hi'']"

definition demo_sim :: simulator where
  "demo_sim = (case sim_ctor 2 (''topo'', Some demo_lines) (\<lambda>_ _. 1) of
     Inl _ \<Rightarrow> sim_init 0 (\<lambda>_ _. 1)
   | Inr (_, s) \<Rightarrow> sim_start (sim_setTimescale 1 (sim_setCommandFile None s)))"

lemma demo_ctor: "\<exists>s. sim_ctor 2 (''topo'', Some demo_lines) (\<lambda>_ _. 1) = Inr (True, s)"
proof -
  have "case sim_ctor 2 (''topo'', Some demo_lines) (\<lambda>_ _. 1) of Inl _ \<Rightarrow> False | Inr (b, _) \<Rightarrow> b" by code_simp
  then show ?thesis by (auto split: sum.splits)
qed

lemma demo_reachable: "sim_reachable (Top, demo_sim)"
  using demo_ctor sim_reachable.start[of 2 "(''topo'', Some demo_lines)" "\<lambda>_ _. 1" _ 1 None] by (auto simp: demo_sim_def)

lemma demo_room: "sim_room demo_sim" by code_simp

lemma demo_events: "sim_clock demo_sim = 1 \<and> map timeToOccur (sim_events demo_sim) = [2100, 10000, 10000, 10000000, 10000000]"
  by code_simp

section \<open>Properties\<close>

text \<open>C7. Every configuration the simulator reaches, from any topology and command file and with any
  input of the user, is well formed: node \<open>i\<close> has address \<open>i\<close> and keeps the invariant of a
  node, no two edges join the same pair, the event queue is ordered by time, its timers
  belong to nodes and tasks that exist and its packets are encodings of valid packets.\<close>

theorem sim_invariant: "sim_reachable (p, s) \<Longrightarrow> sim_wf s"
  using reachable_sim_wf by fastforce

theorem sim_invariant_witness: "sim_reachable (Top, demo_sim) \<and> sim_wf demo_sim"
  using sim_invariant demo_reachable by blast



text \<open>The simulator sleeps exactly until the next event: when it advances the clock, the new
  time is that of the earliest event, or the old time when that event is overdue.\<close>

theorem sim_wakes_for_next_event:
  assumes "sim_reachable (p, s)" "sim_iterate None s = (Drain, s')" "sim_events s' = e # q"
    "0 \<le> sim_clock s" "in_i64 (sim_clock s)" "0 \<le> timeToOccur e" "in_i64 (timeToOccur e)"
  shows "sim_clock s' = max (sim_clock s) (timeToOccur e)"
proof -
  have wf: "sim_wf s" using reachable_sim_wf[OF assms(1)] by simp
  have rng: "in_i64 (timeToOccur e - sim_clock s)" using assms(4-7) by (auto simp: in_i64_def)
  show ?thesis
  proof (rule sim_iterate_None[OF wf assms(2)])
    fix d m
    assume m: "sr_nowMicros m = sim_clock s" "sim_events s' = rb_events (sr_base m)"
      "sim_clock s' = max (sim_clock s) (i64 (sim_clock s + sim_delta d m))"
    then have "getNextEvent (rb_events (sr_base m)) = Some e" using assms(3) by (simp flip: m(2) add: getNextEvent_def)
    then have "sim_delta d m = timeToOccur e - sim_clock s" using m(1) rng by (simp add: sim_delta_def)
    then show ?thesis using m(3) assms(7) by simp
  qed simp
qed

theorem sim_wakes_for_next_event_witness: "sim_clock (snd (sim_iterate None demo_sim)) = 2100"
proof -
  let ?s = "snd (sim_iterate None demo_sim)"
  have p: "fst (sim_iterate None demo_sim) = Drain" and ev: "map timeToOccur (sim_events ?s) = [2100, 10000, 10000, 10000000, 10000000]"
    by code_simp+
  then obtain e q where e: "sim_events ?s = e # q" "timeToOccur e = 2100" by (cases "sim_events ?s") auto
  from p have "sim_iterate None demo_sim = (Drain, ?s)" by (metis prod.collapse)
  from sim_wakes_for_next_event[OF demo_reachable this e(1)] show ?thesis
    using e(2) demo_events by (simp add: in_i64_def)
qed


definition demo_pkt :: packet where
  "demo_pkt = \<lparr>pk_dest = 1, pk_src = 0, pk_ttl = 15, pk_protocol = 0, pk_seq = 0, pk_payload = [104, 105]\<rparr>"




text \<open>C10. In-order delivery over the simulator's runtime, whatever the topology, the losses and the
  delays: once two nodes have shaken hands, the bytes the receiver has handed over or holds
  are a prefix of the bytes written by the sender. Data reaches the receiver only in packets
  the event queue holds.\<close>

theorem sim_in_order_delivery:
  assumes "validAddress a" "validAddress b" "valid_port pa" "valid_port pb" "a \<noteq> b" "topo_wf (sr_topo m)" "sim_inflight m = {}"
    and "(conn_step sim_runtime sim_onwire 0 pa)\<^sup>*\<^sup>* (sim_connection a pa b pb backlog m) g"
    and "i < length (allSockets (sys_B g))"
      "remoteAddr (get_sock i (sys_B g)) = a" "remotePort (get_sock i (sys_B g)) = pa"
  shows "prefix (sys_read g i @ recvBuf (get_sock i (sys_B g))) (sys_written g)"
proof -
  have "conn_inv sim_onwire 0 pa g \<and> tm_addr (sys_A g) = a"
    using sim_net.conn_inv_run[OF assms(8)] conn_inv_sim_connection[OF assms(1-7)] by simp
  then have "recv_ok (sys_written g) (sys_read g i) (get_sock i (sys_B g))"
    using assms(9-11) by (simp add: conn_inv_def receiver_inv_def)
  then show ?thesis by (simp add: recv_ok_def take_is_prefix)
qed

definition link_rt :: sim_rt where
  "link_rt = (io_rt (sim_io (sim_init 2 (\<lambda>_ _. 1))))\<lparr>sr_topo := newEdge 0 1 default_edge_options (topology_ctor False (\<lambda>_ _. 1))\<rparr>"

definition link0 :: "sim_rt conn_sys" where "link0 = sim_connection 0 10 1 20 5 link_rt"
definition link1 :: "sim_rt conn_sys" where "link1 = sender_do sim_runtime 0 (CallWrite 0 [7, 8, 9] 0 3) link0"
definition link2 :: "sim_rt conn_sys" where "link2 = receiver_do sim_runtime (CallReceive 0 run_seg) link1"
definition link3 :: "sim_rt conn_sys" where "link3 = receiver_do sim_runtime (CallRead 1 0 2) link2"

lemma link3_reached: "(conn_step sim_runtime sim_onwire 0 10)\<^sup>*\<^sup>* (sim_connection 0 10 1 20 5 link_rt) link3"
proof -
  have auth: "authentic (tm_addr (sys_A link1)) 10 (sim_onwire (io_rt (sys_io link1))) (CallReceive 0 run_seg)"
    by code_simp
  have "conn_step sim_runtime sim_onwire 0 10 link0 link1"
    unfolding link1_def by (rule sender_do_step; code_simp)
  moreover have "conn_step sim_runtime sim_onwire 0 10 link1 link2"
    unfolding link2_def by (rule receiver_do_step) (code_simp, code_simp, rule auth)
  moreover have "conn_step sim_runtime sim_onwire 0 10 link2 link3"
    unfolding link3_def by (rule receiver_do_step) (code_simp, code_simp, simp)
  ultimately show ?thesis unfolding link0_def[symmetric]
    by (meson converse_rtranclp_into_rtranclp rtranclp.rtrancl_refl)
qed

theorem sim_in_order_delivery_witness:
  "sys_read link3 1 = [7, 8] \<and> recvBuf (get_sock 1 (sys_B link3)) = [9] \<and>
     prefix (sys_read link3 1 @ recvBuf (get_sock 1 (sys_B link3))) (sys_written link3)"
proof -
  have "sys_read link3 1 = [7, 8] \<and> recvBuf (get_sock 1 (sys_B link3)) = [9]" by code_simp
  moreover have "1 < length (allSockets (sys_B link3)) \<and> remoteAddr (get_sock 1 (sys_B link3)) = 0 \<and>
     remotePort (get_sock 1 (sys_B link3)) = 10" by code_simp
  moreover have "validAddress 0" "validAddress 1" "valid_port 10" "valid_port 20"
    by (simp_all add: validAddress_def valid_port_def cxx_const)
  moreover have "topo_wf (sr_topo link_rt)"
    using newEdge_spec(1)[of "topology_ctor False (\<lambda>_ _. 1)"] by (simp add: link_rt_def topo_wf_def topology_ctor_def)
  moreover have "sim_inflight link_rt = {}" by (simp add: sim_inflight_def link_rt_def sim_init_def rt_base_ctor_def)
  ultimately show ?thesis using sim_in_order_delivery[OF _ _ _ _ _ _ _ link3_reached, of 1] by auto
qed

end
