(* ===== verification/Console.thy ===== *)
theory Console
  imports Sim_Properties
begin

text \<open>
  \<open>ConsoleIoThread\<close> (\<open>sim/console_io_thread.cpp\<close>): a thread reads lines from the standard input
  into a queue, the main loop of the simulator takes them out. Every access to the queue is
  under the mutex, so each critical section is one step and the steps of the two threads
  interleave freely. A call of \<open>waitForLine\<close> that has to wait gives \<open>None\<close> until its condition
  holds or its time is over.
\<close>

record console =
  ci_lines :: "string list"
  ci_stopping :: bool
  ci_started :: bool
  ci_running :: bool \<comment> \<open>the thread has not returned\<close>

definition console_ctor :: console where
  "console_ctor = \<lparr>ci_lines = [], ci_stopping = False, ci_started = False, ci_running = False\<rparr>"

definition console_start :: "console \<Rightarrow> console" where
  "console_start c = (if ci_started c then c else c\<lparr>ci_started := True, ci_running := True\<rparr>)"

definition console_stop :: "console \<Rightarrow> console" where
  "console_stop c = c\<lparr>ci_stopping := True\<rparr>"

definition pop_line :: "console \<Rightarrow> string option \<times> console" where
  "pop_line c = (case ci_lines c of [] \<Rightarrow> (None, c) | l # ls \<Rightarrow> (Some l, c\<lparr>ci_lines := ls\<rparr>))"

text \<open>\<open>expired\<close>: the time of the call is over.\<close>

definition waitForLine :: "int \<Rightarrow> bool \<Rightarrow> console \<Rightarrow> (string option \<times> console) option" where
  "waitForLine timeoutMs expired c =
     (let ready = (ci_lines c \<noteq> [] \<or> ci_stopping c)
      in if timeoutMs = 0 then Some (pop_line c)
         else if timeoutMs < 0 then if ready then Some (pop_line c) else None
         else if ready \<or> expired then Some (pop_line c) else None)"

definition tryRead :: "console \<Rightarrow> string option \<times> console" where
  "tryRead c = pop_line c"

definition console_empty :: "console \<Rightarrow> bool" where
  "console_empty c \<longleftrightarrow> ci_lines c = []"

text \<open>One round of the thread: what \<open>getline\<close> returned, \<open>None\<close> at the end of the input.\<close>

definition console_run :: "string option \<Rightarrow> console \<Rightarrow> console" where
  "console_run inp c =
     (case inp of
        Some line \<Rightarrow> if ci_stopping c then c\<lparr>ci_running := False\<rparr> else c\<lparr>ci_lines := ci_lines c @ [line]\<rparr>
      | None \<Rightarrow> c\<lparr>ci_stopping := True, ci_running := False\<rparr>)"

section \<open>The two threads\<close>

record con_sys =
  cs_console :: console
  cs_input :: "string list" \<comment> \<open>what the user has yet to type\<close>
  cs_taken :: "string list" \<comment> \<open>what the main loop got\<close>
  cs_stopped :: bool \<comment> \<open>\<open>stop\<close> was called\<close>

definition con_take :: "string option \<times> console \<Rightarrow> con_sys \<Rightarrow> con_sys" where
  "con_take r g = g\<lparr>cs_console := snd r, cs_taken := cs_taken g @ (case fst r of None \<Rightarrow> [] | Some l \<Rightarrow> [l])\<rparr>"

inductive con_step :: "con_sys \<Rightarrow> con_sys \<Rightarrow> bool" where
  start: "con_step g (g\<lparr>cs_console := console_start (cs_console g)\<rparr>)"
| line: "ci_running (cs_console g) \<Longrightarrow> cs_input g = l # ls \<Longrightarrow>
    con_step g (g\<lparr>cs_console := console_run (Some l) (cs_console g), cs_input := ls\<rparr>)"
| eof: "ci_running (cs_console g) \<Longrightarrow> cs_input g = [] \<Longrightarrow>
    con_step g (g\<lparr>cs_console := console_run None (cs_console g)\<rparr>)"
| wait: "waitForLine t expired (cs_console g) = Some r \<Longrightarrow> con_step g (con_take r g)"
| poll: "con_step g (con_take (tryRead (cs_console g)) g)"
| stop: "con_step g (g\<lparr>cs_console := console_stop (cs_console g), cs_stopped := True\<rparr>)"

definition con_init :: "string list \<Rightarrow> con_sys" where
  "con_init input = \<lparr>cs_console = console_ctor, cs_input = input, cs_taken = [], cs_stopped = False\<rparr>"

definition con_inv :: "string list \<Rightarrow> con_sys \<Rightarrow> bool" where
  "con_inv input g \<longleftrightarrow>
     prefix (cs_taken g @ ci_lines (cs_console g)) input \<and>
     (\<not> ci_stopping (cs_console g) \<longrightarrow> cs_taken g @ ci_lines (cs_console g) @ cs_input g = input) \<and>
     (\<not> cs_stopped g \<longrightarrow> cs_taken g @ ci_lines (cs_console g) @ cs_input g = input) \<and>
     (\<not> cs_stopped g \<and> ci_stopping (cs_console g) \<longrightarrow> cs_input g = [])"

lemma con_inv_take:
  assumes "con_inv input g" "r = pop_line (cs_console g)"
  shows "con_inv input (con_take r g)"
  using assms by (cases "ci_lines (cs_console g)") (auto simp: con_inv_def con_take_def pop_line_def)

lemma con_inv_step: "con_step g g' \<Longrightarrow> con_inv input g \<Longrightarrow> con_inv input g'"
proof (induction rule: con_step.induct)
  case (line g l ls)
  have "prefix (cs_taken g @ ci_lines (cs_console g) @ [l]) (cs_taken g @ ci_lines (cs_console g) @ l # ls)" by simp
  with line show ?case by (auto simp: con_inv_def console_run_def)
next
  case (wait t expired g r)
  then have "r = pop_line (cs_console g)" by (auto simp: waitForLine_def Let_def split: if_splits)
  with wait con_inv_take show ?case by blast
next
  case (poll g)
  then show ?case using con_inv_take by (simp add: tryRead_def)
qed (auto simp: con_inv_def console_start_def console_run_def console_stop_def)

lemma con_inv_run: "con_step\<^sup>*\<^sup>* (con_init input) g \<Longrightarrow> con_inv input g"
proof (induction rule: rtranclp_induct)
  case base
  show ?case by (simp add: con_init_def con_inv_def console_ctor_def)
qed (rule con_inv_step)

section \<open>The simulator waits\<close>

text \<open>The timeout that \<open>Simulator::start\<close> gives to \<open>waitForLine\<close>: forever only when there is nothing to do.\<close>

definition sim_waitMs :: "int \<Rightarrow> rat \<Rightarrow> sim_rt \<Rightarrow> int" where
  "sim_waitMs deferTill timescale m =
     (let deltaTime = sim_delta deferTill m;
          waitTime0 = (if getNextEvent (rb_events (sr_base m)) \<noteq> None \<or> deferTill \<ge> 0 then 0 else - 1);
          waitTime = (if deltaTime > 0 \<and> timescale > 0 then floor (of_int deltaTime / timescale) else waitTime0)
      in if waitTime < 0 then - 1 else waitTime sdiv 1000)"

text \<open>One iteration of the main loop with its console; \<open>None\<close> while it is blocked in \<open>waitForLine\<close>.\<close>

definition sim_loop :: "bool \<Rightarrow> int \<Rightarrow> simulator \<Rightarrow> console \<Rightarrow> ((sim_phase \<times> simulator) \<times> console) option" where
  "sim_loop expired elapsed s c =
     (case sim_readCommandFile s of
        (None, s1) \<Rightarrow> Some ((Ended, s1), c)
      | (Some deferTill, s1) \<Rightarrow>
          (case waitForLine (sim_waitMs deferTill (sim_timescale s1) (io_rt (sim_io s1))) expired c of
             None \<Rightarrow> None
           | Some (r, c') \<Rightarrow> Some (sim_iterate (map_option (\<lambda>l. (l, elapsed)) r) s, c')))"

lemma waitForLine_expired: "0 \<le> t \<Longrightarrow> waitForLine t True c = Some (pop_line c)"
  by (simp add: waitForLine_def Let_def)

lemma sim_waitMs_work:
  assumes "getNextEvent (rb_events (sr_base m)) \<noteq> None \<or> deferTill \<ge> 0"
  shows "0 \<le> sim_waitMs deferTill ts m"
proof -
  have "0 \<le> w sdiv 1000" if "0 \<le> w" for w :: int using that by (cases "w = 0") (simp_all add: signed_divide_int_def pos_imp_zdiv_nonneg_iff)
  then have nn: "0 \<le> (if w < 0 then - 1 else w sdiv 1000)" if "0 \<le> w" for w :: int using that by simp
  have "0 \<le> \<lfloor>rat_of_int d / ts\<rfloor>" if "0 < d" "0 < ts" for d using that by simp
  then show ?thesis unfolding sim_waitMs_def Let_def using assms by (intro nn) simp
qed

section \<open>Properties\<close>






end
