(* ===== verification/Programs.thy ===== *)
theory Programs
  imports Trawler_Properties Console
begin

text \<open>
  The two executables: \<open>main.cpp\<close> (\<open>netstack simulate\<close> and \<open>netstack emulate\<close>) and
  \<open>trawler_main.cpp\<close>. The arguments include the program name; \<open>fs\<close> gives the lines of a file,
  \<open>None\<close> when it cannot be opened. A result is the exit code with the lines printed to
  \<open>cerr\<close>, the end of the process by a command of a file, or the program running in its loop.
\<close>

datatype main_result =
    MainExit int "string list"
  | MainEnded
  | RunSim simulator
  | RunEmu emulator
  | RunTrawler trawler

definition netstack_usage :: "string list" where
  "netstack_usage =
     [''Usage: netstack simulate <num nodes> <topo file> [command file] [timescale]'',
      ''   or: netstack emulate <trawler host> <trawler port> <local port> [command file]'',
      ''Arguments in <> are required and arguments in [] are optional.'',
      ''Command file is a file with commands for a node.'',
      ''Topo file is the topology file to use. It may also contain commands for a node.'']"

text \<open>The command file argument number \<open>i\<close>: absent, the placeholder \<open>-\<close>, or a name.\<close>

definition command_file :: "string list \<Rightarrow> nat \<Rightarrow> string option" where
  "command_file args i = (if length args \<ge> i + 1 \<and> args ! i \<noteq> ''-'' then Some (args ! i) else None)"

definition main_simulate ::
  "(string \<Rightarrow> string list option) \<Rightarrow> (nat \<Rightarrow> nat \<Rightarrow> rat) \<Rightarrow> string list \<Rightarrow> exn + main_result" where
  "main_simulate fs seeds args =
     ebind (stoi (args ! 2)) (\<lambda>numNodes.
     ebind (sim_ctor numNodes (args ! 3, fs (args ! 3)) seeds) (\<lambda>(going, sim).
       if \<not> going then Inr MainEnded
       else
         let timescaled = (\<lambda>s. ebind (if length args \<ge> 6 then ebind (stod (args ! 5)) (\<lambda>t. Inr (sim_setTimescale t s))
                                      else Inr s) (\<lambda>s1. Inr (RunSim (sim_start s1))))
         in (case command_file args 4 of
               None \<Rightarrow> timescaled sim
             | Some f \<Rightarrow>
                 if fst (setCommandFile (fs f) (sr_base (io_rt (sim_io sim)))) \<noteq> 0
                 then Inr (MainExit 1 [''Could not open command file '' @ f])
                 else timescaled (sim_setCommandFile (fs f) sim))))"

definition main_emulate ::
  "(string \<Rightarrow> string list option) \<Rightarrow> emu_env \<Rightarrow> emu_boot \<Rightarrow> string list \<Rightarrow> exn + main_result" where
  "main_emulate fs env boot args =
     (if length args < 5 then Inr (MainExit 1 (''Missing arguments to emulator'' # netstack_usage))
      else
        ebind (stoi (args ! 3)) (\<lambda>trawlerPort.
        ebind (stoi (args ! 4)) (\<lambda>localUdp.
          let emu = emu_ctor env localUdp;
              started = (\<lambda>e. ebind (emu_start env boot (args ! 2) e) (\<lambda>r.
                Inr (case r of None \<Rightarrow> MainEnded | Some e1 \<Rightarrow> RunEmu e1)))
          in (case command_file args 5 of
                None \<Rightarrow> started emu
              | Some f \<Rightarrow>
                  if fst (setCommandFile (fs f) (er_base (io_rt (em_io emu)))) \<noteq> 0
                  then Inr (MainExit 1 [''Could not open command file '' @ f])
                  else started (emu_setCommandFile (fs f) emu)))))"

definition netstack_main ::
  "(string \<Rightarrow> string list option) \<Rightarrow> (nat \<Rightarrow> nat \<Rightarrow> rat) \<Rightarrow> emu_env \<Rightarrow> emu_boot \<Rightarrow> string list \<Rightarrow> main_result" where
  "netstack_main fs seeds env boot args =
     (if length args < 4 then MainExit 1 (''Missing arguments'' # netstack_usage)
      else
        let mode = args ! 1
        in (case (if mode = ''simulate'' then main_simulate fs seeds args
                  else if mode = ''emulate'' then main_emulate fs env boot args
                  else Inr (MainExit 1 ((''Unknown mode: '' @ mode) # netstack_usage))) of
              Inl e \<Rightarrow> MainExit 1 [''Exception occurred in netstack: '' @ what e]
            | Inr r \<Rightarrow> r))"

definition trawler_usage :: "string list" where
  "trawler_usage =
     [''Usage: trawler <port> [topo file]'',
      ''port      : TCP port to listen on for emulated nodes'',
      ''topo file : optional topology script; when omitted all nodes are'',
      ''            neighbors of each other by default.'']"

text \<open>\<open>now\<close> is the clock when the topology file is parsed, the truth values whether \<open>socket\<close>, \<open>bind\<close>
  and \<open>listen\<close> succeed.\<close>

definition trawler_main ::
  "(string \<Rightarrow> string list option) \<Rightarrow> (nat \<Rightarrow> nat \<Rightarrow> rat) \<Rightarrow> (nat \<Rightarrow> nat \<Rightarrow> int) \<Rightarrow> int \<Rightarrow> bool \<times> bool \<times> bool \<Rightarrow>
     string list \<Rightarrow> main_result" where
  "trawler_main fs seeds send now os args =
     (if length args < 2 then MainExit 1 (''Missing arguments'' # trawler_usage)
      else
        (case ebind (stoi (args ! 1)) (\<lambda>port.
                let topoFile = (if length args \<ge> 3 then args ! 2 else []);
                    allToAll = (topoFile = [])
                in ebind (tr_start send (fs topoFile) now (fst os) (fst (snd os)) (snd (snd os))
                            (ts_ctor port topoFile allToAll seeds)) (\<lambda>r.
                     Inr (case r of None \<Rightarrow> MainEnded | Some s \<Rightarrow> RunTrawler s))) of
           Inl e \<Rightarrow> MainExit 1 [''Exception in trawler: '' @ what e]
         | Inr r \<Rightarrow> r))"

section \<open>Facts\<close>

lemma ebind_Inr: "ebind x f = Inr y \<longleftrightarrow> (\<exists>v. x = Inr v \<and> f v = Inr y)"
  by (cases x) (simp_all add: ebind_def)

lemma no_command_file:
  "sim_setCommandFile None s = s" "emu_setCommandFile None e = e" "sim_setTimescale (sim_timescale s) s = s"
  by (simp_all add: sim_setCommandFile_def emu_setCommandFile_def setCommandFile_def sim_upd_def emu_upd_def sim_setTimescale_def)

lemma main_simulate_reachable:
  assumes "main_simulate fs seeds args = Inr (RunSim s)"
  shows "sim_reachable (Top, s)"
proof -
  obtain n s0 where c: "sim_ctor n (args ! 3, fs (args ! 3)) seeds = Inr (True, s0)"
    and s: "\<exists>f t. s = sim_start (sim_setTimescale t (sim_setCommandFile f s0))"
    using assms no_command_file(1,3)
    by (auto simp: main_simulate_def ebind_Inr Let_def split: option.splits if_splits) metis+
  then show ?thesis using sim_reachable.start[OF c] by blast
qed

lemma main_emulate_reachable:
  assumes "main_emulate fs env boot args = Inr (RunEmu e)"
  shows "emu_reachable env (ETop, e)"
proof -
  obtain f u where "emu_start env boot (args ! 2) (emu_setCommandFile f (emu_ctor env u)) = Inr (Some e)"
    using assms no_command_file(2)
    by (auto simp: main_emulate_def ebind_Inr Let_def split: option.splits if_splits) metis+
  then show ?thesis by (rule emu_reachable.start)
qed

section \<open>Properties\<close>



end
