(* ===== verification/Spec2Isabelle.thy ===== *)
theory Spec2Isabelle
  imports Text Acknowledgement Progress Transfer_Run Programs
begin

text \<open>
  A verification of \<open>cpp_tcp\<close>, a TCP-like transport stack that runs on a discrete-event
  simulator or, over UDP, on an emulator.

  \<^bold>\<open>The program.\<close> A \<open>StackNode\<close> is the protocol stack of one node: it decodes packets,
  answers pings, hands transport segments to its \<open>TcpManager\<close> and runs the transfer
  application on \<open>TcpSocket\<close>s. A node talks to the world through \<open>RuntimeManager\<close>:
  \<open>sendPkt\<close>, timers and the time. The simulator implements it with an event queue and a
  topology of edges that delay, drop and lose packets; the emulator with UDP datagrams and
  a trawler that tells each emulator who its neighbours are.

  \<^bold>\<open>Theories\<close>, each of which says more at its head:
  \<^item> \<open>Prelude\<close>: fixed-width integers (\<open>i32\<close>, \<open>i64\<close>, \<open>in_i32\<close>), bytes, exceptions as
    the left of a sum, fact collections, shared list and word lemmas.
  \<^item> \<open>Wire\<close> (\<open>src/net\<close>): \<open>Packet\<close>, \<open>Transport\<close>, \<open>EmulatorPacket\<close>, \<open>LinkState\<close> byte for
    byte, with the locale \<open>codec\<close> and its interpretations.
  \<^item> \<open>Text\<close>: number and word syntax shared by the parsers.
  \<^item> \<open>Event_Queue\<close> (\<open>src/core/ordered_event_queue.cpp\<close>): draining it is a stable sort.
  \<^item> \<open>Links\<close> (\<open>src/sim/edge.cpp\<close>, \<open>src/emu/emulated_link.cpp\<close>): pacing, loss and drop,
    with the locale of a pacer and the equivalence of the two implementations.
  \<^item> \<open>Topology\<close> (\<open>src/sim/topology.cpp\<close>): edges and failures, refined to a map.
  \<^item> \<open>Runtime\<close> (\<open>src/core/runtime_manager.cpp\<close>, \<open>clock.hpp\<close>): the clock and the base class; a record \<open>runtime\<close> stands
    for the virtual operations, so that the stack is modelled once for both runtimes.
  \<^item> \<open>Tcp_Socket\<close>, \<open>Tcp_Manager\<close> (\<open>src/node/tcp_*.cpp\<close>): the sockets, the handlers of SYN,
    ACK, FIN and DATA, retransmission; with the socket invariant.
  \<^item> \<open>Tcp_Invariant\<close>: the invariant of a manager over all calls, segments and ticks.
  \<^item> \<open>Delivery\<close>: two managers and any network that meets the locale \<open>network\<close>: what one socket
    receives is a prefix of what was written to the other. \<open>Acknowledgement\<close>: what the sender
    counts as acknowledged was received. \<open>Progress\<close>: whatever is lost, data gets through.
  \<^item> \<open>Transfer_App\<close> (\<open>src/apps\<close>), \<open>Stack_Node\<close> (\<open>src/node/stack_node.cpp\<close>),
    \<open>Node_Invariant\<close>: the node, its tasks, commands and pings, and the invariant of a node
    over everything that can happen to it; \<open>Node_Effects\<close> with the locale \<open>runtime_keeper\<close>:
    what the runtime of a node may rely on, whichever runtime it is. \<open>Transfer_Run\<close>: client and
    worker over a lossy network, with the guarantee of \<open>Delivery\<close>: corruption is never reported.
  \<^item> \<open>Doubles\<close>, \<open>Arp_Commands\<close> (\<open>src/emu/trawler_node_arp_commands.cpp\<close>): decimal numbers,
    and the lines with which the trawler describes neighbours.
  \<^item> \<open>Commands_Parser\<close> (\<open>src/sim/commands_parser.cpp\<close>): the language of topology and command
    files over a record of the virtual methods; the locales \<open>parser_keeps\<close> and \<open>topology_hooks\<close>
    state what the three subclasses promise and are interpreted for each.
  \<^item> \<open>Simulator\<close>, \<open>Sim_Invariant\<close>, \<open>Sim_Properties\<close> (\<open>src/sim/simulator.cpp\<close>): the main loop as
    a transition system, its invariant, time, the fate of packets, and the simulator as an
    instance of \<open>network\<close>.
  \<^item> \<open>Console\<close> (\<open>src/sim/console_io_thread.cpp\<close>): the thread that reads the terminal, the
    interleavings with the main loop, and when that loop waits.
  \<^item> \<open>Streams\<close>: lines over stream sockets, written and read in pieces.
  \<^item> \<open>Emulator\<close>, \<open>Emu_Invariant\<close> (\<open>src/emu/emulator.cpp\<close>): start-up and main loop of the
    emulator, its invariant, its table of neighbours as a refinement of a map, the emulator
    as an instance of \<open>network\<close>.
  \<^item> \<open>Trawler\<close>, \<open>Trawler_Invariant\<close>, \<open>Trawler_Properties\<close> (\<open>src/emu/trawler_service.cpp\<close>,
    \<open>src/emu/emulated_node.cpp\<close>): the accept loop, the registry of nodes, and that an
    emulator that has read its stream agrees with the topology of the trawler.
  \<^item> \<open>Programs\<close> (\<open>src/main.cpp\<close>, \<open>src/trawler_main.cpp\<close>): arguments and start-up; whatever the
    programs run in their loops is a run of the transition systems above.

  \<^bold>\<open>How the model corresponds to the code.\<close> An object is a record with the fields of the
  class, a method a function that takes and returns it; pointers to sockets are indices
  into \<open>allSockets_\<close>, which only grows; a hash table is an association list whose order
  stands for the unspecified iteration order. What a node prints is part of the state
  (\<open>io_out\<close>). C++ \<open>int\<close> and \<open>int64_t\<close> are integers with the wrap-around of two's complement
  written out; \<open>double\<close> is an exact rational. Exceptions are \<open>Inl\<close>.

  \<^bold>\<open>The environment.\<close> Readings of the clock, answers of \<open>send\<close>, \<open>recv\<close>, \<open>poll\<close>, \<open>accept\<close> and
  \<open>sendto\<close>, the contents of files, random samples and the lines of the user are arguments or
  choices of the steps: the properties hold for all of them. Where a theorem about
  a connection restricts the network, the restriction is in the step relation: \<open>authentic\<close> and
  \<open>genuine\<close> exclude forged segments of the peer, nothing else. An integer division by zero
  and \<open>exit\<close> inside a call of the runtime set a flag (\<open>sr_fault\<close>, \<open>er_fault\<close>, \<open>er_exited\<close>), and
  the loop ends there.

  \<^bold>\<open>Bounds.\<close> \<open>room\<close> and \<open>node_room\<close> restrict runs to less than \<open>2 ^ 30\<close> bytes per connection and
  task: the source does not treat wrap-around of sequence numbers, and beyond that its
  comparisons are wrong. All loops are total functions with a termination proof; there is
  no fuel. \<open>options_printable\<close> restricts loss rates to decimals of at most 17 digits, which is
  what a \<open>double\<close> has.

  \<^bold>\<open>Not modelled.\<close> The system calls themselves, signals (a write to a closed socket may end a
  process by \<open>SIGPIPE\<close>), the rounding of floating-point numbers, and the unit tests.
\<close>

end
